(* ===== verification/Mesh_Prelude.thy ===== *)
theory Mesh_Prelude
  imports Main "HOL-Library.Word" "HOL-Library.Sublist"
begin

text \<open>
  Shared base of the development: the names of the machine integers and byte buffers, the
  error values (\<open>anyhow::Error\<close>), the iteration order of a hash map, the collections of
  facts the component theories fill, and two locales for components that are driven by
  events: one for an invariant kept by every step and one for a step that refines an abstract
  step.
\<close>

section \<open>Types\<close>

type_synonym u8 = "8 word"
type_synonym u16 = "16 word"
type_synonym u32 = "32 word"

text \<open>
  A \<open>Vec<u8>\<close>, a \<open>&[u8]\<close> and a \<open>String\<close> of the user-space code are lists of bytes. HOL's
  \<open>char\<close> is exactly a byte, so a Rust string is the HOL string of its UTF-8 encoding and
  an ASCII literal of the source is a HOL literal.
\<close>

type_synonym bytes = "char list"

section \<open>Collections of facts\<close>

named_theorems std_defs \<open>definitions that model the Rust standard library\<close>
named_theorems map_laws \<open>laws of the kernel map interface\<close>
named_theorems step_defs \<open>definitions of the component steps\<close>

section \<open>Error values\<close>

text \<open>
  \<open>anyhow::Error\<close>: a message, or a context wrapped around an earlier error. Its
  \<open>Display\<close> prints the outermost layer only, which is what \<open>e.to_string()\<close> reads.
\<close>

datatype anyhow = Msg string | Context string anyhow

fun err_display :: "anyhow \<Rightarrow> string" where
  "err_display (Msg s) = s"
| "err_display (Context s e) = s"

definition with_context :: "string \<Rightarrow> anyhow + 'a \<Rightarrow> anyhow + 'a" where
  "with_context s r = (case r of Inl e \<Rightarrow> Inl (Context s e) | Inr a \<Rightarrow> Inr a)"

definition ok_or :: "'e \<Rightarrow> 'a option \<Rightarrow> 'e + 'a" where
  "ok_or e x = (case x of None \<Rightarrow> Inl e | Some a \<Rightarrow> Inr a)"

lemma with_context_simps [simp]:
  "with_context s (Inl e) = Inl (Context s e)"
  "with_context s (Inr a) = Inr a"
  by (simp_all add: with_context_def)

lemma with_context_Inr_iff [simp]: "with_context s r = Inr a \<longleftrightarrow> r = Inr a"
  by (cases r) simp_all

lemma ok_or_simps [simp]:
  "ok_or e None = Inl e"
  "ok_or e (Some a) = Inr a"
  by (simp_all add: ok_or_def)

text \<open>
  The Go parts return plain error texts: \<open>if err != nil { return fmt.Errorf("s: %w", err) }\<close> is
  \<open>wrap_err\<close> followed by \<open>and_then\<close>.
\<close>

definition and_then :: "'e + 'a \<Rightarrow> ('a \<Rightarrow> 'e + 'b) \<Rightarrow> 'e + 'b" where
  "and_then r f = (case r of Inl e \<Rightarrow> Inl e | Inr a \<Rightarrow> f a)"

definition wrap_err :: "string \<Rightarrow> string + 'a \<Rightarrow> string + 'a" where
  "wrap_err s r = (case r of Inl e \<Rightarrow> Inl (s @ '': '' @ e) | Inr a \<Rightarrow> Inr a)"

lemma and_then_simps [simp]:
  "and_then (Inl e) f = Inl e"
  "and_then (Inr a) f = f a"
  by (simp_all add: and_then_def)

lemma and_then_Inr_iff: "and_then r f = Inr b \<longleftrightarrow> (\<exists>a. r = Inr a \<and> f a = Inr b)"
  by (cases r) simp_all

lemma wrap_err_simps [simp]:
  "wrap_err s (Inl e) = Inl (s @ '': '' @ e)"
  "wrap_err s (Inr a) = Inr a"
  by (simp_all add: wrap_err_def)

lemma wrap_err_Inr_iff [simp]: "wrap_err s r = Inr a \<longleftrightarrow> r = Inr a"
  by (cases r) simp_all

text \<open>The successes of an iterator of results: \<open>filter_map(|r| r.ok())\<close>.\<close>

fun oks :: "('e + 'a) list \<Rightarrow> 'a list" where
  "oks [] = []"
| "oks (Inl e # rs) = oks rs"
| "oks (Inr a # rs) = a # oks rs"

text \<open>\<open>collect::<Result<Vec<_>, _>>()\<close>: the first error, or all the values.\<close>

fun collect_results :: "('e + 'a) list \<Rightarrow> 'e + 'a list" where
  "collect_results [] = Inr []"
| "collect_results (Inl e # rs) = Inl e"
| "collect_results (Inr a # rs) =
     (case collect_results rs of Inl e \<Rightarrow> Inl e | Inr xs \<Rightarrow> Inr (a # xs))"

lemma set_oks: "set (oks rs) = {a. Inr a \<in> set rs}"
  by (induction rs rule: oks.induct) auto

lemma oks_map_Inr [simp]: "oks (map Inr xs) = xs"
  by (induction xs) auto

lemma collect_results_Inr: "collect_results rs = Inr xs \<Longrightarrow> rs = map Inr xs"
  by (induction rs arbitrary: xs rule: collect_results.induct) (auto split: sum.splits)

lemma collect_results_map_Inr [simp]: "collect_results (map Inr xs) = Inr xs"
  by (induction xs) auto

section \<open>Hash maps\<close>

text \<open>
  A \<open>HashMap\<close> is a map; the order in which its iterators visit the keys is not specified
  by the library, so every operation that iterates takes the order as an argument. An order
  of a map lists each of its keys once.
\<close>

definition iter_order :: "('k \<rightharpoonup> 'v) \<Rightarrow> 'k list \<Rightarrow> bool" where
  "iter_order m ks \<longleftrightarrow> distinct ks \<and> set ks = dom m"

lemma iter_order_distinct: "iter_order m ks \<Longrightarrow> distinct ks"
  by (simp add: iter_order_def)

lemma iter_order_set: "iter_order m ks \<Longrightarrow> set ks = dom m"
  by (simp add: iter_order_def)

lemma iter_order_mem: "iter_order m ks \<Longrightarrow> k \<in> set ks \<longleftrightarrow> (\<exists>v. m k = Some v)"
  by (auto simp: iter_order_def)

lemma iter_order_empty [simp]: "iter_order Map.empty ks \<longleftrightarrow> ks = []"
  by (auto simp: iter_order_def)

lemma iter_order_Nil_iff [simp]: "iter_order m [] \<longleftrightarrow> m = Map.empty"
  by (auto simp: iter_order_def)

lemma iter_order_ex: "finite (dom m) \<Longrightarrow> \<exists>ks. iter_order m ks"
  using finite_distinct_list [of "dom m"] by (auto simp: iter_order_def)

text \<open>\<open>values().next()\<close> of a map visited in the order \<open>ks\<close>.\<close>

definition first_value :: "('k \<rightharpoonup> 'v) \<Rightarrow> 'k list \<Rightarrow> 'v option" where
  "first_value m ks = (case ks of [] \<Rightarrow> None | k # _ \<Rightarrow> m k)"

lemma first_value_None: "iter_order m ks \<Longrightarrow> first_value m ks = None \<longleftrightarrow> m = Map.empty"
  by (cases ks) (auto simp: first_value_def iter_order_def)

lemma first_value_ran: "first_value m ks = Some v \<Longrightarrow> v \<in> ran m"
  by (cases ks) (auto simp: first_value_def ran_def)

text \<open>Two maps with the same bindings are equal.\<close>

lemma map_eqI_Some: "(\<And>k v. m k = Some v \<longleftrightarrow> m' k = Some v) \<Longrightarrow> m = m'"
  by (rule ext) (metis not_None_eq)

text \<open>Reading a list inside its bounds after an update anywhere.\<close>

lemma nth_update_in: "j < length xs \<Longrightarrow> xs[i := x] ! j = (if i = j then x else xs ! j)"
  by (cases "i = j") simp_all

lemma sum_list_map_update:
  fixes f :: "'a \<Rightarrow> nat"
  shows "i < length xs \<Longrightarrow> sum_list (map f (xs[i := x])) + f (xs ! i) = sum_list (map f xs) + f x"
proof (induction xs arbitrary: i)
  case (Cons y ys)
  then show ?case by (cases i) (simp, force)
qed simp

lemma subseq_grow: "subseq xs (xs @ ys)"
  by (rule list_emb_prefix) simp

section \<open>Event-driven components\<close>

text \<open>
  A component that reacts to events by a step function, with an invariant that every step
  keeps. The run over a list of events is a fold.
\<close>

locale event_machine =
  fixes step :: "'s \<Rightarrow> 'e \<Rightarrow> 's"
    and inv :: "'s \<Rightarrow> bool"
  assumes inv_step: "inv s \<Longrightarrow> inv (step s e)"
begin

lemma inv_run: "inv s \<Longrightarrow> inv (foldl step s es)"
  by (induction es arbitrary: s) (auto intro: inv_step)

lemma inv_prefix: "inv s \<Longrightarrow> inv (foldl step s (take n es))"
  by (rule inv_run)

end

text \<open>
  A machine whose step refines an abstract step: under the invariant the abstraction of the
  concrete step is the abstract step of the abstraction, so whole runs agree.
\<close>

locale refined_machine = event_machine step inv
  for step :: "'s \<Rightarrow> 'e \<Rightarrow> 's" and inv :: "'s \<Rightarrow> bool" +
  fixes abs :: "'s \<Rightarrow> 'a"
    and astep :: "'a \<Rightarrow> 'e \<Rightarrow> 'a"
  assumes abs_step: "inv s \<Longrightarrow> abs (step s e) = astep (abs s) e"
begin

lemma abs_run: "inv s \<Longrightarrow> abs (foldl step s es) = foldl astep (abs s) es"
proof (induction es arbitrary: s)
  case Nil
  then show ?case by simp
next
  case (Cons e es)
  from Cons.prems have "inv (step s e)" by (rule inv_step)
  then have "abs (foldl step (step s e) es) = foldl astep (abs (step s e)) es"
    by (rule Cons.IH)
  with Cons.prems show ?case by (simp add: abs_step)
qed

end

end
