(* ===== verification/Policy_Cache.thy ===== *)
theory Policy_Cache
  imports Mesh_Prelude
begin

text \<open>
  \<open>crates/meshlite-tls/src/policy_cache.rs\<close>: the policy last pushed (Kprobe) or polled
  (Conduit), and the two checks on it. The check of a pair looks for the first rule of the
  source and denies when that rule does not list the destination; the check of a destination
  alone looks at every rule.
\<close>

section \<open>State\<close>

record AllowRule =
  from_service :: string
  to_services :: "string list"

record PolicyCache =
  rules :: "AllowRule list"
  default_allow :: bool
  mtls_mode :: string

section \<open>Operations\<close>

definition pc_clone :: "PolicyCache \<Rightarrow> PolicyCache" where
  "pc_clone c = \<lparr>rules = rules c, default_allow = default_allow c, mtls_mode = mtls_mode c\<rparr>"

definition pc_new :: PolicyCache where
  "pc_new = \<lparr>rules = [], default_allow = True, mtls_mode = ''off''\<rparr>"

definition pc_update :: "PolicyCache \<Rightarrow> AllowRule list \<Rightarrow> bool \<Rightarrow> string \<Rightarrow> PolicyCache" where
  "pc_update c rs d m = c\<lparr>rules := rs, default_allow := d, mtls_mode := m\<rparr>"

fun allowed_by :: "AllowRule list \<Rightarrow> bool \<Rightarrow> string \<Rightarrow> string \<Rightarrow> bool" where
  "allowed_by [] d from_svc to_svc = d"
| "allowed_by (r # rs) d from_svc to_svc =
     (if from_service r = from_svc then
        (if list_ex (\<lambda>t. t = to_svc) (to_services r) then True else False)
      else allowed_by rs d from_svc to_svc)"

definition is_allowed :: "PolicyCache \<Rightarrow> string \<Rightarrow> string \<Rightarrow> bool" where
  "is_allowed c from_svc to_svc = allowed_by (rules c) (default_allow c) from_svc to_svc"

fun dest_allowed_by :: "AllowRule list \<Rightarrow> bool \<Rightarrow> string \<Rightarrow> bool" where
  "dest_allowed_by [] d to_svc = d"
| "dest_allowed_by (r # rs) d to_svc =
     (if list_ex (\<lambda>t. t = to_svc) (to_services r) then True else dest_allowed_by rs d to_svc)"

definition is_allowed_destination :: "PolicyCache \<Rightarrow> string \<Rightarrow> bool" where
  "is_allowed_destination c to_svc = dest_allowed_by (rules c) (default_allow c) to_svc"

definition pc_default :: PolicyCache where
  "pc_default = pc_new"

lemma pc_clone_id [simp]: "pc_clone c = c"
  by (simp add: pc_clone_def)

lemma pc_update_sel [simp]:
  "rules (pc_update c rs d m) = rs"
  "default_allow (pc_update c rs d m) = d"
  "mtls_mode (pc_update c rs d m) = m"
  by (simp_all add: pc_update_def)

lemma pc_update_last: "pc_update c rs d m = \<lparr>rules = rs, default_allow = d, mtls_mode = m\<rparr>"
  by (simp add: pc_update_def)

section \<open>Meaning of the checks\<close>

text \<open>The specification of the pair check: the first rule of the source decides.\<close>

definition first_rule :: "AllowRule list \<Rightarrow> string \<Rightarrow> AllowRule option" where
  "first_rule rs f = find (\<lambda>r. from_service r = f) rs"

lemma allowed_by_first:
  "allowed_by rs d f t = (case first_rule rs f of None \<Rightarrow> d | Some r \<Rightarrow> t \<in> set (to_services r))"
  by (induction rs) (auto simp: first_rule_def list_ex_iff)

lemma dest_allowed_by_iff:
  "dest_allowed_by rs d t \<longleftrightarrow> d \<or> (\<exists>r \<in> set rs. t \<in> set (to_services r))"
  by (induction rs) (auto simp: list_ex_iff)

lemma is_allowed_first:
  "is_allowed c f t =
     (case first_rule (rules c) f of None \<Rightarrow> default_allow c | Some r \<Rightarrow> t \<in> set (to_services r))"
  by (simp add: is_allowed_def allowed_by_first)

lemma is_allowed_destination_iff:
  "is_allowed_destination c t \<longleftrightarrow> default_allow c \<or> (\<exists>r \<in> set (rules c). t \<in> set (to_services r))"
  by (simp add: is_allowed_destination_def dest_allowed_by_iff)

lemma first_rule_Some: "first_rule rs f = Some r \<Longrightarrow> r \<in> set rs \<and> from_service r = f"
  by (auto simp: first_rule_def find_Some_iff)

lemma first_rule_None: "first_rule rs f = None \<longleftrightarrow> f \<notin> from_service ` set rs"
  by (auto simp: first_rule_def find_None_iff)

lemma first_rule_append:
  "first_rule (xs @ ys) f = (case first_rule xs f of None \<Rightarrow> first_rule ys f | Some r \<Rightarrow> Some r)"
  by (induction xs) (auto simp: first_rule_def)

lemma first_rule_Cons:
  "first_rule (r # rs) f = (if from_service r = f then Some r else first_rule rs f)"
  by (simp add: first_rule_def)

text \<open>With one rule per source, the order of the rules does not matter.\<close>

lemma first_rule_distinct:
  assumes "distinct (map from_service rs)" "r \<in> set rs"
  shows "first_rule rs (from_service r) = Some r"
  using assms by (induction rs) (auto simp: first_rule_def)

text \<open>There is always a service name that is not in use.\<close>

lemma ex_new_string: "finite (A :: string set) \<Longrightarrow> \<exists>s. s \<notin> A"
  using ex_new_if_finite [OF infinite_UNIV_listI] by blast

section \<open>The contract of a policy check\<close>

text \<open>
  What a gateway that does not know the source relies on: the destination check never refuses
  what the pair check permits.
\<close>

locale policy_oracle =
  fixes pair_ok :: "'p \<Rightarrow> string \<Rightarrow> string \<Rightarrow> bool"
    and dest_ok :: "'p \<Rightarrow> string \<Rightarrow> bool"
  assumes pair_dest: "pair_ok p f t \<Longrightarrow> dest_ok p t"
begin

lemma dest_refused: "\<not> dest_ok p t \<Longrightarrow> \<not> pair_ok p f t"
  using pair_dest by blast

end

lemma is_allowed_is_destination: "is_allowed c f t \<Longrightarrow> is_allowed_destination c t"
  by (auto simp: is_allowed_first is_allowed_destination_iff split: option.splits
      dest: first_rule_Some)

interpretation pc: policy_oracle is_allowed is_allowed_destination
  by unfold_locales (rule is_allowed_is_destination)

section \<open>Properties\<close>

text \<open>
  The pair check: with no rule for the source the default decides; otherwise the first
  rule of the source decides alone, whatever the default and whatever later rules say.
\<close>

theorem is_allowed_first_rule_decides:
  "(f \<notin> from_service ` set (rules c) \<longrightarrow> is_allowed c f t = default_allow c) \<and>
   (\<forall>xs r ys. rules c = xs @ r # ys \<and> from_service r = f \<and> f \<notin> from_service ` set xs \<longrightarrow>
      is_allowed c f t = (t \<in> set (to_services r)))"
proof (intro conjI impI allI)
  assume "f \<notin> from_service ` set (rules c)"
  then show "is_allowed c f t = default_allow c"
    by (simp add: is_allowed_first first_rule_None [THEN iffD2])
next
  fix xs r ys
  assume "rules c = xs @ r # ys \<and> from_service r = f \<and> f \<notin> from_service ` set xs"
  then have "first_rule (rules c) f = Some r"
    by (simp add: first_rule_append first_rule_None [THEN iffD2] first_rule_Cons)
  then show "is_allowed c f t = (t \<in> set (to_services r))" by (simp add: is_allowed_first)
qed

theorem is_allowed_first_rule_decides_witness:
  "\<not> is_allowed \<lparr>rules = [\<lparr>from_service = ''a'', to_services = [''b'']\<rparr>,
        \<lparr>from_service = ''a'', to_services = [''c'']\<rparr>], default_allow = True, mtls_mode = ''off''\<rparr>
      ''a'' ''c''"
  using is_allowed_first_rule_decides [of "''a''" "\<lparr>rules = [\<lparr>from_service = ''a'', to_services = [''b'']\<rparr>,
        \<lparr>from_service = ''a'', to_services = [''c'']\<rparr>], default_allow = True, mtls_mode = ''off''\<rparr>" "''c''",
      THEN conjunct2, rule_format, of "[]" "\<lparr>from_service = ''a'', to_services = [''b'']\<rparr>"
      "[\<lparr>from_service = ''a'', to_services = [''c'']\<rparr>]"]
  by simp

text \<open>
  The gateway's check of a destination is exact as far as it can be: when no two rules
  have the same source, a destination passes exactly when some source is permitted to reach it.
\<close>

theorem destination_check_exact:
  assumes "distinct (map from_service (rules c))"
  shows "is_allowed_destination c t \<longleftrightarrow> (\<exists>f. is_allowed c f t)"
proof
  assume "is_allowed_destination c t"
  then consider "default_allow c" | r where "r \<in> set (rules c)" "t \<in> set (to_services r)"
    by (auto simp: is_allowed_destination_iff)
  then show "\<exists>f. is_allowed c f t"
  proof cases
    case 1
    obtain f where "f \<notin> from_service ` set (rules c)"
      using ex_new_string [of "from_service ` set (rules c)"] by auto
    then have "is_allowed c f t" using 1 by (simp add: is_allowed_first first_rule_None [THEN iffD2])
    then show ?thesis ..
  next
    case 2
    then have "is_allowed c (from_service r) t"
      by (simp add: is_allowed_first first_rule_distinct [OF assms])
    then show ?thesis ..
  qed
qed (blast intro: is_allowed_is_destination)

theorem destination_check_exact_witness:
  "\<not> (\<exists>f. is_allowed \<lparr>rules = [\<lparr>from_service = ''alpha'', to_services = [''beta'']\<rparr>],
        default_allow = False, mtls_mode = ''enforce''\<rparr> f ''gamma'')"
proof -
  let ?c = "\<lparr>rules = [\<lparr>from_service = ''alpha'', to_services = [''beta'']\<rparr>],
             default_allow = False, mtls_mode = ''enforce''\<rparr>"
  have "\<not> is_allowed_destination ?c ''gamma''" by (simp add: is_allowed_destination_def)
  then show ?thesis by (subst (asm) destination_check_exact) simp_all
qed

end
