(* ===== verification/Rust_Str.thy ===== *)
theory Rust_Str
  imports Mesh_Prelude
begin

text \<open>
  The string and slice functions of the Rust standard library that the HTTP, address and
  telemetry code calls, on the UTF-8 bytes of a string: validation (\<open>from_utf8\<close>), \<open>lines\<close>,
  \<open>trim\<close>, \<open>trim_end_matches\<close>, \<open>split(c).next()\<close>, \<open>split_whitespace\<close>,
  \<open>to_ascii_lowercase\<close>, \<open>starts_with\<close>, \<open>strip_prefix\<close>, \<open>contains\<close>, \<open>windows(n).position\<close>,
  \<open>replace\<close>, \<open>to_string\<close> of an unsigned integer and \<open>parse::<u16>\<close>.
  ASCII patterns are matched byte by byte: no byte of a multi-byte character is ASCII.
\<close>

section \<open>Characters\<close>

abbreviation CR :: char where "CR \<equiv> CHR 0x0D"
abbreviation LF :: char where "LF \<equiv> CHR 0x0A"
abbreviation CRLF :: bytes where "CRLF \<equiv> [CHR 0x0D, CHR 0x0A]"

definition byte :: "char \<Rightarrow> nat" where
  "byte c = of_char c"

lemma byte_less [simp]: "byte c < 256"
  by (simp add: byte_def)

lemma byte_inject [simp]: "byte c = byte d \<longleftrightarrow> c = d"
  by (simp add: byte_def)

definition is_digit :: "char \<Rightarrow> bool" where
  "is_digit c \<longleftrightarrow> 48 \<le> byte c \<and> byte c \<le> 57"

definition digit_val :: "char \<Rightarrow> nat" where
  "digit_val c = byte c - 48"

definition digit_char :: "nat \<Rightarrow> char" where
  "digit_char d = char_of (48 + d)"

lemma byte_char_of: "n < 256 \<Longrightarrow> byte (char_of n) = n"
  by (simp add: byte_def of_char_of)

lemma digit_char_byte: "d < 10 \<Longrightarrow> byte (digit_char d) = 48 + d"
  by (simp add: digit_char_def byte_char_of)

lemma is_digit_digit_char [simp]: "d < 10 \<Longrightarrow> is_digit (digit_char d)"
  by (simp add: is_digit_def digit_char_byte)

lemma digit_val_digit_char [simp]: "d < 10 \<Longrightarrow> digit_val (digit_char d) = d"
  by (simp add: digit_val_def digit_char_byte)

lemma digit_val_less: "is_digit c \<Longrightarrow> digit_val c < 10"
  unfolding is_digit_def digit_val_def by linarith

lemma digit_char_digit_val: "is_digit c \<Longrightarrow> digit_char (digit_val c) = c"
proof -
  assume d: "is_digit c"
  then have "byte (digit_char (digit_val c)) = byte c"
    by (simp add: digit_char_byte digit_val_less) (simp add: digit_val_def is_digit_def)
  then show ?thesis by simp
qed

section \<open>UTF-8 validity\<close>

text \<open>
  \<open>std::str::from_utf8\<close> accepts exactly the well-formed byte sequences of the Unicode
  standard: no overlong forms, no surrogates, nothing above U+10FFFF.
\<close>

definition is_cont :: "char \<Rightarrow> bool" where
  "is_cont c \<longleftrightarrow> 128 \<le> byte c \<and> byte c < 192"

fun utf8_valid :: "bytes \<Rightarrow> bool" where
  "utf8_valid [] = True"
| "utf8_valid (a # s) =
     (if byte a < 128 then utf8_valid s
      else if 194 \<le> byte a \<and> byte a \<le> 223 then
        (case s of b # s' \<Rightarrow> is_cont b \<and> utf8_valid s' | _ \<Rightarrow> False)
      else if 224 \<le> byte a \<and> byte a \<le> 239 then
        (case s of b # c # s' \<Rightarrow>
             is_cont b \<and> is_cont c \<and> (byte a = 224 \<longrightarrow> 160 \<le> byte b)
             \<and> (byte a = 237 \<longrightarrow> byte b < 160) \<and> utf8_valid s'
         | _ \<Rightarrow> False)
      else if 240 \<le> byte a \<and> byte a \<le> 244 then
        (case s of b # c # d # s' \<Rightarrow>
             is_cont b \<and> is_cont c \<and> is_cont d \<and> (byte a = 240 \<longrightarrow> 144 \<le> byte b)
             \<and> (byte a = 244 \<longrightarrow> byte b < 144) \<and> utf8_valid s'
         | _ \<Rightarrow> False)
      else False)"

declare utf8_valid.simps(2) [simp del]

definition from_utf8 :: "bytes \<Rightarrow> string option" where
  "from_utf8 raw = (if utf8_valid raw then Some raw else None)"

definition is_ascii :: "string \<Rightarrow> bool" where
  "is_ascii s \<longleftrightarrow> (\<forall>c \<in> set s. byte c < 128)"

lemma utf8_valid_ascii: "is_ascii s \<Longrightarrow> utf8_valid s"
  by (induction s) (auto simp: is_ascii_def utf8_valid.simps(2))

lemma from_utf8_ascii [simp]: "is_ascii s \<Longrightarrow> from_utf8 s = Some s"
  by (simp add: from_utf8_def utf8_valid_ascii)

lemma utf8_valid_ascii_append: "is_ascii s \<Longrightarrow> utf8_valid (s @ t) = utf8_valid t"
  by (induction s) (auto simp: is_ascii_def utf8_valid.simps(2))

lemma is_ascii_simps [simp]:
  "is_ascii []"
  "is_ascii (c # s) \<longleftrightarrow> byte c < 128 \<and> is_ascii s"
  "is_ascii (s @ t) \<longleftrightarrow> is_ascii s \<and> is_ascii t"
  by (auto simp: is_ascii_def)

text \<open>
  A byte index is a character boundary when it is the length or does not point at a
  continuation byte; slicing at any other index panics.
\<close>

definition is_char_boundary :: "string \<Rightarrow> nat \<Rightarrow> bool" where
  "is_char_boundary s i \<longleftrightarrow> i = length s \<or> (i < length s \<and> \<not> is_cont (s ! i))"

section \<open>Prefixes, substrings and replacement\<close>

definition starts_with :: "string \<Rightarrow> string \<Rightarrow> bool" where
  "starts_with s p \<longleftrightarrow> prefix p s"

definition strip_prefix :: "string \<Rightarrow> string \<Rightarrow> string option" where
  "strip_prefix p s = (if prefix p s then Some (drop (length p) s) else None)"

text \<open>\<open>windows(n).position(|w| w == pat)\<close> for a pattern of \<open>n > 0\<close> bytes.\<close>

fun find_sub :: "bytes \<Rightarrow> bytes \<Rightarrow> nat option" where
  "find_sub pat [] = (if pat = [] then Some 0 else None)"
| "find_sub pat (x # xs) =
     (if prefix pat (x # xs) then Some 0 else map_option Suc (find_sub pat xs))"

definition str_contains :: "string \<Rightarrow> string \<Rightarrow> bool" where
  "str_contains s pat \<longleftrightarrow> find_sub pat s \<noteq> None"

lemma find_sub_Some: "find_sub pat s = Some i \<Longrightarrow> prefix pat (drop i s) \<and> i \<le> length s"
  by (induction s arbitrary: i) (auto split: if_splits)

lemma find_sub_least: "find_sub pat s = Some i \<Longrightarrow> j < i \<Longrightarrow> \<not> prefix pat (drop j s)"
proof (induction s arbitrary: i j)
  case Nil
  then show ?case by (simp split: if_splits)
next
  case (Cons x s)
  then show ?case by (cases j) (auto split: if_splits)
qed

lemma find_sub_None: "find_sub pat s = None \<longleftrightarrow> \<not> sublist pat s"
  by (induction s) (auto simp: sublist_Cons_right)

lemma str_contains_iff: "str_contains s pat \<longleftrightarrow> sublist pat s"
  by (simp add: str_contains_def find_sub_None)

lemma find_sub_bound: "find_sub pat s = Some i \<Longrightarrow> i + length pat \<le> length s"
  using find_sub_Some [of pat s i] by (auto simp: prefix_def dest!: arg_cong [of _ _ length])

text \<open>The leftmost occurrence, at the end of a part with no earlier one.\<close>

lemma find_sub_append:
  "\<forall>j<length h. \<not> prefix pat (drop j (h @ pat @ t)) \<Longrightarrow> find_sub pat (h @ pat @ t) = Some (length h)"
proof (induction h)
  case Nil
  then show ?case by (cases "pat @ t") (auto, (metis append_Nil append_is_Nil_conv prefixI)+)
next
  case (Cons x h)
  have "\<forall>j<length h. \<not> prefix pat (drop j (h @ pat @ t))"
  proof (intro allI impI)
    fix j
    assume "j < length h"
    then show "\<not> prefix pat (drop j (h @ pat @ t))" using Cons.prems [rule_format, of "Suc j"] by simp
  qed
  then have "find_sub pat (h @ pat @ t) = Some (length h)" by (rule Cons.IH)
  moreover have "\<not> prefix pat ((x # h) @ pat @ t)" using Cons.prems [rule_format, of 0] by simp
  ultimately show ?case by simp
qed

lemma take_length_append: "take (length a) (a @ b) = a"
  by simp

lemma take_drop_append: "j + n \<le> length a \<Longrightarrow> take n (drop j (a @ b)) = take n (drop j a)"
  by simp

lemma find_sub_first:
  assumes "pat \<noteq> []" and "\<not> sublist pat (h @ butlast pat)"
  shows "find_sub pat (h @ pat @ t) = Some (length h)"
proof (rule find_sub_append, intro allI impI notI)
  fix j
  assume j: "j < length h" and "prefix pat (drop j (h @ pat @ t))"
  then have "pat = take (length pat) (drop j (h @ pat @ t))"
    by (metis append_eq_conv_conj prefix_def)
  also have "\<dots> = take (length pat) (drop j (h @ butlast pat))"
  proof -
    have "h @ pat @ t = (h @ butlast pat) @ last pat # t"
      using assms(1) by simp
    moreover have "j + length pat \<le> length (h @ butlast pat)"
      using j assms(1) by (cases pat) auto
    ultimately show ?thesis by (simp only: take_drop_append)
  qed
  finally have "sublist pat (h @ butlast pat)"
    by (metis sublist_drop sublist_order.order_trans sublist_take)
  with assms(2) show False ..
qed

function str_replace :: "string \<Rightarrow> string \<Rightarrow> string \<Rightarrow> string" where
  "str_replace pat new s =
     (case s of
        [] \<Rightarrow> []
      | c # cs \<Rightarrow>
          (if pat \<noteq> [] \<and> prefix pat s then new @ str_replace pat new (drop (length pat) s)
           else c # str_replace pat new cs))"
  by pat_completeness auto
termination
  by (relation "measure (\<lambda>(pat, new, s). length s)") auto

declare str_replace.simps [simp del]

lemma str_replace_Nil [simp]: "str_replace pat new [] = []"
  by (subst str_replace.simps) simp

lemma str_replace_Cons:
  "str_replace pat new (c # cs) =
     (if pat \<noteq> [] \<and> prefix pat (c # cs) then new @ str_replace pat new (drop (length pat) (c # cs))
      else c # str_replace pat new cs)"
  by (subst str_replace.simps) simp

text \<open>Only occurrences are replaced: a string without the pattern's first byte is kept.\<close>

lemma str_replace_skip:
  "p \<notin> set h \<Longrightarrow> str_replace (p # ps) new (h @ t) = h @ str_replace (p # ps) new t"
  by (induction h) (auto simp: str_replace_Cons)

lemma str_replace_hit:
  "str_replace (p # ps) new ((p # ps) @ t) = new @ str_replace (p # ps) new t"
  by (simp add: str_replace_Cons)

section \<open>Letter case\<close>

definition lower_char :: "char \<Rightarrow> char" where
  "lower_char c = (if 65 \<le> byte c \<and> byte c \<le> 90 then char_of (byte c + 32) else c)"

definition to_ascii_lowercase :: "string \<Rightarrow> string" where
  "to_ascii_lowercase s = map lower_char s"

lemma length_to_ascii_lowercase [simp]: "length (to_ascii_lowercase s) = length s"
  by (simp add: to_ascii_lowercase_def)

lemma byte_lower_char: "byte (lower_char c) = (if 65 \<le> byte c \<and> byte c \<le> 90 then byte c + 32 else byte c)"
  by (simp add: lower_char_def byte_char_of)

lemma lower_char_ascii: "byte (lower_char c) < 128 \<longleftrightarrow> byte c < 128"
  by (auto simp: byte_lower_char)

section \<open>Lines\<close>

text \<open>
  \<open>lines()\<close> cuts at every line feed and drops one carriage return in front of it; the last
  piece may have no line feed and keeps its carriage return.
\<close>

definition strip_cr :: "string \<Rightarrow> string" where
  "strip_cr l = (if l \<noteq> [] \<and> last l = CR then butlast l else l)"

function str_lines :: "string \<Rightarrow> string list" where
  "str_lines s =
     (if s = [] then []
      else if LF \<in> set s then
        strip_cr (takeWhile (\<lambda>c. c \<noteq> LF) s) # str_lines (tl (dropWhile (\<lambda>c. c \<noteq> LF) s))
      else [s])"
  by pat_completeness auto
termination
proof (relation "measure length", simp)
  fix s :: string
  assume "s \<noteq> []"
  then have "length (tl (dropWhile (\<lambda>c. c \<noteq> LF) s)) < length s"
    using length_dropWhile_le [of "\<lambda>c. c \<noteq> LF" s] by (cases s) (auto simp: le_Suc_eq)
  then show "(tl (dropWhile (\<lambda>c. c \<noteq> LF) s), s) \<in> measure length" by simp
qed

declare str_lines.simps [simp del]

lemma str_lines_Nil [simp]: "str_lines [] = []"
  by (subst str_lines.simps) simp

lemma str_lines_LF: "LF \<notin> set l \<Longrightarrow> str_lines (l @ LF # t) = strip_cr l # str_lines t"
  by (subst str_lines.simps) (simp add: takeWhile_append dropWhile_append)

lemma strip_cr_snoc [simp]: "strip_cr (l @ [CR]) = l"
  by (simp add: strip_cr_def)

lemma str_lines_CRLF: "LF \<notin> set l \<Longrightarrow> str_lines (l @ CRLF @ t) = l # str_lines t"
  using str_lines_LF [of "l @ [CR]" t] by simp

lemma str_lines_last: "LF \<notin> set l \<Longrightarrow> l \<noteq> [] \<Longrightarrow> str_lines l = [l]"
  by (subst str_lines.simps) simp

section \<open>White space\<close>

text \<open>The UTF-8 encodings of the characters with the Unicode property \<open>White_Space\<close>.\<close>

definition is_ws1 :: "char \<Rightarrow> bool" where
  "is_ws1 c \<longleftrightarrow> 9 \<le> byte c \<and> byte c \<le> 13 \<or> byte c = 32"

definition is_ws2 :: "char \<Rightarrow> char \<Rightarrow> bool" where
  "is_ws2 a b \<longleftrightarrow> byte a = 194 \<and> (byte b = 133 \<or> byte b = 160)"

definition is_ws3 :: "char \<Rightarrow> char \<Rightarrow> char \<Rightarrow> bool" where
  "is_ws3 a b c \<longleftrightarrow>
     byte a = 225 \<and> byte b = 154 \<and> byte c = 128
   \<or> byte a = 226 \<and> byte b = 128 \<and>
       (128 \<le> byte c \<and> byte c \<le> 138 \<or> byte c = 168 \<or> byte c = 169 \<or> byte c = 175)
   \<or> byte a = 226 \<and> byte b = 129 \<and> byte c = 159
   \<or> byte a = 227 \<and> byte b = 128 \<and> byte c = 128"

text \<open>The length of the white-space character a string starts with, 0 if there is none.\<close>

fun ws_len :: "string \<Rightarrow> nat" where
  "ws_len [] = 0"
| "ws_len [a] = (if is_ws1 a then 1 else 0)"
| "ws_len [a, b] = (if is_ws1 a then 1 else if is_ws2 a b then 2 else 0)"
| "ws_len (a # b # c # s) =
     (if is_ws1 a then 1 else if is_ws2 a b then 2 else if is_ws3 a b c then 3 else 0)"

text \<open>The same for the end of a string, given reversed.\<close>

fun ws_len_rev :: "string \<Rightarrow> nat" where
  "ws_len_rev [] = 0"
| "ws_len_rev [c] = (if is_ws1 c then 1 else 0)"
| "ws_len_rev [c, b] = (if is_ws1 c then 1 else if is_ws2 b c then 2 else 0)"
| "ws_len_rev (c # b # a # s) =
     (if is_ws1 c then 1 else if is_ws2 b c then 2 else if is_ws3 a b c then 3 else 0)"

function trim_start :: "string \<Rightarrow> string" where
  "trim_start s = (if ws_len s = 0 then s else trim_start (drop (ws_len s) s))"
  by pat_completeness auto
termination
  by (relation "measure length") (auto intro: diff_less simp: neq_Nil_conv)

function trim_rev :: "string \<Rightarrow> string" where
  "trim_rev s = (if ws_len_rev s = 0 then s else trim_rev (drop (ws_len_rev s) s))"
  by pat_completeness auto
termination
  by (relation "measure length") (auto intro: diff_less simp: neq_Nil_conv)

declare trim_start.simps [simp del] trim_rev.simps [simp del]

definition trim_end :: "string \<Rightarrow> string" where
  "trim_end s = rev (trim_rev (rev s))"

definition trim :: "string \<Rightarrow> string" where
  "trim s = trim_end (trim_start s)"

definition trim_end_matches :: "char \<Rightarrow> string \<Rightarrow> string" where
  "trim_end_matches c s = rev (dropWhile (\<lambda>x. x = c) (rev s))"

text \<open>\<open>s.split(c).next().unwrap_or(s)\<close>: the part before the first \<open>c\<close>.\<close>

definition split_first :: "char \<Rightarrow> string \<Rightarrow> string" where
  "split_first c s = takeWhile (\<lambda>x. x \<noteq> c) s"

function split_ws :: "string \<Rightarrow> string \<Rightarrow> string list" where
  "split_ws acc s =
     (case s of
        [] \<Rightarrow> (if acc = [] then [] else [rev acc])
      | c # cs \<Rightarrow>
          (if ws_len s = 0 then split_ws (c # acc) cs
           else (if acc = [] then [] else [rev acc]) @ split_ws [] (drop (ws_len s) s)))"
  by pat_completeness auto
termination
  by (relation "measure (\<lambda>(acc, s). length s)") auto

declare split_ws.simps [simp del]

definition split_whitespace :: "string \<Rightarrow> string list" where
  "split_whitespace s = split_ws [] s"

section \<open>Visible ASCII text\<close>

definition graphic :: "char \<Rightarrow> bool" where
  "graphic c \<longleftrightarrow> 33 \<le> byte c \<and> byte c < 127"

lemma graphic_not_ws [simp]: "graphic c \<Longrightarrow> \<not> is_ws1 c" "graphic c \<Longrightarrow> \<not> is_ws2 c b"
  "graphic c \<Longrightarrow> \<not> is_ws3 c b d" "graphic c \<Longrightarrow> \<not> is_ws2 b c" "graphic c \<Longrightarrow> \<not> is_ws3 b d c"
  by (auto simp: graphic_def is_ws1_def is_ws2_def is_ws3_def)

lemma graphic_ascii: "list_all graphic s \<Longrightarrow> is_ascii s"
  by (induction s) (auto simp: graphic_def)

lemma ws_len_graphic [simp]: "graphic c \<Longrightarrow> ws_len (c # s) = 0"
  by (cases "c # s" rule: ws_len.cases) auto

lemma ws_len_rev_graphic [simp]: "graphic c \<Longrightarrow> ws_len_rev (c # s) = 0"
  by (cases "c # s" rule: ws_len_rev.cases) auto

lemma ws_len_ws1 [simp]: "is_ws1 c \<Longrightarrow> ws_len (c # s) = 1"
  by (cases "c # s" rule: ws_len.cases) auto

lemma ws_len_rev_ws1 [simp]: "is_ws1 c \<Longrightarrow> ws_len_rev (c # s) = 1"
  by (cases "c # s" rule: ws_len_rev.cases) auto

lemma trim_start_blank: "list_all is_ws1 a \<Longrightarrow> trim_start (a @ s) = trim_start s"
proof (induction a)
  case (Cons c a)
  then show ?case by (subst trim_start.simps) simp
qed simp

lemma trim_rev_blank: "list_all is_ws1 a \<Longrightarrow> trim_rev (a @ s) = trim_rev s"
proof (induction a)
  case (Cons c a)
  then show ?case by (subst trim_rev.simps) simp
qed simp

lemma trim_start_graphic: "s = [] \<or> graphic (hd s) \<Longrightarrow> trim_start s = s"
  by (cases s) (auto simp: trim_start.simps [of "[]"] trim_start.simps [of "_ # _"])

lemma trim_rev_graphic: "s = [] \<or> graphic (hd s) \<Longrightarrow> trim_rev s = s"
  by (cases s) (auto simp: trim_rev.simps [of "[]"] trim_rev.simps [of "_ # _"])

text \<open>Trimming a text that starts and ends with a visible character between blanks.\<close>

lemma trim_text:
  assumes "list_all is_ws1 a" and "list_all is_ws1 b"
    and "s \<noteq> []" and "graphic (hd s)" and "graphic (last s)"
  shows "trim (a @ s @ b) = s"
proof -
  have "trim_start (a @ s @ b) = s @ b"
    using assms by (simp add: trim_start_blank trim_start_graphic)
  moreover have "trim_rev (rev b @ rev s) = rev s"
    using assms by (simp add: trim_rev_blank trim_rev_graphic hd_rev)
  ultimately show ?thesis by (simp add: trim_def trim_end_def)
qed

lemma trim_graphic: "list_all graphic s \<Longrightarrow> trim s = s"
proof (cases "s = []")
  case True
  then show ?thesis
    by (simp add: trim_def trim_end_def trim_start_graphic trim_rev_graphic)
next
  case False
  moreover assume "list_all graphic s"
  ultimately show ?thesis
    using trim_text [of "[]" "[]" s] by (simp add: list_all_iff)
qed

text \<open>The first two words of a line.\<close>

lemma split_ws_word:
  "list_all graphic w \<Longrightarrow> split_ws acc (w @ s) = split_ws (rev w @ acc) s"
proof (induction w arbitrary: acc)
  case (Cons c w)
  then show ?case by (subst split_ws.simps) simp
qed simp

lemma split_ws_blank: "is_ws1 c \<Longrightarrow> acc \<noteq> [] \<Longrightarrow> split_ws acc (c # s) = rev acc # split_ws [] s"
  by (subst split_ws.simps) simp

lemma split_ws_end: "split_ws acc [] = (if acc = [] then [] else [rev acc])"
  by (subst split_ws.simps) simp

section \<open>Decimal numbers\<close>

definition dec_val :: "string \<Rightarrow> nat" where
  "dec_val ds = foldl (\<lambda>n c. 10 * n + digit_val c) 0 ds"

fun dec_string :: "nat \<Rightarrow> string" where
  "dec_string n = (if n < 10 then [digit_char n] else dec_string (n div 10) @ [digit_char (n mod 10)])"

declare dec_string.simps [simp del]

lemma dec_val_snoc: "dec_val (ds @ [c]) = 10 * dec_val ds + digit_val c"
  by (simp add: dec_val_def)

lemma dec_val_dec_string [simp]: "dec_val (dec_string n) = n"
proof (induction n rule: dec_string.induct)
  case (1 n)
  show ?case
  proof (cases "n < 10")
    case True
    then show ?thesis by (subst dec_string.simps) (simp add: dec_val_def)
  next
    case False
    with 1 show ?thesis by (subst dec_string.simps) (simp add: dec_val_snoc)
  qed
qed

lemma dec_string_digits: "list_all is_digit (dec_string n)"
proof (induction n rule: dec_string.induct)
  case (1 n)
  then show ?case by (subst dec_string.simps) simp
qed

lemma dec_string_nonempty [simp]: "dec_string n \<noteq> []"
  by (subst dec_string.simps) simp

lemma hd_dec_string: "0 < n \<Longrightarrow> hd (dec_string n) \<noteq> CHR ''0''"
proof (induction n rule: dec_string.induct)
  case (1 n)
  show ?case
  proof (cases "n < 10")
    case True
    have "byte (CHR ''0'') = 48" by (simp add: byte_def)
    moreover have "byte (digit_char n) = 48 + n" using True by (rule digit_char_byte)
    ultimately have "digit_char n \<noteq> CHR ''0''" using "1.prems" by (metis add_cancel_right_right less_numeral_extra(3))
    with True show ?thesis by (subst dec_string.simps) simp
  next
    case False
    with 1 show ?thesis by (subst dec_string.simps) simp
  qed
qed

lemma digit_graphic: "is_digit c \<Longrightarrow> graphic c"
  by (simp add: is_digit_def graphic_def)

lemma digits_graphic: "list_all is_digit s \<Longrightarrow> list_all graphic s"
  by (auto simp: list_all_iff digit_graphic)

lemma dec_val_bound: "list_all is_digit ds \<Longrightarrow> dec_val ds < 10 ^ length ds"
proof (induction ds rule: rev_induct)
  case Nil
  then show ?case by (simp add: dec_val_def)
next
  case (snoc c ds)
  then have "dec_val ds < 10 ^ length ds" and "digit_val c < 10"
    by (simp_all add: digit_val_less)
  then show ?case by (simp add: dec_val_snoc)
qed

text \<open>
  \<open>u16::from_str\<close>: an optional plus sign and at least one digit; a value that does not fit
  is an error.
\<close>

definition parse_u16 :: "string \<Rightarrow> u16 option" where
  "parse_u16 s =
     (let ds = (case s of c # r \<Rightarrow> if c = CHR ''+'' then r else s | [] \<Rightarrow> []) in
      if ds = [] \<or> \<not> list_all is_digit ds \<or> 65535 < dec_val ds then None
      else Some (of_nat (dec_val ds)))"

lemma parse_u16_digits:
  assumes "list_all is_digit ds" "ds \<noteq> []" "dec_val ds < 65536"
  shows "parse_u16 ds = Some (of_nat (dec_val ds))"
proof -
  obtain c r where ds: "ds = c # r" using assms(2) by (cases ds) auto
  have "is_digit c" using assms(1) ds by simp
  moreover have "byte (CHR ''+'') = 43" by (simp add: byte_def)
  ultimately have "c \<noteq> CHR ''+''" by (auto simp: is_digit_def)
  with assms ds show ?thesis by (simp add: parse_u16_def Let_def)
qed

lemma parse_u16_dec_string: "n < 65536 \<Longrightarrow> parse_u16 (dec_string n) = Some (of_nat n)"
  by (simp add: parse_u16_digits dec_string_digits)

lemma takeWhile_split_first: "c \<notin> set h \<Longrightarrow> split_first c (h @ c # t) = h"
  by (simp add: split_first_def takeWhile_append)

lemma split_first_id: "c \<notin> set h \<Longrightarrow> split_first c h = h"
  by (auto simp: split_first_def takeWhile_eq_all_conv)

lemma split_first_notin: "c \<notin> set (split_first c s)"
  by (auto simp: split_first_def dest: set_takeWhileD)

end
