(* ===== verification/Net_Addr.thy ===== *)
theory Net_Addr
  imports Rust_Str
begin

unbundle bit_operations_syntax

text \<open>
  IPv4 addresses and integers in memory: the byte order of the machine, \<open>to_be\<close> and
  \<open>from_be\<close>, the conversions between \<open>Ipv4Addr\<close> and \<open>u32\<close>, its order (by octets), its
  decimal form and its parser. The round trips here are what lets a key written by user
  space be found by the kernel program that reads the same address from a packet.
\<close>

section \<open>Integers as bytes\<close>

text \<open>
  The byte order is a parameter: the kernel program is built for \<open>bpfel-unknown-none\<close> and
  runs on the machine of the user-space agent, so both use the same one.
\<close>

datatype endian = Little | Big

fun of_be16 :: "u8 list \<Rightarrow> u16" where
  "of_be16 [a, b] = push_bit 8 (ucast a) OR ucast b"
| "of_be16 _ = 0"

fun of_be32 :: "u8 list \<Rightarrow> u32" where
  "of_be32 [a, b, c, d] =
     push_bit 24 (ucast a) OR push_bit 16 (ucast b) OR push_bit 8 (ucast c) OR ucast d"
| "of_be32 _ = 0"

definition be_bytes16 :: "u16 \<Rightarrow> u8 list" where
  "be_bytes16 x = [ucast (drop_bit 8 x), ucast x]"

definition be_bytes32 :: "u32 \<Rightarrow> u8 list" where
  "be_bytes32 x = [ucast (drop_bit 24 x), ucast (drop_bit 16 x), ucast (drop_bit 8 x), ucast x]"

lemma length_be_bytes [simp]: "length (be_bytes16 x) = 2" "length (be_bytes32 y) = 4"
  by (simp_all add: be_bytes16_def be_bytes32_def)

lemma bit_u8_high [simp]: "8 \<le> n \<Longrightarrow> \<not> bit (x :: u8) n"
  by (auto dest: bit_imp_le_length)

lemma be_bytes16_of_be16 [simp]: "be_bytes16 (of_be16 [a, b]) = [a, b]"
  by (auto simp: be_bytes16_def bit_simps intro!: bit_word_eqI)

lemma be_bytes32_of_be32 [simp]: "be_bytes32 (of_be32 [a, b, c, d]) = [a, b, c, d]"
  by (auto simp: be_bytes32_def bit_simps intro!: bit_word_eqI)

lemma of_be16_be_bytes16 [simp]: "of_be16 (be_bytes16 x) = x"
proof (rule bit_word_eqI)
  fix n
  assume "n < LENGTH(16)"
  then show "bit (of_be16 (be_bytes16 x)) n = bit x n"
    by (auto simp: be_bytes16_def bit_simps)
qed

lemma of_be32_be_bytes32 [simp]: "of_be32 (be_bytes32 x) = x"
proof (rule bit_word_eqI)
  fix n
  assume n: "n < LENGTH(32)"
  consider "n < 8" | "8 \<le> n" "n < 16" | "16 \<le> n" "n < 24" | "24 \<le> n" by linarith
  then show "bit (of_be32 (be_bytes32 x)) n = bit x n"
    using n by cases (auto simp: be_bytes32_def bit_simps)
qed

declare of_be16.simps(1) [simp del] of_be32.simps(1) [simp del]

lemma length4_cases: "length xs = 4 \<Longrightarrow> (\<And>a b c d. xs = [a, b, c, d] \<Longrightarrow> P) \<Longrightarrow> P"
  by (auto simp: numeral_eq_Suc length_Suc_conv)

lemma length2_cases: "length xs = 2 \<Longrightarrow> (\<And>a b. xs = [a, b] \<Longrightarrow> P) \<Longrightarrow> P"
  by (auto simp: numeral_eq_Suc length_Suc_conv)

lemma be_bytes32_of_be32_length: "length bs = 4 \<Longrightarrow> be_bytes32 (of_be32 bs) = bs"
  by (erule length4_cases) simp

lemma be_bytes16_of_be16_length: "length bs = 2 \<Longrightarrow> be_bytes16 (of_be16 bs) = bs"
  by (erule length2_cases) simp

lemma be_bytes32_inject [simp]: "be_bytes32 x = be_bytes32 y \<longleftrightarrow> x = y"
  by (metis of_be32_be_bytes32)

lemma be_bytes16_inject [simp]: "be_bytes16 x = be_bytes16 y \<longleftrightarrow> x = y"
  by (metis of_be16_be_bytes16)

text \<open>An integer as it lies in memory, and read back from memory.\<close>

definition ne_bytes32 :: "endian \<Rightarrow> u32 \<Rightarrow> u8 list" where
  "ne_bytes32 e x = (case e of Little \<Rightarrow> rev (be_bytes32 x) | Big \<Rightarrow> be_bytes32 x)"

definition ne_bytes16 :: "endian \<Rightarrow> u16 \<Rightarrow> u8 list" where
  "ne_bytes16 e x = (case e of Little \<Rightarrow> rev (be_bytes16 x) | Big \<Rightarrow> be_bytes16 x)"

definition of_ne32 :: "endian \<Rightarrow> u8 list \<Rightarrow> u32" where
  "of_ne32 e bs = (case e of Little \<Rightarrow> of_be32 (rev bs) | Big \<Rightarrow> of_be32 bs)"

definition of_ne16 :: "endian \<Rightarrow> u8 list \<Rightarrow> u16" where
  "of_ne16 e bs = (case e of Little \<Rightarrow> of_be16 (rev bs) | Big \<Rightarrow> of_be16 bs)"

text \<open>\<open>u32::to_be\<close> swaps the bytes on a little-endian machine; \<open>u32::from_be\<close> is the same swap.\<close>

definition to_be32 :: "endian \<Rightarrow> u32 \<Rightarrow> u32" where
  "to_be32 e x = (case e of Little \<Rightarrow> of_be32 (rev (be_bytes32 x)) | Big \<Rightarrow> x)"

definition to_be16 :: "endian \<Rightarrow> u16 \<Rightarrow> u16" where
  "to_be16 e x = (case e of Little \<Rightarrow> of_be16 (rev (be_bytes16 x)) | Big \<Rightarrow> x)"

abbreviation from_be32 :: "endian \<Rightarrow> u32 \<Rightarrow> u32" where "from_be32 \<equiv> to_be32"
abbreviation from_be16 :: "endian \<Rightarrow> u16 \<Rightarrow> u16" where "from_be16 \<equiv> to_be16"

lemma length_ne_bytes [simp]: "length (ne_bytes32 e x) = 4" "length (ne_bytes16 e y) = 2"
  by (cases e; simp add: ne_bytes32_def ne_bytes16_def)+

lemma of_ne32_ne_bytes32 [simp]: "of_ne32 e (ne_bytes32 e x) = x"
  by (cases e) (simp_all add: of_ne32_def ne_bytes32_def)

lemma of_ne16_ne_bytes16 [simp]: "of_ne16 e (ne_bytes16 e x) = x"
  by (cases e) (simp_all add: of_ne16_def ne_bytes16_def)

text \<open>Four bytes of a packet read in the machine's order are the big-endian number in network order.\<close>

lemma of_ne32_network: "length bs = 4 \<Longrightarrow> of_ne32 e bs = to_be32 e (of_be32 bs)"
  by (cases e) (simp_all add: of_ne32_def to_be32_def be_bytes32_of_be32_length)

lemma of_ne16_network: "length bs = 2 \<Longrightarrow> of_ne16 e bs = to_be16 e (of_be16 bs)"
  by (cases e) (simp_all add: of_ne16_def to_be16_def be_bytes16_of_be16_length)

lemma to_be32_to_be32 [simp]: "to_be32 e (to_be32 e x) = x"
  by (cases e) (simp_all add: to_be32_def be_bytes32_of_be32_length)

lemma to_be16_to_be16 [simp]: "to_be16 e (to_be16 e x) = x"
  by (cases e) (simp_all add: to_be16_def be_bytes16_of_be16_length)

lemma to_be32_inject [simp]: "to_be32 e x = to_be32 e y \<longleftrightarrow> x = y"
  by (metis to_be32_to_be32)

lemma to_be16_inject [simp]: "to_be16 e x = to_be16 e y \<longleftrightarrow> x = y"
  by (metis to_be16_to_be16)

lemma of_be32_and:
  "of_be32 [a, b, c, d] AND of_be32 [a', b', c', d'] =
     of_be32 [a AND a', b AND b', c AND c', d AND d']"
  by (rule bit_word_eqI) (auto simp: of_be32.simps bit_simps)

lemma of_be32_cases [case_names bytes]:
  obtains a b c d where "x = of_be32 [a, b, c, d]" "be_bytes32 x = [a, b, c, d]"
proof (rule length4_cases [of "be_bytes32 x"])
  fix a b c d
  assume "be_bytes32 x = [a, b, c, d]"
  moreover from this have "x = of_be32 [a, b, c, d]" by (metis of_be32_be_bytes32)
  ultimately show thesis by (rule that [rotated])
qed simp

lemma to_be32_and: "to_be32 e (x AND y) = to_be32 e x AND to_be32 e y"
proof (cases x rule: of_be32_cases)
  case x: (bytes a b c d)
  show ?thesis
  proof (cases y rule: of_be32_cases)
    case y: (bytes a' b' c' d')
    show ?thesis by (cases e) (simp_all add: to_be32_def x y of_be32_and)
  qed
qed

section \<open>IPv4 addresses\<close>

text \<open>An \<open>Ipv4Addr\<close> is its four octets; \<open>u32::from\<close> is the big-endian number they spell.\<close>

datatype Ipv4Addr = Ipv4Addr u8 u8 u8 u8

fun octets :: "Ipv4Addr \<Rightarrow> u8 list" where
  "octets (Ipv4Addr a b c d) = [a, b, c, d]"

definition u32_from :: "Ipv4Addr \<Rightarrow> u32" where
  "u32_from ip = of_be32 (octets ip)"

definition ipv4_from :: "u32 \<Rightarrow> Ipv4Addr" where
  "ipv4_from x = (case be_bytes32 x of [a, b, c, d] \<Rightarrow> Ipv4Addr a b c d | _ \<Rightarrow> Ipv4Addr 0 0 0 0)"

lemma octets_inject [simp]: "octets a = octets b \<longleftrightarrow> a = b"
  by (cases a; cases b) simp

lemma length_octets [simp]: "length (octets ip) = 4"
  by (cases ip) simp

lemma be_bytes32_u32_from [simp]: "be_bytes32 (u32_from ip) = octets ip"
  by (cases ip) (simp add: u32_from_def)

lemma ipv4_from_u32_from [simp]: "ipv4_from (u32_from ip) = ip"
  by (cases ip) (simp add: ipv4_from_def)

lemma u32_from_ipv4_from [simp]: "u32_from (ipv4_from x) = x"
  by (cases x rule: of_be32_cases) (simp add: ipv4_from_def u32_from_def)

lemma u32_from_inject [simp]: "u32_from a = u32_from b \<longleftrightarrow> a = b"
  by (metis ipv4_from_u32_from)

text \<open>The order of the addresses, which \<open>sort\<close> uses: octet by octet.\<close>

instantiation Ipv4Addr :: linorder
begin

fun less_eq_Ipv4Addr :: "Ipv4Addr \<Rightarrow> Ipv4Addr \<Rightarrow> bool" where
  "less_eq_Ipv4Addr (Ipv4Addr a b c d) (Ipv4Addr a' b' c' d') \<longleftrightarrow>
     a < a' \<or> a = a' \<and> (b < b' \<or> b = b' \<and> (c < c' \<or> c = c' \<and> d \<le> d'))"

definition less_Ipv4Addr :: "Ipv4Addr \<Rightarrow> Ipv4Addr \<Rightarrow> bool" where
  "less_Ipv4Addr x y \<longleftrightarrow> x \<le> y \<and> \<not> y \<le> x"

instance
proof
  fix x y z :: Ipv4Addr
  show "(x < y) = (x \<le> y \<and> \<not> y \<le> x)" by (simp add: less_Ipv4Addr_def)
  show "x \<le> x" by (cases x) simp
  show "x \<le> y \<Longrightarrow> y \<le> z \<Longrightarrow> x \<le> z" by (cases x; cases y; cases z) auto
  show "x \<le> y \<Longrightarrow> y \<le> x \<Longrightarrow> x = y" by (cases x; cases y) auto
  show "x \<le> y \<or> y \<le> x" by (cases x; cases y) auto
qed

end

section \<open>Decimal form of an address\<close>

text \<open>\<open>Display\<close> of an address: the octets in decimal, separated by dots.\<close>

fun ipv4_display :: "Ipv4Addr \<Rightarrow> string" where
  "ipv4_display (Ipv4Addr a b c d) =
     dec_string (unat a) @ ''.'' @ dec_string (unat b) @ ''.'' @
     dec_string (unat c) @ ''.'' @ dec_string (unat d)"

text \<open>
  \<open>Ipv4Addr::from_str\<close>: at most 15 bytes; four numbers of one to three digits separated by
  dots, none above 255 and none with a leading zero, and nothing after them.
\<close>

definition parse_octet :: "string \<Rightarrow> (u8 \<times> string) option" where
  "parse_octet s =
     (let ds = takeWhile is_digit s; rest = dropWhile is_digit s in
      if ds = [] \<or> 3 < length ds \<or> 255 < dec_val ds \<or> (hd ds = CHR ''0'' \<and> 1 < length ds) then None
      else Some (of_nat (dec_val ds), rest))"

definition parse_dot :: "string \<Rightarrow> string option" where
  "parse_dot s = strip_prefix ''.'' s"

definition ipv4_parse :: "string \<Rightarrow> Ipv4Addr option" where
  "ipv4_parse s =
     (if 15 < length s then None
      else case parse_octet s of None \<Rightarrow> None | Some (a, s1) \<Rightarrow>
        (case Option.bind (parse_dot s1) parse_octet of None \<Rightarrow> None | Some (b, s2) \<Rightarrow>
          (case Option.bind (parse_dot s2) parse_octet of None \<Rightarrow> None | Some (c, s3) \<Rightarrow>
            (case Option.bind (parse_dot s3) parse_octet of None \<Rightarrow> None | Some (d, s4) \<Rightarrow>
              (if s4 = [] then Some (Ipv4Addr a b c d) else None)))))"

lemma unat_u8_less [simp]: "unat (x :: u8) < 256"
  using unsigned_less [of x, where 'a = nat] by simp

lemma length_dec_string_3: "n < 1000 \<Longrightarrow> length (dec_string n) \<le> 3"
  by (simp add: dec_string.simps [of n] dec_string.simps [of "n div 10"]
      dec_string.simps [of "n div 100"] div_less_iff_less_mult flip: div_mult2_eq)

lemma length_dec_string_u8: "length (dec_string (unat (x :: u8))) \<le> 3"
  using unat_u8_less [of x] by (intro length_dec_string_3) linarith

lemma dot_not_digit [simp]: "\<not> is_digit (CHR ''.'')"
  by (simp add: is_digit_def byte_def)

lemma parse_octet_dec_string:
  assumes "rest = [] \<or> \<not> is_digit (hd rest)"
  shows "parse_octet (dec_string (unat x) @ rest) = Some (x, rest)"
proof -
  let ?ds = "dec_string (unat x)"
  have digits: "\<And>c. c \<in> set ?ds \<Longrightarrow> is_digit c"
    using dec_string_digits [of "unat x"] by (simp add: list_all_iff)
  have take: "takeWhile is_digit (?ds @ rest) = ?ds"
    using assms digits by (cases rest) (auto simp: takeWhile_append)
  have drop: "dropWhile is_digit (?ds @ rest) = rest"
    using assms digits by (cases rest) (auto simp: dropWhile_append)
  have zero: "hd ?ds = CHR ''0'' \<Longrightarrow> length ?ds = 1"
    using hd_dec_string [of "unat x"] by (cases "unat x = 0") (auto simp: dec_string.simps [of 0])
  have "unat x \<le> 255" using unat_u8_less [of x] by linarith
  then show ?thesis
    using length_dec_string_u8 [of x] zero by (auto simp: parse_octet_def take drop Let_def)
qed

lemma parse_dot_dot [simp]: "parse_dot (CHR ''.'' # s) = Some s"
  by (simp add: parse_dot_def strip_prefix_def)

lemma ipv4_parse_display: "ipv4_parse (ipv4_display ip) = Some ip"
proof (cases ip)
  case (Ipv4Addr a b c d)
  have "length (ipv4_display ip) \<le> 15"
    using length_dec_string_u8 [of a] length_dec_string_u8 [of b]
      length_dec_string_u8 [of c] length_dec_string_u8 [of d]
    by (simp add: Ipv4Addr)
  then show ?thesis
    using parse_octet_dec_string [of "[]" d]
    by (simp add: ipv4_parse_def Ipv4Addr parse_octet_dec_string)
qed

section \<open>Properties\<close>

text \<open>
  Printing an address and parsing it gives the address back, for the parser the pod watcher
  runs on \<open>status.podIP\<close>; so the printed form determines the address.
\<close>

theorem ipv4_display_roundtrip:
  "ipv4_parse (ipv4_display ip) = Some ip \<and> (ipv4_display ip = ipv4_display ip' \<longleftrightarrow> ip = ip')"
  by (metis ipv4_parse_display option.inject)

end
