(* ===== verification/Pod_Watcher.thy ===== *)
theory Pod_Watcher
  imports Net_Addr
begin

text \<open>
  \<open>kprobe/kprobe-userspace/src/pod_watcher.rs\<close>: the live snapshot of the pods. The watcher
  stream is the argument: a list of the items it yields. Every item is handled by one step,
  which updates the snapshot and says whether a \<open>PodEvent::Changed\<close> is sent. The snapshot is
  shown to be the canonical form (sorted, without duplicates, no empty service) of a set of
  (service, address) pairs.
\<close>

section \<open>Data\<close>

text \<open>The fields of a Kubernetes pod object that the watcher reads.\<close>

record PodStatus =
  pod_ip :: "string option"

record Pod =
  labels :: "(string \<rightharpoonup> string) option"
  status :: "PodStatus option"

datatype PodEvent = Changed

text \<open>The items of the stream: \<open>Ok(Event::...)\<close> or \<open>Err(e)\<close>.\<close>

datatype WatchItem = Apply Pod | InitApply Pod | Delete Pod | Init | InitDone | WatchErr string

type_synonym PodSnapshot = "string \<rightharpoonup> Ipv4Addr list"

record PodWatcher =
  node_name :: string
  snapshot :: PodSnapshot

section \<open>Operations\<close>

definition pw_new :: "string \<Rightarrow> PodWatcher" where
  "pw_new node = \<lparr>node_name = node, snapshot = Map.empty\<rparr>"

definition extract_service_and_ip :: "Pod \<Rightarrow> (string \<times> Ipv4Addr) option" where
  "extract_service_and_ip pod =
     (case labels pod of None \<Rightarrow> None | Some ls \<Rightarrow>
      (case ls ''app'' of None \<Rightarrow> None | Some svc_id \<Rightarrow>
       (case status pod of None \<Rightarrow> None | Some st \<Rightarrow>
        (case pod_ip st of None \<Rightarrow> None | Some ip_str \<Rightarrow>
         (case ipv4_parse ip_str of None \<Rightarrow> None | Some ip \<Rightarrow> Some (svc_id, ip))))))"

text \<open>\<open>entry(svc).or_default().push(ip)\<close>, then sort and de-duplicate every list.\<close>

definition snap_push :: "PodSnapshot \<Rightarrow> string \<Rightarrow> Ipv4Addr \<Rightarrow> PodSnapshot" where
  "snap_push snap svc ip = snap(svc \<mapsto> (case snap svc of None \<Rightarrow> [] | Some v \<Rightarrow> v) @ [ip])"

definition snap_tidy :: "PodSnapshot \<Rightarrow> PodSnapshot" where
  "snap_tidy snap = (\<lambda>svc. map_option (\<lambda>v. remdups_adj (sort v)) (snap svc))"

definition snap_delete :: "PodSnapshot \<Rightarrow> string \<Rightarrow> Ipv4Addr \<Rightarrow> PodSnapshot" where
  "snap_delete snap svc ip =
     (case snap svc of
        None \<Rightarrow> snap
      | Some ips \<Rightarrow>
          (let ips' = filter (\<lambda>i. i \<noteq> ip) ips in
           if ips' = [] then snap(svc := None) else snap(svc \<mapsto> ips')))"

fun watch_step :: "PodSnapshot \<Rightarrow> WatchItem \<Rightarrow> PodSnapshot \<times> PodEvent list" where
  "watch_step snap (Apply pod) =
     (case extract_service_and_ip pod of
        Some (svc_id, ip) \<Rightarrow> (snap_tidy (snap_push snap svc_id ip), [Changed])
      | None \<Rightarrow> (snap, []))"
| "watch_step snap (InitApply pod) =
     (case extract_service_and_ip pod of
        Some (svc_id, ip) \<Rightarrow> (snap_tidy (snap_push snap svc_id ip), [Changed])
      | None \<Rightarrow> (snap, []))"
| "watch_step snap (Delete pod) =
     (case extract_service_and_ip pod of
        Some (svc_id, ip) \<Rightarrow> (snap_delete snap svc_id ip, [Changed])
      | None \<Rightarrow> (snap, []))"
| "watch_step snap Init = (Map.empty, [])"
| "watch_step snap InitDone = (snap, [Changed])"
| "watch_step snap (WatchErr err) = (snap, [])"

text \<open>
  The task: without a Kubernetes client it ends at once, otherwise it handles the items of the
  stream until the stream ends. The result is the snapshot and the events sent.
\<close>

fun watch_loop :: "PodSnapshot \<Rightarrow> WatchItem list \<Rightarrow> PodSnapshot \<times> PodEvent list" where
  "watch_loop snap [] = (snap, [])"
| "watch_loop snap (it # its) =
     (let (snap1, evs1) = watch_step snap it; (snap2, evs2) = watch_loop snap1 its
      in (snap2, evs1 @ evs2))"

definition pw_run :: "bool \<Rightarrow> PodWatcher \<Rightarrow> WatchItem list \<Rightarrow> PodSnapshot \<times> PodEvent list" where
  "pw_run client_ok w items = (if client_ok then watch_loop (snapshot w) items else (snapshot w, []))"

section \<open>The invariant\<close>

definition snap_inv :: "PodSnapshot \<Rightarrow> bool" where
  "snap_inv snap \<longleftrightarrow>
     finite (dom snap) \<and> (\<forall>svc v. snap svc = Some v \<longrightarrow> v \<noteq> [] \<and> sorted v \<and> distinct v)"

lemma snap_invD: "snap_inv snap \<Longrightarrow> snap svc = Some v \<Longrightarrow> v \<noteq> [] \<and> sorted v \<and> distinct v"
  by (simp add: snap_inv_def)

lemma snap_inv_empty [simp]: "snap_inv Map.empty"
  by (simp add: snap_inv_def)

lemma distinct_remdups_adj: "sorted v \<Longrightarrow> distinct (remdups_adj v)" for v :: "Ipv4Addr list"
  by (induction v rule: remdups_adj.induct) auto

lemma sorted_remdups_adj_sort [simp]:
  fixes v :: "Ipv4Addr list"
  shows "sorted (remdups_adj (sort v))" "distinct (remdups_adj (sort v))"
  by (simp_all add: sorted_remdups_adj distinct_remdups_adj)

lemma sort_eq_Nil [simp]: "sort v = [] \<longleftrightarrow> v = []" for v :: "Ipv4Addr list"
  by (metis set_empty set_sort)

lemma remdups_adj_canonical:
  "sorted v \<Longrightarrow> distinct v \<Longrightarrow> remdups_adj (sort v) = v" for v :: "Ipv4Addr list"
  by (simp add: sorted_sort_id remdups_adj_distinct)

text \<open>On a canonical snapshot only the list of the service that was pushed to changes.\<close>

lemma snap_tidy_push:
  assumes "snap_inv snap"
  shows "snap_tidy (snap_push snap svc ip) =
    snap(svc \<mapsto> remdups_adj (sort ((case snap svc of None \<Rightarrow> [] | Some v \<Rightarrow> v) @ [ip])))"
proof
  fix s
  show "snap_tidy (snap_push snap svc ip) s =
    (snap(svc \<mapsto> remdups_adj (sort ((case snap svc of None \<Rightarrow> [] | Some v \<Rightarrow> v) @ [ip])))) s"
    using snap_invD [OF assms, of s]
    by (cases "snap s") (auto simp: snap_tidy_def snap_push_def remdups_adj_canonical)
qed

lemma snap_inv_push: "snap_inv snap \<Longrightarrow> snap_inv (snap_tidy (snap_push snap svc ip))"
  by (auto simp: snap_tidy_push, auto simp: snap_inv_def)

lemma snap_inv_delete: "snap_inv snap \<Longrightarrow> snap_inv (snap_delete snap svc ip)"
  unfolding snap_delete_def snap_inv_def Let_def
  by (auto simp: sorted_filter [of id, simplified] split: option.splits if_splits)

lemma watch_step_inv: "snap_inv snap \<Longrightarrow> snap_inv (fst (watch_step snap it))"
  by (cases it) (auto simp: snap_inv_push snap_inv_delete split: option.splits)

section \<open>The abstract snapshot: a set of pairs\<close>

definition pairs :: "PodSnapshot \<Rightarrow> (string \<times> Ipv4Addr) set" where
  "pairs snap = {(svc, ip). \<exists>v. snap svc = Some v \<and> ip \<in> set v}"

fun pairs_step :: "(string \<times> Ipv4Addr) set \<Rightarrow> WatchItem \<Rightarrow> (string \<times> Ipv4Addr) set" where
  "pairs_step P (Apply pod) = P \<union> set_option (extract_service_and_ip pod)"
| "pairs_step P (InitApply pod) = P \<union> set_option (extract_service_and_ip pod)"
| "pairs_step P (Delete pod) = P - set_option (extract_service_and_ip pod)"
| "pairs_step P Init = {}"
| "pairs_step P InitDone = P"
| "pairs_step P (WatchErr err) = P"

lemma pairs_push: "pairs (snap_tidy (snap_push snap svc ip)) = insert (svc, ip) (pairs snap)"
  by (auto simp: pairs_def snap_tidy_def snap_push_def split: option.splits if_splits)

lemma pairs_delete: "pairs (snap_delete snap svc ip) = pairs snap - {(svc, ip)}"
  by (auto simp: pairs_def snap_delete_def Let_def filter_empty_conv split: option.splits if_splits)

lemma pairs_watch_step: "pairs (fst (watch_step snap it)) = pairs_step (pairs snap) it"
proof (cases it)
  case Init
  then show ?thesis by (simp add: pairs_def)
qed (auto simp: pairs_push pairs_delete split: option.splits)

text \<open>Under the invariant the snapshot is determined by its pairs.\<close>

lemma snap_canonical:
  assumes "snap_inv snap"
  shows "snap svc = (let A = {ip. (svc, ip) \<in> pairs snap} in
    if A = {} then None else Some (sorted_list_of_set A))"
proof (cases "snap svc")
  case None
  then show ?thesis by (simp add: pairs_def)
next
  case (Some v)
  moreover have "{ip. (svc, ip) \<in> pairs snap} = set v" using Some by (auto simp: pairs_def)
  ultimately show ?thesis
    using snap_invD [OF assms Some] by (simp add: Let_def sorted_list_of_set.idem_if_sorted_distinct)
qed

interpretation pw: refined_machine "\<lambda>snap it. fst (watch_step snap it)" snap_inv pairs pairs_step
  by unfold_locales (simp_all add: watch_step_inv pairs_watch_step)

lemma watch_loop_fst: "fst (watch_loop snap its) = foldl (\<lambda>s it. fst (watch_step s it)) snap its"
  by (induction its arbitrary: snap) (simp_all add: split_beta Let_def)

text \<open>The items after which an event is sent.\<close>

fun notifies :: "WatchItem \<Rightarrow> bool" where
  "notifies (Apply pod) = (extract_service_and_ip pod \<noteq> None)"
| "notifies (InitApply pod) = (extract_service_and_ip pod \<noteq> None)"
| "notifies (Delete pod) = (extract_service_and_ip pod \<noteq> None)"
| "notifies InitDone = True"
| "notifies Init = False"
| "notifies (WatchErr err) = False"

lemma watch_step_events: "snd (watch_step snap it) = (if notifies it then [Changed] else [])"
  by (cases it) (auto split: option.splits)

lemma watch_loop_events:
  "snd (watch_loop snap its) = replicate (length (filter notifies its)) Changed"
  by (induction its arbitrary: snap)
    (simp_all add: split_beta Let_def watch_step_events replicate_append_same [symmetric])

section \<open>Which addresses are present\<close>

text \<open>An item that adds, and an item that takes away, an address of a service.\<close>

fun adds :: "string \<times> Ipv4Addr \<Rightarrow> WatchItem \<Rightarrow> bool" where
  "adds p (Apply pod) = (extract_service_and_ip pod = Some p)"
| "adds p (InitApply pod) = (extract_service_and_ip pod = Some p)"
| "adds p it = False"

fun removes :: "string \<times> Ipv4Addr \<Rightarrow> WatchItem \<Rightarrow> bool" where
  "removes p (Delete pod) = (extract_service_and_ip pod = Some p)"
| "removes p Init = True"
| "removes p it = False"

lemma pairs_step_mem: "p \<in> pairs_step P it \<longleftrightarrow> adds p it \<or> p \<in> P \<and> \<not> removes p it"
  by (cases it) auto

lemma pairs_run_mem:
  "p \<in> foldl pairs_step {} its \<longleftrightarrow>
     (\<exists>xs it ys. its = xs @ it # ys \<and> adds p it \<and> list_all (\<lambda>y. \<not> removes p y) ys)"
  (is "_ \<longleftrightarrow> ?R its")
proof (induction its rule: rev_induct)
  case Nil
  then show ?case by simp
next
  case (snoc z its)
  have "?R (its @ [z]) \<longleftrightarrow> adds p z \<or> ?R its \<and> \<not> removes p z"
  proof
    assume "?R (its @ [z])"
    then obtain xs it ys where *: "its @ [z] = xs @ it # ys" "adds p it" "list_all (\<lambda>y. \<not> removes p y) ys"
      by blast
    show "adds p z \<or> ?R its \<and> \<not> removes p z"
    proof (cases ys rule: rev_cases)
      case Nil
      then show ?thesis using * by simp
    next
      case (snoc ys' y)
      then have "its = xs @ it # ys'" "y = z" using *(1) by (simp_all flip: append_assoc append_Cons)
      then show ?thesis using * snoc by auto
    qed
  next
    assume "adds p z \<or> ?R its \<and> \<not> removes p z"
    then show "?R (its @ [z])"
    proof
      assume "adds p z"
      then show ?thesis by (intro exI [of _ its] exI [of _ z] exI [of _ "[]"]) simp
    next
      assume "?R its \<and> \<not> removes p z"
      then obtain xs it ys where "its = xs @ it # ys" "adds p it" "list_all (\<lambda>y. \<not> removes p y) ys"
        and "\<not> removes p z" by blast
      then show ?thesis by (intro exI [of _ xs] exI [of _ it] exI [of _ "ys @ [z]"]) simp
    qed
  qed
  then show ?case by (simp add: pairs_step_mem snoc.IH)
qed

lemma pw_run_snapshot:
  "fst (pw_run True (pw_new node) its) = foldl (\<lambda>s it. fst (watch_step s it)) Map.empty its"
  by (simp add: pw_run_def pw_new_def watch_loop_fst)

lemma pairs_Map_empty [simp]: "pairs Map.empty = {}"
  by (simp add: pairs_def)

section \<open>Properties\<close>

text \<open>
  C31. An address is listed for a service exactly when some item of the stream added it and no
  later item is a deletion of that very pair or a restart of the watch. In particular a pod that
  is applied again with another address leaves its old address in the snapshot.
\<close>

theorem pod_address_listed_iff:
  "(svc, ip) \<in> pairs (fst (pw_run True (pw_new node) its)) \<longleftrightarrow>
     (\<exists>xs it ys. its = xs @ it # ys \<and> adds (svc, ip) it \<and> list_all (\<lambda>y. \<not> removes (svc, ip) y) ys)"
  by (simp add: pw_run_snapshot pw.abs_run pairs_run_mem)

text \<open>
  C32. Whatever the stream, the snapshot is canonical: a service is present exactly when it has
  an address, and its list is the strictly sorted list of its addresses. So two histories that
  leave the same pairs leave the same snapshot.
\<close>

theorem pod_snapshot_canonical:
  "fst (pw_run True (pw_new node) its) svc =
     (let A = {ip. (svc, ip) \<in> foldl pairs_step {} its} in
      if A = {} then None else Some (sorted_list_of_set A))"
proof -
  let ?snap = "foldl (\<lambda>s it. fst (watch_step s it)) Map.empty its"
  have "snap_inv ?snap" by (rule pw.inv_run) simp
  from snap_canonical [OF this, of svc] show ?thesis
    by (simp add: pw_run_snapshot pw.abs_run)
qed

text \<open>
  No change goes unreported: an item after which the snapshot differs is followed by exactly
  one \<open>Changed\<close> event, except the restart of the watch, which empties the snapshot silently.
\<close>

theorem pod_changes_reported:
  "watch_step snap it = (snap, snd (watch_step snap it)) \<or> snd (watch_step snap it) = [Changed]
     \<or> it = Init \<and> watch_step snap it = (Map.empty, [])"
  by (cases it) (auto split: option.splits)

end
