(* ===== verification/Bpf_Maps.thy ===== *)
theory Bpf_Maps
  imports Net_Addr "HOL-Library.DAList"
begin

text \<open>
  The data shared between the kernel program (\<open>kprobe/kprobe-ebpf/src/main.rs\<close>) and the
  user-space agent: the \<open>#[repr(C)]\<close> structs \<open>PacketKey\<close> and \<open>PacketLog\<close> with their
  memory layout, and the two BPF maps. The maps themselves belong to the kernel and to the
  \<open>aya\<close> crates, so their operations are a parameter, a record of functions; the locale
  \<open>bpf_maps\<close> states the documented behaviour the code relies on, and it is interpreted on
  maps with the capacities the program declares.
\<close>

section \<open>Shared structs\<close>

record PacketKey =
  pk_src_ip :: u32
  pk_dst_ip :: u32

record PacketLog =
  pl_src_ip :: u32
  pl_dst_ip :: u32
  pl_src_port :: u16
  pl_dst_port :: u16
  pl_proto :: u8
  pl_verdict :: u8

text \<open>
  \<open>size_of::<PacketLog>()\<close>: 14 bytes of fields, rounded up to the alignment of the \<open>u32\<close>
  fields. The two padding bytes hold anything.
\<close>

definition PacketLog_size :: nat where
  "PacketLog_size = 16"

definition log_to_bytes :: "endian \<Rightarrow> u8 \<times> u8 \<Rightarrow> PacketLog \<Rightarrow> u8 list" where
  "log_to_bytes e pad l =
     ne_bytes32 e (pl_src_ip l) @ ne_bytes32 e (pl_dst_ip l)
     @ ne_bytes16 e (pl_src_port l) @ ne_bytes16 e (pl_dst_port l)
     @ [pl_proto l, pl_verdict l, fst pad, snd pad]"

text \<open>\<open>read_unaligned\<close> of a \<open>PacketLog\<close>, from a buffer of at least its size.\<close>

definition log_of_bytes :: "endian \<Rightarrow> u8 list \<Rightarrow> PacketLog option" where
  "log_of_bytes e bs =
     (if length bs < PacketLog_size then None
      else Some \<lparr>pl_src_ip = of_ne32 e (take 4 bs),
                 pl_dst_ip = of_ne32 e (take 4 (drop 4 bs)),
                 pl_src_port = of_ne16 e (take 2 (drop 8 bs)),
                 pl_dst_port = of_ne16 e (take 2 (drop 10 bs)),
                 pl_proto = bs ! 12, pl_verdict = bs ! 13\<rparr>)"

lemma length_log_to_bytes: "length (log_to_bytes e pad l) = PacketLog_size"
  by (simp add: log_to_bytes_def PacketLog_size_def)

lemma log_of_to_bytes: "log_of_bytes e (log_to_bytes e pad l @ extra) = Some l"
  by (simp add: log_of_bytes_def log_to_bytes_def PacketLog_size_def nth_append)

section \<open>The kernel maps\<close>

definition VERDICT_MAP_ENTRIES :: nat where
  "VERDICT_MAP_ENTRIES = 4096"

definition POLICY_FLAGS_ENTRIES :: nat where
  "POLICY_FLAGS_ENTRIES = 1"

record ('m, 'a) bpf_ops =
  hm_get :: "'m \<Rightarrow> PacketKey \<Rightarrow> u8 option"
  hm_insert :: "'m \<Rightarrow> PacketKey \<Rightarrow> u8 \<Rightarrow> string + 'm"
  hm_remove :: "'m \<Rightarrow> PacketKey \<Rightarrow> string + 'm"
  hm_keys :: "'m \<Rightarrow> (string + PacketKey) list"
  ar_get :: "'a \<Rightarrow> nat \<Rightarrow> u32 option"
  ar_set :: "'a \<Rightarrow> nat \<Rightarrow> u32 \<Rightarrow> string + 'a"

text \<open>
  A hash map of \<open>cap\<close> entries refuses a new key when it is full and otherwise behaves as a
  map; without concurrent updates its key iterator yields every key once. An array map of one
  entry can be read and written at index 0.
\<close>

locale bpf_maps =
  fixes B :: "('m, 'a) bpf_ops"
    and cap :: nat
  assumes finite_get: "finite (dom (hm_get B m))"
    and insert_room: "k \<in> dom (hm_get B m) \<or> card (dom (hm_get B m)) < cap \<Longrightarrow>
      \<exists>m'. hm_insert B m k v = Inr m' \<and> hm_get B m' = (hm_get B m)(k \<mapsto> v)"
    and insert_full: "k \<notin> dom (hm_get B m) \<Longrightarrow> cap \<le> card (dom (hm_get B m)) \<Longrightarrow>
      \<exists>err. hm_insert B m k v = Inl err"
    and remove_key: "k \<in> dom (hm_get B m) \<Longrightarrow>
      \<exists>m'. hm_remove B m k = Inr m' \<and> hm_get B m' = (hm_get B m)(k := None)"
    and remove_missing: "k \<notin> dom (hm_get B m) \<Longrightarrow> \<exists>err. hm_remove B m k = Inl err"
    and keys_all: "\<exists>ks. hm_keys B m = map Inr ks \<and> iter_order (hm_get B m) ks"
    and flag_set: "\<exists>a'. ar_set B a 0 w = Inr a' \<and> ar_get B a' 0 = Some w"
    and flag_get: "\<exists>w. ar_get B a 0 = Some w"
begin

lemma insert_Inr: "hm_insert B m k v = Inr m' \<Longrightarrow> hm_get B m' = (hm_get B m)(k \<mapsto> v)"
  using insert_room [of k m v] insert_full [of k m v] by fastforce

lemma insert_Inl:
  "hm_insert B m k v = Inl err \<Longrightarrow> k \<notin> dom (hm_get B m) \<and> cap \<le> card (dom (hm_get B m))"
  using insert_room [of k m v] by fastforce

lemma insert_card:
  assumes "hm_insert B m k v = Inr m'" "card (dom (hm_get B m)) \<le> cap"
  shows "card (dom (hm_get B m')) \<le> cap"
proof (cases "k \<in> dom (hm_get B m)")
  case True
  then have "dom (hm_get B m') = dom (hm_get B m)" using insert_Inr [OF assms(1)] by auto
  with assms(2) show ?thesis by simp
next
  case False
  then have "card (dom (hm_get B m)) < cap"
    using insert_full [of k m v] assms(1) by fastforce
  then show ?thesis using False insert_Inr [OF assms(1)] finite_get [of m] by simp
qed

lemma remove_Inr: "hm_remove B m k = Inr m' \<Longrightarrow> hm_get B m' = (hm_get B m)(k := None)"
  using remove_key [of k m] remove_missing [of k m] by fastforce

lemma remove_Inl: "hm_remove B m k = Inl err \<Longrightarrow> hm_get B m k = None"
  using remove_key [of k m] by (cases "hm_get B m k") fastforce+

end

section \<open>The maps as the program declares them\<close>

type_synonym kmap = "(PacketKey, u8) alist"

definition kmap_insert :: "kmap \<Rightarrow> PacketKey \<Rightarrow> u8 \<Rightarrow> string + kmap" where
  "kmap_insert m k v =
     (if DAList.lookup m k = None \<and> VERDICT_MAP_ENTRIES \<le> length (DAList.impl_of m)
      then Inl ''E2BIG'' else Inr (DAList.update k v m))"

definition kmap_remove :: "kmap \<Rightarrow> PacketKey \<Rightarrow> string + kmap" where
  "kmap_remove m k =
     (if DAList.lookup m k = None then Inl ''ENOENT'' else Inr (DAList.delete k m))"

definition flags_get :: "u32 \<Rightarrow> nat \<Rightarrow> u32 option" where
  "flags_get a i = (if i < POLICY_FLAGS_ENTRIES then Some a else None)"

definition flags_set :: "u32 \<Rightarrow> nat \<Rightarrow> u32 \<Rightarrow> string + u32" where
  "flags_set a i v = (if i < POLICY_FLAGS_ENTRIES then Inr v else Inl ''OutOfBounds'')"

definition kmaps :: "(kmap, u32) bpf_ops" where
  "kmaps = \<lparr>hm_get = DAList.lookup, hm_insert = kmap_insert, hm_remove = kmap_remove,
            hm_keys = (\<lambda>m. map (Inr \<circ> fst) (DAList.impl_of m)),
            ar_get = flags_get, ar_set = flags_set\<rparr>"

lemma dom_lookup_impl: "dom (DAList.lookup m) = fst ` set (DAList.impl_of m)"
  by transfer (simp add: dom_map_of_conv_image_fst)

lemma card_dom_lookup: "card (dom (DAList.lookup m)) = length (DAList.impl_of m)"
proof -
  have "distinct (map fst (DAList.impl_of m))" by transfer simp
  then have "card (set (map fst (DAList.impl_of m))) = length (DAList.impl_of m)"
    by (simp only: distinct_card length_map)
  then show ?thesis by (simp add: dom_lookup_impl)
qed

lemma lookup_delete_fun: "DAList.lookup (DAList.delete k m) = (DAList.lookup m)(k := None)"
  by transfer (simp add: delete_conv')

lemma lookup_update_fun: "DAList.lookup (DAList.update k v m) = (DAList.lookup m)(k \<mapsto> v)"
  by transfer (simp add: update_conv')

lemma iter_order_impl: "iter_order (DAList.lookup m) (map fst (DAList.impl_of m))"
  unfolding iter_order_def dom_lookup_impl by (transfer, simp)

interpretation km: bpf_maps kmaps VERDICT_MAP_ENTRIES
proof
  fix m :: kmap and k :: PacketKey and v :: u8 and a :: u32 and w :: u32
  show "finite (dom (hm_get kmaps m))"
    by (simp add: kmaps_def dom_lookup_impl)
  show "k \<in> dom (hm_get kmaps m) \<or> card (dom (hm_get kmaps m)) < VERDICT_MAP_ENTRIES \<Longrightarrow>
      \<exists>m'. hm_insert kmaps m k v = Inr m' \<and> hm_get kmaps m' = (hm_get kmaps m)(k \<mapsto> v)"
    by (auto simp: kmaps_def kmap_insert_def card_dom_lookup lookup_update_fun)
  show "k \<notin> dom (hm_get kmaps m) \<Longrightarrow> VERDICT_MAP_ENTRIES \<le> card (dom (hm_get kmaps m)) \<Longrightarrow>
      \<exists>err. hm_insert kmaps m k v = Inl err"
    by (auto simp: kmaps_def kmap_insert_def card_dom_lookup domIff)
  show "k \<in> dom (hm_get kmaps m) \<Longrightarrow>
      \<exists>m'. hm_remove kmaps m k = Inr m' \<and> hm_get kmaps m' = (hm_get kmaps m)(k := None)"
    by (auto simp: kmaps_def kmap_remove_def lookup_delete_fun)
  show "k \<notin> dom (hm_get kmaps m) \<Longrightarrow> \<exists>err. hm_remove kmaps m k = Inl err"
    by (auto simp: kmaps_def kmap_remove_def domIff)
  show "\<exists>ks. hm_keys kmaps m = map Inr ks \<and> iter_order (hm_get kmaps m) ks"
    using iter_order_impl [of m]
    by (intro exI [of _ "map fst (DAList.impl_of m)"]) (simp add: kmaps_def)
  show "\<exists>a'. ar_set kmaps a 0 w = Inr a' \<and> ar_get kmaps a' 0 = Some w"
    by (simp add: kmaps_def flags_set_def flags_get_def POLICY_FLAGS_ENTRIES_def)
  show "\<exists>w. ar_get kmaps a 0 = Some w"
    by (simp add: kmaps_def flags_get_def POLICY_FLAGS_ENTRIES_def)
qed

lemma kmaps_sel [simp]:
  "hm_get kmaps = DAList.lookup"
  "hm_insert kmaps = kmap_insert"
  "ar_get kmaps = flags_get"
  by (simp_all add: kmaps_def)

section \<open>Properties\<close>


end
