(* ===== verification/Ebpf_Egress.thy ===== *)
theory Ebpf_Egress
  imports Bpf_Maps
begin

unbundle bit_operations_syntax

text \<open>
  The TC classifier of \<open>kprobe/kprobe-ebpf/src/main.rs\<close>: parsing of an outgoing frame, the
  verdict from \<open>VERDICT_MAP\<close> and \<open>POLICY_FLAGS\<close>, the restriction of a denial to new TCP
  connections, and the log record. Reading from the socket buffer (\<open>ctx.load\<close>) and the map
  lookups are parameters: \<open>load off n\<close> are \<open>n\<close> bytes at \<open>off\<close>. The locale \<open>skb_reader\<close>
  states what \<open>bpf_skb_load_bytes\<close> promises; under it the program refines a decision on the
  decoded packet.
\<close>

section \<open>Constants\<close>

definition TC_ACT_OK :: u32 where "TC_ACT_OK = 0"
definition TC_ACT_SHOT :: u32 where "TC_ACT_SHOT = 2"

definition POD_CIDR_NET :: "endian \<Rightarrow> u32" where
  "POD_CIDR_NET e = to_be32 e 0x0AF40000"

definition POD_CIDR_MASK :: "endian \<Rightarrow> u32" where
  "POD_CIDR_MASK e = to_be32 e 0xFFFF0000"

lemma TC_ACT_distinct [simp]: "TC_ACT_OK \<noteq> TC_ACT_SHOT" "TC_ACT_SHOT \<noteq> TC_ACT_OK"
  by (simp_all add: TC_ACT_OK_def TC_ACT_SHOT_def)

section \<open>The program\<close>

type_synonym load_fn = "nat \<Rightarrow> nat \<Rightarrow> u8 list option"

definition load_u8 :: "load_fn \<Rightarrow> nat \<Rightarrow> u8 option" where
  "load_u8 load off = map_option hd (load off 1)"

definition load_u16 :: "endian \<Rightarrow> load_fn \<Rightarrow> nat \<Rightarrow> u16 option" where
  "load_u16 e load off = map_option (of_ne16 e) (load off 2)"

definition load_u32 :: "endian \<Rightarrow> load_fn \<Rightarrow> nat \<Rightarrow> u32 option" where
  "load_u32 e load off = map_option (of_ne32 e) (load off 4)"

text \<open>Step 5: the verdict of a pair of pod addresses; everything else is allowed.\<close>

definition map_verdict ::
  "endian \<Rightarrow> (PacketKey \<Rightarrow> u8 option) \<Rightarrow> (nat \<Rightarrow> u32 option) \<Rightarrow> u32 \<Rightarrow> u32 \<Rightarrow> u8" where
  "map_verdict e vget fget src_ip dst_ip =
     (if src_ip AND POD_CIDR_MASK e = POD_CIDR_NET e
         \<and> dst_ip AND POD_CIDR_MASK e = POD_CIDR_NET e
      then (case vget \<lparr>pk_src_ip = src_ip, pk_dst_ip = dst_ip\<rparr> of
              Some v \<Rightarrow> v
            | None \<Rightarrow> (case fget 0 of Some flag \<Rightarrow> (if flag = 0 then 1 else 0) | None \<Rightarrow> 0))
      else 0)"

text \<open>Step 5b: a TCP packet is denied only when it has SYN set and ACK clear.\<close>

definition syn_guard :: "load_fn \<Rightarrow> u8 \<Rightarrow> u8 \<Rightarrow> u8" where
  "syn_guard load proto verdict =
     (if proto = 6 \<and> verdict = 1
      then (case load_u8 load 47 of
              Some tcp_flags \<Rightarrow> (if tcp_flags AND 0x12 = 0x02 then 1 else 0)
            | None \<Rightarrow> 0)
      else verdict)"

text \<open>
  \<open>Inl ()\<close> is \<open>Err(())\<close>, the outcome of a failed read; the list holds the records handed to
  \<open>PACKET_EVENTS.output\<close>.
\<close>

definition try_intercept ::
  "endian \<Rightarrow> load_fn \<Rightarrow> (PacketKey \<Rightarrow> u8 option) \<Rightarrow> (nat \<Rightarrow> u32 option) \<Rightarrow>
   (unit + u32) \<times> PacketLog list" where
  "try_intercept e load vget fget =
     (case load_u16 e load 12 of None \<Rightarrow> (Inl (), []) | Some ethertype \<Rightarrow>
      if ethertype \<noteq> to_be16 e 0x0800 then (Inr TC_ACT_OK, []) else
      (case load_u8 load 23 of None \<Rightarrow> (Inl (), []) | Some proto \<Rightarrow>
       if proto \<noteq> 6 \<and> proto \<noteq> 17 then (Inr TC_ACT_OK, []) else
       (case load_u32 e load 26 of None \<Rightarrow> (Inl (), []) | Some src_ip \<Rightarrow>
        (case load_u32 e load 30 of None \<Rightarrow> (Inl (), []) | Some dst_ip \<Rightarrow>
         (case load_u16 e load 34 of None \<Rightarrow> (Inl (), []) | Some src_port_be \<Rightarrow>
          (case load_u16 e load 36 of None \<Rightarrow> (Inl (), []) | Some dst_port_be \<Rightarrow>
           (let verdict = syn_guard load proto (map_verdict e vget fget src_ip dst_ip);
                action = (if verdict = 1 then TC_ACT_SHOT else TC_ACT_OK)
            in (Inr action,
                [\<lparr>pl_src_ip = src_ip, pl_dst_ip = dst_ip,
                  pl_src_port = from_be16 e src_port_be, pl_dst_port = from_be16 e dst_port_be,
                  pl_proto = proto, pl_verdict = verdict\<rparr>]))))))))"

definition kprobe_egress ::
  "endian \<Rightarrow> load_fn \<Rightarrow> (PacketKey \<Rightarrow> u8 option) \<Rightarrow> (nat \<Rightarrow> u32 option) \<Rightarrow>
   u32 \<times> PacketLog list" where
  "kprobe_egress e load vget fget =
     (case try_intercept e load vget fget of
        (Inr action, logs) \<Rightarrow> (action, logs)
      | (Inl _, logs) \<Rightarrow> (TC_ACT_OK, logs))"

section \<open>Reading a frame\<close>

locale skb_reader =
  fixes load :: load_fn
    and frame :: "u8 list"
  assumes load_in: "off + n \<le> length frame \<Longrightarrow> load off n = Some (take n (drop off frame))"
    and load_out: "length frame < off + n \<Longrightarrow> load off n = None"
begin

lemma load_eq:
  "load off n = (if off + n \<le> length frame then Some (take n (drop off frame)) else None)"
  using load_in [of off n] load_out [of off n] by (cases "off + n \<le> length frame") auto

lemma load_u8_eq: "load_u8 load off = (if off < length frame then Some (frame ! off) else None)"
  by (simp add: load_u8_def load_eq hd_drop_conv_nth hd_take Suc_le_eq)

lemma load_u16_eq: "load_u16 e load off =
  (if off + 2 \<le> length frame then Some (to_be16 e (of_be16 (take 2 (drop off frame)))) else None)"
  by (simp add: load_u16_def load_eq of_ne16_network)

lemma load_u32_eq: "load_u32 e load off =
  (if off + 4 \<le> length frame then Some (to_be32 e (of_be32 (take 4 (drop off frame)))) else None)"
  by (simp add: load_u32_def load_eq of_ne32_network)

end

definition skb_load :: "u8 list \<Rightarrow> load_fn" where
  "skb_load frame off n =
     (if off + n \<le> length frame then Some (take n (drop off frame)) else None)"

interpretation skb: skb_reader "skb_load frame" frame for frame
  by unfold_locales (simp_all add: skb_load_def)

section \<open>Specification: the decision on a decoded packet\<close>

text \<open>
  What the program looks at in a frame: an IPv4 packet without options that carries TCP or
  UDP, long enough to hold the two ports.
\<close>

record packet =
  p_proto :: u8
  p_src :: Ipv4Addr
  p_dst :: Ipv4Addr
  p_sport :: u16
  p_dport :: u16
  p_flags :: "u8 option"

definition decode_frame :: "u8 list \<Rightarrow> packet option" where
  "decode_frame f =
     (if 38 \<le> length f \<and> take 2 (drop 12 f) = [0x08, 0x00] \<and> (f ! 23 = 6 \<or> f ! 23 = 17)
      then Some \<lparr>p_proto = f ! 23,
                 p_src = ipv4_from (of_be32 (take 4 (drop 26 f))),
                 p_dst = ipv4_from (of_be32 (take 4 (drop 30 f))),
                 p_sport = of_be16 (take 2 (drop 34 f)),
                 p_dport = of_be16 (take 2 (drop 36 f)),
                 p_flags = (if 47 < length f then Some (f ! 47) else None)\<rparr>
      else None)"

definition in_pod_cidr :: "Ipv4Addr \<Rightarrow> bool" where
  "in_pod_cidr ip = (case ip of Ipv4Addr a b c d \<Rightarrow> a = 10 \<and> b = 244)"

text \<open>The key under which user space stores the verdict of a pair of addresses.\<close>

definition ip_key :: "endian \<Rightarrow> Ipv4Addr \<Rightarrow> Ipv4Addr \<Rightarrow> PacketKey" where
  "ip_key e s d = \<lparr>pk_src_ip = to_be32 e (u32_from s), pk_dst_ip = to_be32 e (u32_from d)\<rparr>"

lemma ip_key_inject [simp]: "ip_key e s d = ip_key e s' d' \<longleftrightarrow> s = s' \<and> d = d'"
  by (simp add: ip_key_def)

definition pair_verdict ::
  "endian \<Rightarrow> (PacketKey \<Rightarrow> u8 option) \<Rightarrow> (nat \<Rightarrow> u32 option) \<Rightarrow> Ipv4Addr \<Rightarrow> Ipv4Addr \<Rightarrow> u8" where
  "pair_verdict e vget fget s d =
     (if in_pod_cidr s \<and> in_pod_cidr d
      then (case vget (ip_key e s d) of Some v \<Rightarrow> v | None \<Rightarrow> (if fget 0 = Some 0 then 1 else 0))
      else 0)"

text \<open>SYN set and ACK clear: the first packet of a connection.\<close>

definition opens_connection :: "packet \<Rightarrow> bool" where
  "opens_connection p \<longleftrightarrow> (\<exists>fl. p_flags p = Some fl \<and> fl AND 0x12 = 0x02)"

definition packet_verdict ::
  "endian \<Rightarrow> (PacketKey \<Rightarrow> u8 option) \<Rightarrow> (nat \<Rightarrow> u32 option) \<Rightarrow> packet \<Rightarrow> u8" where
  "packet_verdict e vget fget p =
     (let v = pair_verdict e vget fget (p_src p) (p_dst p) in
      if p_proto p = 6 \<and> v = 1 \<and> \<not> opens_connection p then 0 else v)"

definition packet_log ::
  "endian \<Rightarrow> (PacketKey \<Rightarrow> u8 option) \<Rightarrow> (nat \<Rightarrow> u32 option) \<Rightarrow> packet \<Rightarrow> PacketLog" where
  "packet_log e vget fget p =
     \<lparr>pl_src_ip = to_be32 e (u32_from (p_src p)), pl_dst_ip = to_be32 e (u32_from (p_dst p)),
      pl_src_port = p_sport p, pl_dst_port = p_dport p, pl_proto = p_proto p,
      pl_verdict = packet_verdict e vget fget p\<rparr>"

definition egress_spec ::
  "endian \<Rightarrow> (PacketKey \<Rightarrow> u8 option) \<Rightarrow> (nat \<Rightarrow> u32 option) \<Rightarrow> u8 list \<Rightarrow> u32 \<times> PacketLog list" where
  "egress_spec e vget fget frame =
     (case decode_frame frame of
        None \<Rightarrow> (TC_ACT_OK, [])
      | Some p \<Rightarrow> (if packet_verdict e vget fget p = 1 then TC_ACT_SHOT else TC_ACT_OK,
                   [packet_log e vget fget p]))"

section \<open>The pod address test\<close>

lemma pod_cidr_words:
  "(0x0AF40000 :: u32) = of_be32 [10, 244, 0, 0]" "(0xFFFF0000 :: u32) = of_be32 [255, 255, 0, 0]"
  by (simp_all add: of_be32.simps)

lemma and_255 [simp]: "x AND 255 = (x :: u8)"
proof -
  have "(255 :: u8) = - 1" by simp
  then show ?thesis by (simp only: and.right_neutral)
qed

lemma of_be32_inject [simp]: "of_be32 [a, b, c, d] = of_be32 [a', b', c', d'] \<longleftrightarrow>
  a = a' \<and> b = b' \<and> c = c' \<and> d = d'"
  by (metis be_bytes32_of_be32 list.inject)

lemma pod_cidr_test:
  "to_be32 e (u32_from ip) AND POD_CIDR_MASK e = POD_CIDR_NET e \<longleftrightarrow> in_pod_cidr ip"
proof (cases ip)
  case (Ipv4Addr a b c d)
  have "to_be32 e (u32_from ip) AND POD_CIDR_MASK e = POD_CIDR_NET e \<longleftrightarrow>
      u32_from ip AND 0xFFFF0000 = 0x0AF40000"
    by (simp only: POD_CIDR_MASK_def POD_CIDR_NET_def to_be32_and [symmetric] to_be32_inject)
  also have "\<dots> \<longleftrightarrow> in_pod_cidr ip"
    by (simp add: Ipv4Addr u32_from_def in_pod_cidr_def pod_cidr_words of_be32_and
        del: of_be32.simps)
  finally show ?thesis .
qed

section \<open>The program meets the specification\<close>

lemma map_verdict_pair:
  "map_verdict e vget fget (to_be32 e (u32_from s)) (to_be32 e (u32_from d)) = pair_verdict e vget fget s d"
  by (auto simp: map_verdict_def pair_verdict_def pod_cidr_test ip_key_def split: option.splits)

lemma ethertype_test:
  assumes "length bs = 2"
  shows "of_be16 bs = 0x0800 \<longleftrightarrow> bs = [0x08, 0x00]"
proof -
  have "(0x0800 :: u16) = of_be16 [0x08, 0x00]" by (simp add: of_be16.simps)
  moreover have "of_be16 bs = of_be16 [0x08, 0x00] \<longleftrightarrow> bs = [0x08, 0x00]"
    using assms by (metis be_bytes16_of_be16 be_bytes16_of_be16_length)
  ultimately show ?thesis by simp
qed

lemma to_be32_of_be32_ip:
  "to_be32 e (of_be32 bs) = to_be32 e (u32_from (ipv4_from (of_be32 bs)))"
  by simp

context skb_reader
begin

lemma syn_guard_opens:
  assumes "p_flags p = (if 47 < length frame then Some (frame ! 47) else None)"
  shows "syn_guard load (p_proto p) v = (if p_proto p = 6 \<and> v = 1 \<and> \<not> opens_connection p then 0 else v)"
  using assms by (auto simp: syn_guard_def load_u8_eq opens_connection_def)

lemma kprobe_egress_short:
  "decode_frame frame = None \<Longrightarrow> kprobe_egress e load vget fget = (TC_ACT_OK, [])"
  by (auto simp: kprobe_egress_def try_intercept_def decode_frame_def load_u16_eq load_u8_eq
      load_u32_eq ethertype_test split: if_splits)

lemma kprobe_egress_packet:
  assumes "decode_frame frame = Some p"
  shows "kprobe_egress e load vget fget =
    (if packet_verdict e vget fget p = 1 then TC_ACT_SHOT else TC_ACT_OK, [packet_log e vget fget p])"
proof -
  have len: "38 \<le> length frame" and ety: "take 2 (drop 12 frame) = [0x08, 0x00]"
    and proto: "frame ! 23 = 6 \<or> frame ! 23 = 17"
    and p: "p = \<lparr>p_proto = frame ! 23, p_src = ipv4_from (of_be32 (take 4 (drop 26 frame))),
       p_dst = ipv4_from (of_be32 (take 4 (drop 30 frame))),
       p_sport = of_be16 (take 2 (drop 34 frame)), p_dport = of_be16 (take 2 (drop 36 frame)),
       p_flags = (if 47 < length frame then Some (frame ! 47) else None)\<rparr>"
    using assms by (auto simp: decode_frame_def split: if_splits)
  have verdict: "syn_guard load (frame ! 23) (map_verdict e vget fget
      (to_be32 e (of_be32 (take 4 (drop 26 frame)))) (to_be32 e (of_be32 (take 4 (drop 30 frame)))))
    = packet_verdict e vget fget p"
    using map_verdict_pair [of e vget fget "p_src p" "p_dst p"] syn_guard_opens [of p]
    by (simp add: p packet_verdict_def Let_def)
  have "of_be16 (take 2 (drop 12 frame)) = 0x0800"
    using ety len by (subst ethertype_test) simp_all
  then show ?thesis
    using len proto verdict
    by (auto simp: kprobe_egress_def try_intercept_def load_u16_eq load_u8_eq load_u32_eq Let_def
        packet_log_def p)
qed

lemma kprobe_egress_meets_spec: "kprobe_egress e load vget fget = egress_spec e vget fget frame"
  by (cases "decode_frame frame")
    (simp_all add: egress_spec_def kprobe_egress_short kprobe_egress_packet)

end

lemma decode_frame_proto: "decode_frame f = Some p \<Longrightarrow> p_proto p = 6 \<or> p_proto p = 17"
  by (auto simp: decode_frame_def split: if_splits)

lemma packet_verdict_1:
  "packet_verdict e vget fget p = 1 \<longleftrightarrow>
     pair_verdict e vget fget (p_src p) (p_dst p) = 1 \<and> (p_proto p = 6 \<longrightarrow> opens_connection p)"
  by (auto simp: packet_verdict_def Let_def)

lemma egress_spec_shot:
  "fst (egress_spec e vget fget frame) = TC_ACT_SHOT \<longleftrightarrow>
     (\<exists>p. decode_frame frame = Some p \<and> packet_verdict e vget fget p = 1)"
  by (auto simp: egress_spec_def split: option.splits)

section \<open>Concrete frames\<close>

text \<open>A TCP frame with the given addresses and flags: Ethernet, 20 bytes of IPv4, TCP.\<close>

definition tcp_frame :: "Ipv4Addr \<Rightarrow> Ipv4Addr \<Rightarrow> u8 \<Rightarrow> u8 list" where
  "tcp_frame s d fl =
     [0, 0, 0, 0, 0, 0, 0, 0, 0, 0, 0, 0, 0x08, 0x00,
      0x45, 0, 0, 40, 0, 0, 0, 0, 64, 6, 0, 0] @ octets s @ octets d @
     [0xC0, 0x00, 0x1F, 0x90, 0, 0, 0, 0, 0, 0, 0, 0, 0x50, fl, 0, 0, 0, 0, 0, 0]"

definition tcp_packet :: "Ipv4Addr \<Rightarrow> Ipv4Addr \<Rightarrow> u8 \<Rightarrow> packet" where
  "tcp_packet s d fl = \<lparr>p_proto = 6, p_src = s, p_dst = d, p_sport = 0xC000, p_dport = 0x1F90,
                        p_flags = Some fl\<rparr>"

lemma ipv4_from_of_be32 [simp]: "ipv4_from (of_be32 [a, b, c, d]) = Ipv4Addr a b c d"
  by (simp add: ipv4_from_def)

lemma decode_tcp_frame: "decode_frame (tcp_frame s d fl) = Some (tcp_packet s d fl)"
proof (cases s; cases d)
  fix a b c x a' b' c' x'
  assume "s = Ipv4Addr a b c x" "d = Ipv4Addr a' b' c' x'"
  then show ?thesis
    by (simp add: decode_frame_def tcp_frame_def tcp_packet_def of_be16.simps)
qed

lemma ex_cidr: "in_pod_cidr (Ipv4Addr 10 244 1 5)" "in_pod_cidr (Ipv4Addr 10 244 2 7)"
  by (simp_all add: in_pod_cidr_def)

lemma syn_opens: "opens_connection (tcp_packet s d 0x02)"
  by (simp add: opens_connection_def tcp_packet_def)

lemma tcp_packet_sel [simp]:
  "p_src (tcp_packet s d fl) = s" "p_dst (tcp_packet s d fl) = d" "p_proto (tcp_packet s d fl) = 6"
  by (simp_all add: tcp_packet_def)

lemma ack_not_opens: "\<not> opens_connection (tcp_packet s d 0x10)"
  by (simp add: opens_connection_def tcp_packet_def)

section \<open>Properties\<close>

text \<open>
  C9. The classifier, which reads raw bytes at fixed offsets in the byte order of the machine,
  computes for every frame the action and the log record that the specification gives for the
  decoded packet.
\<close>

theorem kprobe_egress_refines_spec:
  assumes "skb_reader load frame"
  shows "kprobe_egress e load vget fget = egress_spec e vget fget frame"
  by (rule skb_reader.kprobe_egress_meets_spec [OF assms])

theorem kprobe_egress_refines_spec_witness:
  "kprobe_egress Little (skb_load (tcp_frame (Ipv4Addr 10 244 1 5) (Ipv4Addr 8 8 8 8) 0x02)) (\<lambda>k. Some 1) (\<lambda>i. Some 0) =
     (TC_ACT_OK, [\<lparr>pl_src_ip = to_be32 Little (u32_from (Ipv4Addr 10 244 1 5)),
        pl_dst_ip = to_be32 Little (u32_from (Ipv4Addr 8 8 8 8)),
        pl_src_port = 0xC000, pl_dst_port = 0x1F90, pl_proto = 6, pl_verdict = 0\<rparr>])"
  by (subst kprobe_egress_refines_spec [OF skb.skb_reader_axioms])
    (simp add: egress_spec_def decode_tcp_frame packet_verdict_def pair_verdict_def in_pod_cidr_def
      packet_log_def tcp_packet_def)

text \<open>
  C14. When a frame is dropped: it holds an IPv4 packet that carries TCP or UDP, both of its
  addresses are pod addresses, the verdict map says deny or is silent with the default set to
  deny, and a TCP packet opens a connection. Every other frame passes; in particular packets of
  an established connection and packets that leave the pod network are never dropped.
\<close>

theorem kprobe_egress_drops_iff:
  assumes "skb_reader load frame"
  shows "fst (kprobe_egress e load vget fget) = TC_ACT_SHOT \<longleftrightarrow>
    (\<exists>p. decode_frame frame = Some p \<and> in_pod_cidr (p_src p) \<and> in_pod_cidr (p_dst p)
       \<and> (vget (ip_key e (p_src p) (p_dst p)) = Some 1
          \<or> vget (ip_key e (p_src p) (p_dst p)) = None \<and> fget 0 = Some 0)
       \<and> (p_proto p = 17 \<or> p_proto p = 6 \<and> opens_connection p))"
proof -
  have "pair_verdict e vget fget s d = 1 \<longleftrightarrow> in_pod_cidr s \<and> in_pod_cidr d \<and>
      (vget (ip_key e s d) = Some 1 \<or> vget (ip_key e s d) = None \<and> fget 0 = Some 0)" for s d
    by (auto simp: pair_verdict_def split: option.splits)
  moreover have "decode_frame frame = Some p \<Longrightarrow> (p_proto p = 6 \<longrightarrow> opens_connection p) \<longleftrightarrow>
      p_proto p = 17 \<or> p_proto p = 6 \<and> opens_connection p" for p
    using decode_frame_proto [of frame p] by auto
  ultimately show ?thesis
    by (auto simp: skb_reader.kprobe_egress_meets_spec [OF assms] egress_spec_shot packet_verdict_1)
qed

theorem kprobe_egress_drops_iff_witness:
  "fst (kprobe_egress Little (skb_load (tcp_frame (Ipv4Addr 10 244 1 5) (Ipv4Addr 10 244 2 7) 0x02))
     (\<lambda>k. None) (\<lambda>i. Some 0)) = TC_ACT_SHOT \<and>
   fst (kprobe_egress Little (skb_load (tcp_frame (Ipv4Addr 10 244 1 5) (Ipv4Addr 10 244 2 7) 0x10))
     (\<lambda>k. Some 1) (\<lambda>i. Some 0)) \<noteq> TC_ACT_SHOT"
  using kprobe_egress_drops_iff [OF skb.skb_reader_axioms,
      where frame = "tcp_frame (Ipv4Addr 10 244 1 5) (Ipv4Addr 10 244 2 7) 0x02"
        and e = Little and vget = "\<lambda>k. None" and fget = "\<lambda>i. Some 0"]
    kprobe_egress_drops_iff [OF skb.skb_reader_axioms,
      where frame = "tcp_frame (Ipv4Addr 10 244 1 5) (Ipv4Addr 10 244 2 7) 0x10"
        and e = Little and vget = "\<lambda>k. Some 1" and fget = "\<lambda>i. Some 0"]
  by (simp add: decode_tcp_frame ex_cidr syn_opens ack_not_opens)

text \<open>
  Every TCP or UDP packet is reported exactly once, dropped or not, with its addresses,
  ports and protocol, and the reported verdict is 1 exactly when the packet is dropped; a frame
  that is not such a packet is not reported.
\<close>

theorem kprobe_egress_reports:
  assumes "skb_reader load frame"
  shows "case decode_frame frame of
      None \<Rightarrow> snd (kprobe_egress e load vget fget) = []
    | Some p \<Rightarrow> (\<exists>l. snd (kprobe_egress e load vget fget) = [l]
        \<and> ipv4_from (from_be32 e (pl_src_ip l)) = p_src p \<and> ipv4_from (from_be32 e (pl_dst_ip l)) = p_dst p
        \<and> pl_src_port l = p_sport p \<and> pl_dst_port l = p_dport p \<and> pl_proto l = p_proto p
        \<and> (pl_verdict l = 1 \<longleftrightarrow> fst (kprobe_egress e load vget fget) = TC_ACT_SHOT))"
  by (auto simp: skb_reader.kprobe_egress_meets_spec [OF assms] egress_spec_def packet_log_def
      split: option.splits)

theorem kprobe_egress_reports_witness:
  "\<exists>l. snd (kprobe_egress Big (skb_load (tcp_frame (Ipv4Addr 10 244 1 5) (Ipv4Addr 10 244 2 7) 0x02))
     (\<lambda>k. Some 1) (\<lambda>i. Some 0)) = [l] \<and> ipv4_from (from_be32 Big (pl_src_ip l)) = Ipv4Addr 10 244 1 5"
  using kprobe_egress_reports [OF skb.skb_reader_axioms,
      where frame = "tcp_frame (Ipv4Addr 10 244 1 5) (Ipv4Addr 10 244 2 7) 0x02"
        and e = Big and vget = "\<lambda>k. Some 1" and fget = "\<lambda>i. Some 0"]
  by (auto simp: decode_tcp_frame)

end
