(* ===== verification/Verdict_Sync.thy ===== *)
theory Verdict_Sync
  imports Policy_Cache Pod_Watcher Ebpf_Egress
begin

unbundle bit_operations_syntax

text \<open>
  \<open>kprobe/kprobe-userspace/src/verdict_sync.rs\<close>: the reconciliation of the policy and the pod
  snapshot into the kernel maps. \<open>sync\<close> writes the flag, removes every key it finds and
  inserts a verdict for every ordered pair of addresses of two different services. The map
  operations are the parameter \<open>B\<close> (\<open>Bpf_Maps\<close>); the order in which the snapshot's keys are
  visited is the argument \<open>svc_names\<close>.
\<close>

record ('m, 'a) VerdictSync =
  verdict_map :: 'm
  policy_flags :: 'a

definition vs_new :: "'m \<Rightarrow> 'a \<Rightarrow> ('m, 'a) VerdictSync" where
  "vs_new vmap flags = \<lparr>verdict_map = vmap, policy_flags = flags\<rparr>"

lemma vs_new_sel [simp]: "verdict_map (vs_new m a) = m" "policy_flags (vs_new m a) = a"
  by (simp_all add: vs_new_def)

section \<open>The operation\<close>

text \<open>Step 1: the flag. A failed write is logged and otherwise ignored.\<close>

definition write_flag :: "('m, 'a) bpf_ops \<Rightarrow> bool \<Rightarrow> 'a \<Rightarrow> 'a" where
  "write_flag B d a = (case ar_set B a 0 (if d then 1 else 0) of Inl err \<Rightarrow> a | Inr a' \<Rightarrow> a')"

text \<open>Step 2: the keys that could be read are removed one by one.\<close>

fun remove_keys :: "('m, 'a) bpf_ops \<Rightarrow> PacketKey list \<Rightarrow> 'm \<Rightarrow> 'm" where
  "remove_keys B [] m = m"
| "remove_keys B (k # ks) m =
     remove_keys B ks (case hm_remove B m k of Inl err \<Rightarrow> m | Inr m' \<Rightarrow> m')"

definition clear_map :: "('m, 'a) bpf_ops \<Rightarrow> 'm \<Rightarrow> 'm" where
  "clear_map B m = remove_keys B (oks (hm_keys B m)) m"

text \<open>
  Step 3: the loops over the addresses. The pair is the map and the number of entries written;
  a failed insert is logged and skipped.
\<close>

definition insert_entry ::
  "('m, 'a) bpf_ops \<Rightarrow> 'm \<times> nat \<Rightarrow> PacketKey \<times> u8 \<Rightarrow> 'm \<times> nat" where
  "insert_entry B mc kv =
     (case hm_insert B (fst mc) (fst kv) (snd kv) of Inl err \<Rightarrow> mc | Inr m' \<Rightarrow> (m', Suc (snd mc)))"

fun insert_dsts ::
  "endian \<Rightarrow> ('m, 'a) bpf_ops \<Rightarrow> u8 \<Rightarrow> Ipv4Addr \<Rightarrow> Ipv4Addr list \<Rightarrow> 'm \<times> nat \<Rightarrow> 'm \<times> nat" where
  "insert_dsts e B verdict src [] mc = mc"
| "insert_dsts e B verdict src (dst # dsts) mc =
     insert_dsts e B verdict src dsts
       (insert_entry B mc
         (\<lparr>pk_src_ip = to_be32 e (u32_from src), pk_dst_ip = to_be32 e (u32_from dst)\<rparr>, verdict))"

fun insert_srcs ::
  "endian \<Rightarrow> ('m, 'a) bpf_ops \<Rightarrow> u8 \<Rightarrow> Ipv4Addr list \<Rightarrow> Ipv4Addr list \<Rightarrow> 'm \<times> nat \<Rightarrow> 'm \<times> nat" where
  "insert_srcs e B verdict [] dsts mc = mc"
| "insert_srcs e B verdict (src # srcs) dsts mc =
     insert_srcs e B verdict srcs dsts (insert_dsts e B verdict src dsts mc)"

text \<open>The loops over the services; indexing the snapshot with a missing key panics (\<open>None\<close>).\<close>

fun sync_to ::
  "endian \<Rightarrow> ('m, 'a) bpf_ops \<Rightarrow> PolicyCache \<Rightarrow> PodSnapshot \<Rightarrow> string \<Rightarrow> string list \<Rightarrow>
   'm \<times> nat \<Rightarrow> ('m \<times> nat) option" where
  "sync_to e B policy pods from_svc [] mc = Some mc"
| "sync_to e B policy pods from_svc (to_svc # tos) mc =
     (if from_svc = to_svc then sync_to e B policy pods from_svc tos mc
      else
        (let verdict = (if is_allowed policy from_svc to_svc then 0 else 1) in
         case pods from_svc of None \<Rightarrow> None | Some from_ips \<Rightarrow>
         (case pods to_svc of None \<Rightarrow> None | Some to_ips \<Rightarrow>
          sync_to e B policy pods from_svc tos (insert_srcs e B verdict from_ips to_ips mc))))"

fun sync_from ::
  "endian \<Rightarrow> ('m, 'a) bpf_ops \<Rightarrow> PolicyCache \<Rightarrow> PodSnapshot \<Rightarrow> string list \<Rightarrow> string list \<Rightarrow>
   'm \<times> nat \<Rightarrow> ('m \<times> nat) option" where
  "sync_from e B policy pods svc_names [] mc = Some mc"
| "sync_from e B policy pods svc_names (from_svc # froms) mc =
     (case sync_to e B policy pods from_svc svc_names mc of
        None \<Rightarrow> None
      | Some mc' \<Rightarrow> sync_from e B policy pods svc_names froms mc')"

text \<open>The new state and the number of entries written, \<open>None\<close> for a panic.\<close>

definition sync ::
  "endian \<Rightarrow> ('m, 'a) bpf_ops \<Rightarrow> PolicyCache \<Rightarrow> PodSnapshot \<Rightarrow> string list \<Rightarrow>
   ('m, 'a) VerdictSync \<Rightarrow> (('m, 'a) VerdictSync \<times> nat) option" where
  "sync e B policy pods svc_names st =
     (let flags = write_flag B (default_allow policy) (policy_flags st);
          cleared = clear_map B (verdict_map st)
      in case sync_from e B policy pods svc_names svc_names (cleared, 0) of
           None \<Rightarrow> None
         | Some (m, entry_count) \<Rightarrow>
             Some (st\<lparr>verdict_map := m, policy_flags := flags\<rparr>, entry_count))"

section \<open>The entries of a snapshot\<close>

definition verdict_of :: "PolicyCache \<Rightarrow> string \<Rightarrow> string \<Rightarrow> u8" where
  "verdict_of policy f t = (if is_allowed policy f t then 0 else 1)"

text \<open>All the entries \<open>sync\<close> writes, in its order.\<close>

definition pair_entries ::
  "endian \<Rightarrow> PolicyCache \<Rightarrow> PodSnapshot \<Rightarrow> string \<Rightarrow> string \<Rightarrow> (PacketKey \<times> u8) list" where
  "pair_entries e policy pods f t =
     (if f = t then []
      else concat (map (\<lambda>s. map (\<lambda>d. (ip_key e s d, verdict_of policy f t)) (the (pods t))) (the (pods f))))"

definition entries ::
  "endian \<Rightarrow> PolicyCache \<Rightarrow> PodSnapshot \<Rightarrow> string list \<Rightarrow> (PacketKey \<times> u8) list" where
  "entries e policy pods ks =
     concat (map (\<lambda>f. concat (map (pair_entries e policy pods f) ks)) ks)"

lemma insert_dsts_fold:
  "insert_dsts e B v s ds mc = foldl (insert_entry B) mc (map (\<lambda>d. (ip_key e s d, v)) ds)"
  by (induction ds arbitrary: mc) (simp_all add: ip_key_def)

lemma insert_srcs_fold:
  "insert_srcs e B v ss ds mc =
     foldl (insert_entry B) mc (concat (map (\<lambda>s. map (\<lambda>d. (ip_key e s d, v)) ds) ss))"
  by (induction ss arbitrary: mc) (simp_all add: insert_dsts_fold)

lemma sync_to_fold:
  assumes "set ts \<subseteq> dom pods" "f \<in> dom pods"
  shows "sync_to e B policy pods f ts mc =
    Some (foldl (insert_entry B) mc (concat (map (pair_entries e policy pods f) ts)))"
  using assms
proof (induction ts arbitrary: mc)
  case Nil
  then show ?case by simp
next
  case (Cons t ts)
  from Cons.prems obtain fips tips where "pods f = Some fips" "pods t = Some tips" by auto
  then have "sync_to e B policy pods f (t # ts) mc =
      sync_to e B policy pods f ts (foldl (insert_entry B) mc (pair_entries e policy pods f t))"
    by (simp add: pair_entries_def insert_srcs_fold verdict_of_def Let_def)
  then show ?case using Cons by simp
qed

lemma sync_from_fold:
  assumes "set ks \<subseteq> dom pods" "set fs \<subseteq> dom pods"
  shows "sync_from e B policy pods ks fs mc =
    Some (foldl (insert_entry B) mc (concat (map (\<lambda>f. concat (map (pair_entries e policy pods f) ks)) fs)))"
  using assms(2)
proof (induction fs arbitrary: mc)
  case Nil
  then show ?case by simp
next
  case (Cons f fs)
  then show ?case using assms(1) by (simp add: sync_to_fold)
qed

text \<open>The whole operation as one fold; with an order of the snapshot's keys it never panics.\<close>

lemma sync_fold:
  assumes "iter_order pods ks"
  shows "sync e B policy pods ks st =
    (let mc = foldl (insert_entry B) (clear_map B (verdict_map st), 0) (entries e policy pods ks)
     in Some (st\<lparr>verdict_map := fst mc, policy_flags := write_flag B (default_allow policy) (policy_flags st)\<rparr>, snd mc))"
  using assms
  by (simp add: sync_def sync_from_fold iter_order_def entries_def Let_def split_beta)

lemma set_pair_entries:
  assumes "pods f = Some fs" "pods t = Some ts"
  shows "(k, v) \<in> set (pair_entries e policy pods f t) \<longleftrightarrow>
    f \<noteq> t \<and> (\<exists>s d. s \<in> set fs \<and> d \<in> set ts \<and> k = ip_key e s d \<and> v = verdict_of policy f t)"
  using assms by (auto simp: pair_entries_def)

lemma set_entries:
  assumes "iter_order pods ks"
  shows "(k, v) \<in> set (entries e policy pods ks) \<longleftrightarrow>
    (\<exists>f t fs ts s d. pods f = Some fs \<and> pods t = Some ts \<and> f \<noteq> t \<and> s \<in> set fs \<and> d \<in> set ts
       \<and> k = ip_key e s d \<and> v = verdict_of policy f t)"
  (is "?L = ?R")
proof
  assume ?L
  then obtain f t where f: "f \<in> set ks" and t: "t \<in> set ks"
    and kv: "(k, v) \<in> set (pair_entries e policy pods f t)"
    by (auto simp: entries_def)
  from f t obtain fs ts where ft: "pods f = Some fs" "pods t = Some ts"
    using assms by (auto simp: iter_order_mem)
  with kv show ?R unfolding set_pair_entries [OF ft] by blast
next
  assume ?R
  then obtain f t fs ts s d where *: "pods f = Some fs" "pods t = Some ts" "f \<noteq> t"
    "s \<in> set fs" "d \<in> set ts" "k = ip_key e s d" "v = verdict_of policy f t" by blast
  then have "(k, v) \<in> set (pair_entries e policy pods f t)"
    by (auto simp: set_pair_entries)
  moreover have "f \<in> set ks" "t \<in> set ks" using * assms by (auto simp: iter_order_mem)
  ultimately show ?L by (auto simp: entries_def)
qed

text \<open>An address belongs to one service at most.\<close>

definition unique_ips :: "PodSnapshot \<Rightarrow> bool" where
  "unique_ips pods \<longleftrightarrow>
     (\<forall>f t fs ts a. pods f = Some fs \<longrightarrow> pods t = Some ts \<longrightarrow> a \<in> set fs \<longrightarrow> a \<in> set ts \<longrightarrow> f = t)"

lemma unique_ipsD:
  "unique_ips pods \<Longrightarrow> pods f = Some fs \<Longrightarrow> pods t = Some ts \<Longrightarrow> a \<in> set fs \<Longrightarrow> a \<in> set ts \<Longrightarrow> f = t"
  unfolding unique_ips_def by blast

lemma entries_functional:
  assumes "iter_order pods ks" "unique_ips pods"
    "(k, v) \<in> set (entries e policy pods ks)" "(k, v') \<in> set (entries e policy pods ks)"
  shows "v = v'"
  using assms(3,4) unfolding set_entries [OF assms(1)]
  by (metis assms(2) ip_key_inject unique_ipsD)

section \<open>The kernel maps after a reconciliation\<close>

abbreviation bpf_fold :: "('m, 'a) bpf_ops \<Rightarrow> 'm \<Rightarrow> (PacketKey \<times> u8) list \<Rightarrow> 'm" where
  "bpf_fold B m kvs \<equiv> fst (foldl (insert_entry B) (m, 0) kvs)"

lemma insert_entry_fst:
  "fst (insert_entry B (m, n) kv) = fst (insert_entry B (m, 0) kv)"
  by (simp add: insert_entry_def split: sum.splits)

lemma foldl_insert_fst:
  "fst (foldl (insert_entry B) (m, n) kvs) = fst (foldl (insert_entry B) (m, n') kvs)"
proof (induction kvs arbitrary: m n n')
  case Nil
  then show ?case by simp
next
  case (Cons kv kvs)
  show ?case
    using Cons.IH [of "fst (insert_entry B (m, n) kv)" "snd (insert_entry B (m, n) kv)"
        "snd (insert_entry B (m, n') kv)"]
    by (metis foldl_Cons insert_entry_fst prod.collapse)
qed

lemma bpf_fold_Cons: "bpf_fold B m (kv # kvs) = bpf_fold B (fst (insert_entry B (m, 0) kv)) kvs"
  by (metis foldl_Cons foldl_insert_fst prod.collapse)

context bpf_maps
begin

lemma remove_keys_get: "hm_get B (remove_keys B ks m) = hm_get B m |` (- set ks)"
proof (induction ks arbitrary: m)
  case Nil
  then show ?case by (simp add: restrict_map_def fun_eq_iff)
next
  case (Cons k ks)
  show ?case
  proof (cases "hm_remove B m k")
    case (Inl err)
    then have "hm_get B m k = None" by (rule remove_Inl)
    then show ?thesis using Inl Cons.IH by (auto simp: restrict_map_def fun_eq_iff)
  next
    case (Inr m')
    then show ?thesis using Cons.IH remove_Inr [OF Inr] by (auto simp: restrict_map_def fun_eq_iff)
  qed
qed

lemma clear_map_get: "hm_get B (clear_map B m) = Map.empty"
proof -
  obtain ks where "hm_keys B m = map Inr ks" "iter_order (hm_get B m) ks"
    using keys_all by blast
  then show ?thesis
    by (auto simp: clear_map_def remove_keys_get restrict_map_def iter_order_def fun_eq_iff domIff)
qed

lemma insert_entry_get:
  "hm_get B (fst (insert_entry B (m, n) kv)) =
     (if fst kv \<in> dom (hm_get B m) \<or> card (dom (hm_get B m)) < cap
      then (hm_get B m)(fst kv \<mapsto> snd kv) else hm_get B m)"
proof (cases "hm_insert B m (fst kv) (snd kv)")
  case (Inl err)
  then show ?thesis using insert_Inl [OF Inl] by (simp add: insert_entry_def)
next
  case (Inr m')
  then have "fst kv \<in> dom (hm_get B m) \<or> card (dom (hm_get B m)) < cap"
    using insert_full [of "fst kv" m "snd kv"] by fastforce
  then show ?thesis using Inr insert_Inr [OF Inr] by (simp add: insert_entry_def)
qed

lemma fold_bounded:
  "card (dom (hm_get B m)) \<le> cap \<Longrightarrow> card (dom (hm_get B (bpf_fold B m kvs))) \<le> cap"
proof (induction kvs arbitrary: m)
  case Nil
  then show ?case by simp
next
  case (Cons kv kvs)
  let ?m = "fst (insert_entry B (m, 0) kv)"
  have "card (dom (hm_get B ?m)) \<le> cap"
    using Cons.prems insert_card by (auto simp: insert_entry_def split: sum.splits)
  then have "card (dom (hm_get B (bpf_fold B ?m kvs))) \<le> cap" by (rule Cons.IH)
  then show ?case by (simp only: bpf_fold_Cons)
qed

text \<open>Whatever is in the map after the inserts was there before or was inserted.\<close>

lemma fold_sound:
  "hm_get B (bpf_fold B m kvs) k = Some v \<Longrightarrow> hm_get B m k = Some v \<or> (k, v) \<in> set kvs"
proof (induction kvs arbitrary: m)
  case Nil
  then show ?case by simp
next
  case (Cons kv kvs)
  then have "hm_get B (fst (insert_entry B (m, 0) kv)) k = Some v \<or> (k, v) \<in> set kvs"
    by (simp only: bpf_fold_Cons)
  then show ?case by (cases kv) (auto simp: insert_entry_get split: if_splits)
qed

text \<open>As long as all keys fit, there is room for the next one.\<close>

lemma room_for_next:
  assumes "card (dom (hm_get B m) \<union> fst ` set (kv # kvs)) \<le> cap"
  shows "fst kv \<in> dom (hm_get B m) \<or> card (dom (hm_get B m)) < cap"
proof (rule disjCI)
  have fin: "finite (dom (hm_get B m) \<union> fst ` set (kv # kvs))" using finite_get by simp
  assume "\<not> card (dom (hm_get B m)) < cap"
  then have "dom (hm_get B m) \<union> fst ` set (kv # kvs) = dom (hm_get B m)"
    using assms card_seteq [OF fin, of "dom (hm_get B m)"] by auto
  then show "fst kv \<in> dom (hm_get B m)" by auto
qed

text \<open>When all the keys fit, every insert succeeds and the last entry of a key wins.\<close>

lemma fold_complete:
  assumes "card (dom (hm_get B m) \<union> fst ` set kvs) \<le> cap"
  shows "hm_get B (bpf_fold B m kvs) = (hm_get B m) ++ map_of (rev kvs)"
  using assms
proof (induction kvs arbitrary: m)
  case Nil
  then show ?case by simp
next
  case (Cons kv kvs)
  let ?m = "fst (insert_entry B (m, 0) kv)"
  have "fst kv \<in> dom (hm_get B m) \<or> card (dom (hm_get B m)) < cap"
    by (rule room_for_next [OF Cons.prems])
  then have get: "hm_get B ?m = (hm_get B m)(fst kv \<mapsto> snd kv)" by (simp add: insert_entry_get)
  then have "dom (hm_get B ?m) \<union> fst ` set kvs = dom (hm_get B m) \<union> fst ` set (kv # kvs)"
    by auto
  then have "hm_get B (bpf_fold B ?m kvs) = hm_get B ?m ++ map_of (rev kvs)"
    using Cons.prems by (intro Cons.IH) simp
  moreover have "(hm_get B m)(fst kv \<mapsto> snd kv) ++ map_of (rev kvs) =
      hm_get B m ++ map_of (rev (kv # kvs))"
    by (cases kv) (simp add: map_add_def fun_eq_iff split: option.splits)
  ultimately show ?case by (simp only: bpf_fold_Cons get)
qed

lemma write_flag_get: "ar_get B (write_flag B d a) 0 = Some (if d then 1 else 0)"
  using flag_set [of a "if d then 1 else 0"] by (auto simp: write_flag_def)

end

section \<open>How many entries there are\<close>

definition pair_count :: "PodSnapshot \<Rightarrow> string list \<Rightarrow> nat" where
  "pair_count pods ks =
     sum_list (map (\<lambda>f. sum_list (map (\<lambda>t. if f = t then 0
        else length (the (pods f)) * length (the (pods t))) ks)) ks)"

definition pod_count :: "PodSnapshot \<Rightarrow> string list \<Rightarrow> nat" where
  "pod_count pods ks = sum_list (map (\<lambda>f. length (the (pods f))) ks)"

lemma length_concat_map_const: "length (concat (map (\<lambda>s. map (g s) ds) ss)) = length ss * length ds"
  by (induction ss) simp_all

lemma length_concat_map: "length (concat (map g xs)) = sum_list (map (\<lambda>x. length (g x)) xs)"
  by (induction xs) simp_all

lemma length_pair_entries:
  "length (pair_entries e policy pods f t) =
     (if f = t then 0 else length (the (pods f)) * length (the (pods t)))"
  by (simp add: pair_entries_def length_concat_map_const)

lemma length_entries: "length (entries e policy pods ks) = pair_count pods ks"
  by (simp only: entries_def pair_count_def length_concat_map length_pair_entries)

lemma pair_count_square: "pair_count pods ks \<le> pod_count pods ks * pod_count pods ks"
proof -
  let ?n = "\<lambda>f. length (the (pods f))"
  have "pair_count pods ks \<le> sum_list (map (\<lambda>f. sum_list (map (\<lambda>t. ?n f * ?n t) ks)) ks)"
    unfolding pair_count_def by (intro sum_list_mono) simp
  also have "\<dots> = pod_count pods ks * pod_count pods ks"
    by (simp add: pod_count_def sum_list_const_mult sum_list_mult_const)
  finally show ?thesis .
qed

lemma card_entry_keys: "card (fst ` set (entries e policy pods ks)) \<le> pair_count pods ks"
  using card_length [of "map fst (entries e policy pods ks)"] by (simp add: length_entries)

lemma distinct_concat_map:
  assumes "distinct xs" "\<And>x. x \<in> set xs \<Longrightarrow> distinct (g x)"
    and "\<And>x y. x \<in> set xs \<Longrightarrow> y \<in> set xs \<Longrightarrow> x \<noteq> y \<Longrightarrow> set (g x) \<inter> set (g y) = {}"
  shows "distinct (concat (map g xs))"
  using assms
proof (induction xs)
  case Nil
  then show ?case by simp
next
  case (Cons x xs)
  have "distinct (concat (map g xs))" using Cons.prems by (intro Cons.IH) auto
  moreover have "set (g x) \<inter> set (concat (map g xs)) = {}"
  proof -
    have "set (g x) \<inter> set (g y) = {}" if "y \<in> set xs" for y
      using Cons.prems(1) that by (intro Cons.prems(3)) auto
    then show ?thesis by auto
  qed
  ultimately show ?case using Cons.prems(2) [of x] by simp
qed

definition distinct_ips :: "PodSnapshot \<Rightarrow> bool" where
  "distinct_ips pods \<longleftrightarrow> (\<forall>f fs. pods f = Some fs \<longrightarrow> distinct fs)"

lemma distinct_pair_keys:
  assumes "pods f = Some fs" "pods t = Some ts" "distinct fs" "distinct ts"
  shows "distinct (map fst (pair_entries e policy pods f t))"
proof -
  have "map fst (concat (map (\<lambda>s. map (\<lambda>d. (ip_key e s d, v)) ts) fs)) =
      concat (map (\<lambda>s. map (ip_key e s) ts) fs)" for v :: u8
    by (simp add: map_concat o_def)
  moreover have "distinct (concat (map (\<lambda>s. map (ip_key e s) ts) fs))"
    using assms(3,4) by (intro distinct_concat_map) (auto simp: distinct_map inj_on_def)
  ultimately show ?thesis using assms(1,2) by (simp add: pair_entries_def)
qed

lemma pair_keys_disjoint:
  assumes "unique_ips pods" "pods f = Some fs" "pods t = Some ts" "pods f' = Some fs'" "pods t' = Some ts'"
    and "(f, t) \<noteq> (f', t')"
  shows "fst ` set (pair_entries e policy pods f t) \<inter> fst ` set (pair_entries e policy pods f' t') = {}"
proof (rule ccontr)
  assume "\<not> ?thesis"
  then obtain k v v' where "(k, v) \<in> set (pair_entries e policy pods f t)"
    "(k, v') \<in> set (pair_entries e policy pods f' t')" by force
  then obtain s d where sd: "s \<in> set fs" "d \<in> set ts" "s \<in> set fs'" "d \<in> set ts'"
    unfolding set_pair_entries [OF assms(2,3)] set_pair_entries [OF assms(4,5)] by auto
  have "f = f'" by (rule unique_ipsD [OF assms(1,2,4) sd(1,3)])
  moreover have "t = t'" by (rule unique_ipsD [OF assms(1,3,5) sd(2,4)])
  ultimately show False using assms(6) by simp
qed

lemma distinct_entry_keys:
  assumes "iter_order pods ks" "unique_ips pods" "distinct_ips pods"
  shows "distinct (map fst (entries e policy pods ks))"
proof -
  let ?g = "\<lambda>f t. map fst (pair_entries e policy pods f t)"
  have some: "\<exists>fs. pods f = Some fs \<and> distinct fs" if "f \<in> set ks" for f
    using that assms(1,3) by (auto simp: iter_order_mem distinct_ips_def)
  have disj: "set (?g f t) \<inter> set (?g f' t') = {}"
    if ks: "f \<in> set ks" "t \<in> set ks" "f' \<in> set ks" "t' \<in> set ks" and ne: "(f, t) \<noteq> (f', t')" for f t f' t'
  proof -
    obtain fs ts fs' ts' where "pods f = Some fs" "pods t = Some ts" "pods f' = Some fs'" "pods t' = Some ts'"
      using some ks by metis
    from pair_keys_disjoint [OF assms(2) this ne] show ?thesis by simp
  qed
  have inner: "distinct (concat (map (?g f) ks))" if "f \<in> set ks" for f
  proof (rule distinct_concat_map)
    show "distinct ks" using assms(1) by (rule iter_order_distinct)
    show "distinct (?g f t)" if "t \<in> set ks" for t
      using some [OF \<open>f \<in> set ks\<close>] some [OF that] by (auto intro: distinct_pair_keys)
    show "set (?g f t) \<inter> set (?g f t') = {}" if "t \<in> set ks" "t' \<in> set ks" "t \<noteq> t'" for t t'
      using disj [of f t f t'] that \<open>f \<in> set ks\<close> by blast
  qed
  have outer: "set (concat (map (?g f) ks)) \<inter> set (concat (map (?g f') ks)) = {}"
    if ff': "f \<in> set ks" "f' \<in> set ks" "f \<noteq> f'" for f f'
  proof -
    have d: "set (?g f t) \<inter> set (?g f' t') = {}" if "t \<in> set ks" "t' \<in> set ks" for t t'
      by (rule disj) (use ff' that in simp_all)
    have u: "set (concat (map (?g h) ks)) = (\<Union>t\<in>set ks. set (?g h t))" for h
      by (simp only: set_concat set_map image_image)
    show ?thesis unfolding u using d by blast
  qed
  have "distinct (concat (map (\<lambda>f. concat (map (?g f) ks)) ks))"
    by (rule distinct_concat_map [OF iter_order_distinct [OF assms(1)] inner outer])
  then show ?thesis by (simp add: entries_def map_concat o_def)
qed

section \<open>What a reconciliation establishes\<close>

context bpf_maps
begin

lemma sync_Some:
  assumes "iter_order pods ks" "sync e B policy pods ks st = Some (st', n)"
  shows "verdict_map st' = bpf_fold B (clear_map B (verdict_map st)) (entries e policy pods ks)"
    and "policy_flags st' = write_flag B (default_allow policy) (policy_flags st)"
  using assms by (auto simp: sync_fold Let_def)

lemma sync_flag:
  assumes "iter_order pods ks" "sync e B policy pods ks st = Some (st', n)"
  shows "ar_get B (policy_flags st') 0 = Some (if default_allow policy then 1 else 0)"
  by (simp add: sync_Some(2) [OF assms] write_flag_get)

lemma sync_sound:
  assumes "iter_order pods ks" "sync e B policy pods ks st = Some (st', n)"
    and "hm_get B (verdict_map st') k = Some v"
  shows "(k, v) \<in> set (entries e policy pods ks)"
  using fold_sound [of "clear_map B (verdict_map st)" "entries e policy pods ks" k v] assms(3)
  by (simp add: sync_Some(1) [OF assms(1,2)] clear_map_get)

lemma sync_bounded:
  assumes "iter_order pods ks" "sync e B policy pods ks st = Some (st', n)"
  shows "card (dom (hm_get B (verdict_map st'))) \<le> cap"
  using fold_bounded [of "clear_map B (verdict_map st)" "entries e policy pods ks"]
  by (simp add: sync_Some(1) [OF assms] clear_map_get)

lemma sync_get:
  assumes "iter_order pods ks" "sync e B policy pods ks st = Some (st', n)"
    and "pair_count pods ks \<le> cap"
  shows "hm_get B (verdict_map st') = map_of (rev (entries e policy pods ks))"
proof -
  have "card (fst ` set (entries e policy pods ks)) \<le> cap"
    using card_entry_keys [of e policy pods ks] assms(3) by (rule order_trans)
  then show ?thesis
    using fold_complete [of "clear_map B (verdict_map st)" "entries e policy pods ks"]
    by (simp add: sync_Some(1) [OF assms(1,2)] clear_map_get)
qed

lemma sync_exact:
  assumes "iter_order pods ks" "sync e B policy pods ks st = Some (st', n)"
    and "pair_count pods ks \<le> cap" "unique_ips pods"
  shows "hm_get B (verdict_map st') k = Some v \<longleftrightarrow> (k, v) \<in> set (entries e policy pods ks)"
proof
  assume "hm_get B (verdict_map st') k = Some v"
  then show "(k, v) \<in> set (entries e policy pods ks)" by (rule sync_sound [OF assms(1,2)])
next
  assume kv: "(k, v) \<in> set (entries e policy pods ks)"
  then obtain v' where v': "map_of (rev (entries e policy pods ks)) k = Some v'"
    using map_of_eq_None_iff [of "rev (entries e policy pods ks)" k]
    by (cases "map_of (rev (entries e policy pods ks)) k") force+
  then have "(k, v') \<in> set (entries e policy pods ks)" by (auto dest: map_of_SomeD)
  with kv have "v = v'" using entries_functional [OF assms(1,4)] by blast
  with v' show "hm_get B (verdict_map st') k = Some v"
    by (simp add: sync_get [OF assms(1-3)])
qed

lemma sync_missing:
  assumes "iter_order pods ks" "sync e B policy pods ks st = Some (st', n)"
    and "k \<notin> fst ` set (entries e policy pods ks)"
  shows "hm_get B (verdict_map st') k = None"
  using sync_sound [OF assms(1,2), of k] assms(3) by (cases "hm_get B (verdict_map st') k") force+

lemma sync_overflow:
  assumes "iter_order pods ks" "sync e B policy pods ks st = Some (st', n)"
    and "unique_ips pods" "distinct_ips pods" "cap < pair_count pods ks"
  shows "\<exists>k v. (k, v) \<in> set (entries e policy pods ks) \<and> hm_get B (verdict_map st') k = None"
proof (rule ccontr)
  assume "\<not> ?thesis"
  then have "fst ` set (entries e policy pods ks) \<subseteq> dom (hm_get B (verdict_map st'))"
    by (force simp: domIff)
  then have "card (fst ` set (entries e policy pods ks)) \<le> card (dom (hm_get B (verdict_map st')))"
    using finite_get by (rule card_mono [rotated])
  moreover have "card (fst ` set (entries e policy pods ks)) = pair_count pods ks"
    using distinct_card [OF distinct_entry_keys [OF assms(1,3,4)], of e policy]
    by (simp add: length_entries)
  ultimately show False using sync_bounded [OF assms(1,2)] assms(5) by linarith
qed

end

section \<open>What the kernel can observe during a reconciliation\<close>

text \<open>
  The kernel program reads the maps without a lock, between any two map operations of
  \<open>sync\<close>. \<open>sync_trace\<close> lists the states between its operations, first to last.
\<close>

fun states :: "('s \<Rightarrow> 'x \<Rightarrow> 's) \<Rightarrow> 's \<Rightarrow> 'x list \<Rightarrow> 's list" where
  "states f s [] = [s]"
| "states f s (x # xs) = s # states f (f s x) xs"

definition remove_entry :: "('m, 'a) bpf_ops \<Rightarrow> 'm \<Rightarrow> PacketKey \<Rightarrow> 'm" where
  "remove_entry B m k = (case hm_remove B m k of Inl err \<Rightarrow> m | Inr m' \<Rightarrow> m')"

definition sync_trace ::
  "endian \<Rightarrow> ('m, 'a) bpf_ops \<Rightarrow> PolicyCache \<Rightarrow> PodSnapshot \<Rightarrow> string list \<Rightarrow>
   ('m, 'a) VerdictSync \<Rightarrow> ('m, 'a) VerdictSync list" where
  "sync_trace e B policy pods svc_names st =
     st # map (\<lambda>m. st\<lparr>verdict_map := m,
                       policy_flags := write_flag B (default_allow policy) (policy_flags st)\<rparr>)
       (states (remove_entry B) (verdict_map st) (oks (hm_keys B (verdict_map st)))
        @ map fst (states (insert_entry B) (clear_map B (verdict_map st), 0) (entries e policy pods svc_names)))"

lemma last_states [simp]: "last (states f s xs) = foldl f s xs"
proof (induction xs arbitrary: s)
  case (Cons x xs)
  have "states f (f s x) xs \<noteq> []" by (cases xs) simp_all
  then show ?case using Cons by simp
qed simp

lemma states_nonempty [simp]: "states f s xs \<noteq> []"
  by (cases xs) simp_all

lemma states_mem: "s' \<in> set (states f s xs) \<Longrightarrow> \<exists>n. s' = foldl f s (take n xs)"
proof (induction xs arbitrary: s)
  case (Cons x xs)
  then consider "s' = s" | n where "s' = foldl f (f s x) (take n xs)" by auto
  then show ?case
  proof cases
    case 1
    then show ?thesis by (intro exI [of _ 0]) simp
  next
    case 2
    then show ?thesis by (intro exI [of _ "Suc n"]) simp
  qed
qed simp

lemma states_foldl: "foldl f s xs \<in> set (states f s xs)"
  using last_in_set [of "states f s xs"] by simp

lemma remove_keys_foldl: "remove_keys B ks m = foldl (remove_entry B) m ks"
  by (induction ks arbitrary: m) (simp_all add: remove_entry_def)

text \<open>The last state is the result of \<open>sync\<close>, and the flag and the empty map are passed through.\<close>

lemma sync_trace_last:
  assumes "iter_order pods ks"
  shows "map_option fst (sync e B policy pods ks st) = Some (last (sync_trace e B policy pods ks st))"
  by (simp add: sync_fold [OF assms] Let_def sync_trace_def last_map)

lemma sync_trace_cleared:
  "st\<lparr>verdict_map := clear_map B (verdict_map st),
      policy_flags := write_flag B (default_allow policy) (policy_flags st)\<rparr>
     \<in> set (sync_trace e B policy pods ks st)"
proof -
  have "clear_map B (verdict_map st) \<in> set (states (remove_entry B) (verdict_map st) (oks (hm_keys B (verdict_map st))))"
    unfolding clear_map_def remove_keys_foldl by (rule states_foldl)
  then show ?thesis by (auto simp: sync_trace_def)
qed

context bpf_maps
begin

text \<open>
  In every state after the first the flag is the new one and a key has its old value, no value,
  or a value of the new entries.
\<close>

lemma sync_trace_get:
  assumes "st' \<in> set (sync_trace e B policy pods ks st)"
  shows "st' = st \<or>
    (ar_get B (policy_flags st') 0 = Some (if default_allow policy then 1 else 0) \<and>
     (hm_get B (verdict_map st') k = hm_get B (verdict_map st) k \<or> hm_get B (verdict_map st') k = None
      \<or> (\<exists>v. hm_get B (verdict_map st') k = Some v \<and> (k, v) \<in> set (entries e policy pods ks))))"
proof -
  let ?fl = "write_flag B (default_allow policy) (policy_flags st)"
  let ?ks = "oks (hm_keys B (verdict_map st))"
  let ?mk = "\<lambda>m. st\<lparr>verdict_map := m, policy_flags := ?fl\<rparr>"
  from assms consider "st' = st"
    | n where "st' = ?mk (remove_keys B (take n ?ks) (verdict_map st))"
    | n where "st' = ?mk (bpf_fold B (clear_map B (verdict_map st)) (take n (entries e policy pods ks)))"
    unfolding sync_trace_def set_append list.set(2) list.set_map Un_iff insert_iff image_Un
    by (elim disjE imageE) (auto simp only: remove_keys_foldl dest!: states_mem)
  then show ?thesis
  proof cases
    case 2
    then show ?thesis by (auto simp: write_flag_get remove_keys_get restrict_map_def)
  next
    case 3
    have "hm_get B (verdict_map st') k = Some v \<Longrightarrow> (k, v) \<in> set (entries e policy pods ks)" for v
      using fold_sound [of "clear_map B (verdict_map st)" "take n (entries e policy pods ks)" k v] 3
      by (auto simp: clear_map_get dest: in_set_takeD)
    then show ?thesis using 3
      by (cases "hm_get B (verdict_map st') k") (auto simp: write_flag_get)
  qed simp
qed

end

end
