(* ===== verification/Policy_Engine.thy ===== *)
theory Policy_Engine
  imports Policy_Cache
begin

text \<open>
  \<open>sigil/internal/policy/engine.go\<close>: the control plane's own decision procedure, the
  abstract specification of the policy the agents enforce. The engine keeps the set of
  destinations of every source; \<open>Rules\<close> turns it back into rules, in the order in which Go
  happens to visit its maps, and these are what a \<open>PolicyBundle\<close> carries.
\<close>

datatype Decision = Deny | Allow

fun decision_string :: "Decision \<Rightarrow> string" where
  "decision_string Allow = ''Allow''"
| "decision_string Deny = ''Deny''"

section \<open>The configuration\<close>

text \<open>
  The contents of \<open>mesh.yaml\<close>. Decoding YAML is the library's and a parameter of \<open>NewFromBytes\<close>;
  the rules have the shape of the rules of the policy cache.
\<close>

record MeshMeta =
  mm_name :: string
  mm_cluster_id :: string

record PolicyConfig =
  pol_mtls :: string
  pol_default_allow :: bool
  pol_allow :: "AllowRule list"

record ServiceDef =
  sd_name :: string
  sd_namespace :: string

record MeshConfig =
  cfg_mesh :: MeshMeta
  cfg_policy :: PolicyConfig
  cfg_services :: "ServiceDef list"

section \<open>The engine\<close>

record Engine =
  allow :: "string \<rightharpoonup> string set"
  defaultAllow :: bool
  mtlsMode :: string
  clusterID :: string

fun add_rules :: "(string \<rightharpoonup> string set) \<Rightarrow> AllowRule list \<Rightarrow> (string \<rightharpoonup> string set)" where
  "add_rules m [] = m"
| "add_rules m (r # rs) =
     add_rules (m(from_service r \<mapsto>
       (case m (from_service r) of None \<Rightarrow> {} | Some s \<Rightarrow> s) \<union> set (to_services r))) rs"

definition newEngine :: "MeshConfig \<Rightarrow> Engine" where
  "newEngine cfg =
     (let mtls = pol_mtls (cfg_policy cfg) in
      \<lparr>allow = add_rules Map.empty (pol_allow (cfg_policy cfg)),
       defaultAllow = pol_default_allow (cfg_policy cfg),
       mtlsMode = (if mtls = [] then ''off'' else mtls),
       clusterID = mm_cluster_id (cfg_mesh cfg)\<rparr>)"

definition NewFromBytes :: "(bytes \<Rightarrow> string + MeshConfig) \<Rightarrow> bytes \<Rightarrow> string + Engine" where
  "NewFromBytes unmarshal data =
     (case unmarshal data of
        Inl e \<Rightarrow> Inl (''policy: parse yaml: '' @ e)
      | Inr cfg \<Rightarrow> Inr (newEngine cfg))"

definition NewFromFile ::
  "(string \<Rightarrow> string + bytes) \<Rightarrow> (bytes \<Rightarrow> string + MeshConfig) \<Rightarrow> string \<Rightarrow> string + Engine" where
  "NewFromFile read_file unmarshal path =
     (case read_file path of
        Inl e \<Rightarrow> Inl (''policy: read config: '' @ e)
      | Inr data \<Rightarrow> NewFromBytes unmarshal data)"

definition Evaluate :: "Engine \<Rightarrow> string \<Rightarrow> string \<Rightarrow> Decision" where
  "Evaluate e f t =
     (if (case allow e f of Some dsts \<Rightarrow> t \<in> dsts | None \<Rightarrow> False) then Allow
      else if defaultAllow e then Allow else Deny)"

definition Rules :: "Engine \<Rightarrow> string list \<Rightarrow> (string \<Rightarrow> string list) \<Rightarrow> AllowRule list" where
  "Rules e ks dord = map (\<lambda>f. \<lparr>from_service = f, to_services = dord f\<rparr>) ks"

text \<open>The orders in which the two nested maps are visited: each key once.\<close>

definition visits :: "Engine \<Rightarrow> string list \<Rightarrow> (string \<Rightarrow> string list) \<Rightarrow> bool" where
  "visits e ks dord \<longleftrightarrow>
     iter_order (allow e) ks \<and> (\<forall>f ds. allow e f = Some ds \<longrightarrow> distinct (dord f) \<and> set (dord f) = ds)"

lemma newEngine_sel [simp]:
  "allow (newEngine cfg) = add_rules Map.empty (pol_allow (cfg_policy cfg))"
  "defaultAllow (newEngine cfg) = pol_default_allow (cfg_policy cfg)"
  "clusterID (newEngine cfg) = mm_cluster_id (cfg_mesh cfg)"
  "mtlsMode (newEngine cfg) = (if pol_mtls (cfg_policy cfg) = [] then ''off'' else pol_mtls (cfg_policy cfg))"
  by (simp_all add: newEngine_def Let_def)

lemma Evaluate_Allow:
  "Evaluate e f t = Allow \<longleftrightarrow> defaultAllow e \<or> (\<exists>ds. allow e f = Some ds \<and> t \<in> ds)"
  by (auto simp: Evaluate_def split: option.splits)

lemma add_rules_lookup:
  "add_rules m rs f =
     (if f \<in> from_service ` set rs \<or> f \<in> dom m
      then Some ((case m f of None \<Rightarrow> {} | Some s \<Rightarrow> s)
                 \<union> (\<Union>r \<in> {r \<in> set rs. from_service r = f}. set (to_services r)))
      else None)"
proof (induction rs arbitrary: m)
  case Nil
  then show ?case by (auto split: option.splits)
next
  case (Cons r rs)
  show ?case unfolding add_rules.simps Cons.IH by (auto split: option.splits)
qed

lemma first_rule_Rules:
  assumes "visits e ks dord"
  shows "first_rule (Rules e ks dord) f =
    (if f \<in> dom (allow e) then Some \<lparr>from_service = f, to_services = dord f\<rparr> else None)"
proof (cases "f \<in> dom (allow e)")
  case True
  then have "f \<in> set ks" using assms by (auto simp: visits_def iter_order_def)
  moreover have "distinct (map from_service (Rules e ks dord))"
    using assms by (simp add: visits_def iter_order_def Rules_def o_def)
  ultimately show ?thesis
    using True first_rule_distinct [of "Rules e ks dord" "\<lparr>from_service = f, to_services = dord f\<rparr>"]
    by (simp add: Rules_def)
next
  case False
  then have "f \<notin> set ks" using assms by (simp add: visits_def iter_order_def)
  then have "first_rule (Rules e ks dord) f = None"
    by (auto simp: first_rule_None Rules_def)
  then show ?thesis using False by simp
qed

lemma is_allowed_Rules:
  assumes "visits e ks dord"
  shows "is_allowed (pc_update c (Rules e ks dord) (defaultAllow e) m) f t =
    (case allow e f of None \<Rightarrow> defaultAllow e | Some ds \<Rightarrow> t \<in> ds)"
  using assms
  by (auto simp: is_allowed_first first_rule_Rules visits_def split: option.splits)

lemma finite_add_rules: "finite (dom m) \<Longrightarrow> finite (dom (add_rules m rs))"
  by (induction rs arbitrary: m) simp_all

lemma finite_dests:
  "(\<And>f ds. m f = Some ds \<Longrightarrow> finite ds) \<Longrightarrow> add_rules m rs f = Some ds \<Longrightarrow> finite ds"
  by (auto simp: add_rules_lookup split: if_splits option.splits)

text \<open>An order of the engine's maps always exists.\<close>

lemma visits_ex: "\<exists>ks dord. visits (newEngine cfg) ks dord"
proof -
  let ?m = "add_rules Map.empty (pol_allow (cfg_policy cfg))"
  have "finite (dom ?m)" by (rule finite_add_rules) simp
  then obtain ks where ks: "iter_order ?m ks" using iter_order_ex by blast
  define dord where "dord f = (SOME l. distinct l \<and> set l = (case ?m f of Some ds \<Rightarrow> ds | None \<Rightarrow> {}))" for f
  have "distinct (dord f) \<and> set (dord f) = ds" if "?m f = Some ds" for f ds
  proof -
    have "finite ds" using finite_dests [OF _ that] by simp
    then have "\<exists>l. distinct l \<and> set l = ds" using finite_distinct_list by blast
    then show ?thesis unfolding dord_def that option.case by (rule someI_ex)
  qed
  then show ?thesis using ks by (auto simp: visits_def)
qed

definition ex_config :: "string \<Rightarrow> bool \<Rightarrow> AllowRule list \<Rightarrow> MeshConfig" where
  "ex_config mode d rs =
     \<lparr>cfg_mesh = \<lparr>mm_name = ''mesh'', mm_cluster_id = ''dev''\<rparr>,
      cfg_policy = \<lparr>pol_mtls = mode, pol_default_allow = d, pol_allow = rs\<rparr>, cfg_services = []\<rparr>"

lemma ex_config_sel [simp]: "cfg_policy (ex_config mode d rs) = \<lparr>pol_mtls = mode, pol_default_allow = d, pol_allow = rs\<rparr>"
  by (simp add: ex_config_def)

section \<open>Properties\<close>

text \<open>
  C15. The policy the agents enforce against the decision procedure of the control plane: the
  rules pushed by an engine are decided by the agents as the engine decides them, with exactly
  one exception. When the default is to allow, the agents refuse a destination that the rules
  of its source do not list and the engine permits it.
\<close>

theorem agent_agrees_with_engine:
  assumes "visits (newEngine cfg) ks dord"
  shows "(is_allowed (pc_update c (Rules (newEngine cfg) ks dord) (pol_default_allow (cfg_policy cfg)) m) f t \<longleftrightarrow>
            Evaluate (newEngine cfg) f t = Allow)
    \<longleftrightarrow> \<not> (pol_default_allow (cfg_policy cfg) \<and> f \<in> from_service ` set (pol_allow (cfg_policy cfg)) \<and>
          (\<forall>r \<in> set (pol_allow (cfg_policy cfg)). from_service r = f \<longrightarrow> t \<notin> set (to_services r)))"
  using is_allowed_Rules [OF assms, of c m f t] by (auto simp: Evaluate_Allow add_rules_lookup)

theorem agent_agrees_with_engine_witness:
  "is_allowed (pc_update pc_new (Rules (newEngine (ex_config ''enforce'' False
       [\<lparr>from_service = ''alpha'', to_services = [''beta'']\<rparr>])) [''alpha''] (\<lambda>f. [''beta''])) False ''enforce'')
     ''alpha'' ''beta'' \<and>
   \<not> is_allowed (pc_update pc_new (Rules (newEngine (ex_config ''enforce'' True
       [\<lparr>from_service = ''alpha'', to_services = [''beta'']\<rparr>])) [''alpha''] (\<lambda>f. [''beta''])) True ''enforce'')
     ''alpha'' ''gamma''"
proof -
  let ?cfg = "\<lambda>d. ex_config ''enforce'' d [\<lparr>from_service = ''alpha'', to_services = [''beta'']\<rparr>]"
  have v: "visits (newEngine (?cfg d)) [''alpha''] (\<lambda>f. [''beta''])" for d
    by (auto simp: visits_def iter_order_def split: if_splits)
  have "Evaluate (newEngine (?cfg False)) ''alpha'' ''beta'' = Allow"
    and "Evaluate (newEngine (?cfg True)) ''alpha'' ''gamma'' = Allow"
    by (simp_all add: Evaluate_def)
  then show ?thesis
    using agent_agrees_with_engine [OF v [of False], of pc_new "''enforce''" "''alpha''" "''beta''"]
      agent_agrees_with_engine [OF v [of True], of pc_new "''enforce''" "''alpha''" "''gamma''"]
    by simp
qed

end
