(* ===== verification/Enforcement.thy ===== *)
theory Enforcement
  imports Verdict_Sync Policy_Engine
begin

unbundle bit_operations_syntax

text \<open>
  The agent's enforcement end to end: what the kernel program does to a packet after a
  reconciliation of a policy and a pod snapshot. The lemmas here join \<open>Verdict_Sync\<close> (what
  is in the maps) and \<open>Ebpf_Egress\<close> (what the program does with them); the properties of the
  root theory are their consequences. The concrete frames and snapshots serve the witnesses.
\<close>

section \<open>The verdict of a pair of addresses after a reconciliation\<close>

definition kernel_egress ::
  "endian \<Rightarrow> ('m, 'a) bpf_ops \<Rightarrow> ('m, 'a) VerdictSync \<Rightarrow> load_fn \<Rightarrow> u32 \<times> PacketLog list" where
  "kernel_egress e B st load = kprobe_egress e load (hm_get B (verdict_map st)) (ar_get B (policy_flags st))"

context bpf_maps
begin

lemma synced_verdict:
  assumes "iter_order pods ks" "sync e B policy pods ks st = Some (st', n)"
    and "pair_count pods ks \<le> cap" "unique_ips pods"
    and "pods f = Some fs" "s \<in> set fs" "pods t = Some ts" "d \<in> set ts" "f \<noteq> t"
    and "in_pod_cidr s" "in_pod_cidr d"
  shows "pair_verdict e (hm_get B (verdict_map st')) (ar_get B (policy_flags st')) s d = verdict_of policy f t"
proof -
  have "(ip_key e s d, verdict_of policy f t) \<in> set (entries e policy pods ks)"
    unfolding set_entries [OF assms(1)] using assms(5-9) by blast
  then have "hm_get B (verdict_map st') (ip_key e s d) = Some (verdict_of policy f t)"
    using sync_exact [OF assms(1-4)] by blast
  then show ?thesis using assms(10,11) by (simp add: pair_verdict_def)
qed

lemma synced_default:
  assumes "iter_order pods ks" "sync e B policy pods ks st = Some (st', n)"
    and "hm_get B (verdict_map st') (ip_key e s d) = None"
    and "in_pod_cidr s" "in_pod_cidr d"
  shows "pair_verdict e (hm_get B (verdict_map st')) (ar_get B (policy_flags st')) s d =
    (if default_allow policy then 0 else 1)"
  using assms(3-5) sync_flag [OF assms(1,2)] by (simp add: pair_verdict_def)

text \<open>Pairs for which nothing is written: an unknown address, or two addresses of one service.\<close>

lemma no_entry_unknown:
  assumes "iter_order pods ks"
    and "\<not> (\<exists>f fs. pods f = Some fs \<and> s \<in> set fs) \<or> \<not> (\<exists>t ts. pods t = Some ts \<and> d \<in> set ts)"
  shows "ip_key e s d \<notin> fst ` set (entries e policy pods ks)"
  using assms(2) by (force simp: set_entries [OF assms(1)])

lemma no_entry_same_service:
  assumes "iter_order pods ks" "unique_ips pods" "pods f = Some fs" "s \<in> set fs" "d \<in> set fs"
  shows "ip_key e s d \<notin> fst ` set (entries e policy pods ks)"
proof
  assume "ip_key e s d \<in> fst ` set (entries e policy pods ks)"
  then obtain v where "(ip_key e s d, v) \<in> set (entries e policy pods ks)" by force
  then obtain g t gs ts where *: "pods g = Some gs" "pods t = Some ts" "g \<noteq> t" "s \<in> set gs" "d \<in> set ts"
    unfolding set_entries [OF assms(1)] by auto
  have "f = g" by (rule unique_ipsD [OF assms(2,3) *(1) assms(4) *(4)])
  moreover have "f = t" by (rule unique_ipsD [OF assms(2,3) *(2) assms(5) *(5)])
  ultimately show False using *(3) by simp
qed

end

section \<open>The action on a packet\<close>

lemma kernel_egress_shot:
  assumes "skb_reader load frame" "decode_frame frame = Some p"
  shows "fst (kernel_egress e B st load) = TC_ACT_SHOT \<longleftrightarrow>
    pair_verdict e (hm_get B (verdict_map st)) (ar_get B (policy_flags st)) (p_src p) (p_dst p) = 1
    \<and> (p_proto p = 6 \<longrightarrow> opens_connection p)"
  using assms
  by (simp add: kernel_egress_def skb_reader.kprobe_egress_meets_spec [OF assms(1)]
      egress_spec_shot packet_verdict_1)

lemma kernel_egress_ok:
  assumes "skb_reader load frame"
  shows "fst (kernel_egress e B st load) = TC_ACT_OK \<longleftrightarrow> fst (kernel_egress e B st load) \<noteq> TC_ACT_SHOT"
  using skb_reader.kprobe_egress_meets_spec [OF assms]
  by (auto simp: kernel_egress_def egress_spec_def split: option.splits)

lemma verdict_of_1 [simp]: "verdict_of policy f t = 1 \<longleftrightarrow> \<not> is_allowed policy f t"
  by (simp add: verdict_of_def)

section \<open>Concrete values\<close>

definition ex_pods :: PodSnapshot where
  "ex_pods = [''alpha'' \<mapsto> [Ipv4Addr 10 244 1 5], ''beta'' \<mapsto> [Ipv4Addr 10 244 2 7]]"

definition ex_policy :: PolicyCache where
  "ex_policy = \<lparr>rules = [\<lparr>from_service = ''alpha'', to_services = [''beta'']\<rparr>],
                default_allow = False, mtls_mode = ''enforce''\<rparr>"

definition ex_state :: "(kmap, u32) VerdictSync" where
  "ex_state = \<lparr>verdict_map = DAList.empty, policy_flags = 1\<rparr>"

lemma ex_order: "iter_order ex_pods [''alpha'', ''beta'']"
  by (auto simp: iter_order_def ex_pods_def)

lemma ex_unique: "unique_ips ex_pods"
  by (auto simp: unique_ips_def ex_pods_def split: if_splits)

lemma ex_count: "pair_count ex_pods [''alpha'', ''beta''] = 2"
  by (simp add: pair_count_def ex_pods_def)

text \<open>The number of pairs does not depend on the order of the services.\<close>

lemma pair_count_sum:
  "distinct ks \<Longrightarrow> pair_count pods ks =
     (\<Sum>f\<in>set ks. \<Sum>t\<in>set ks. if f = t then 0 else length (the (pods f)) * length (the (pods t)))"
  by (simp add: pair_count_def sum_list_distinct_conv_sum_set)

lemma pair_count_order:
  "iter_order pods ks \<Longrightarrow> iter_order pods js \<Longrightarrow> pair_count pods ks = pair_count pods js"
  by (simp add: pair_count_sum iter_order_def)

lemma ex_count_any: "iter_order ex_pods ks \<Longrightarrow> pair_count ex_pods ks \<le> VERDICT_MAP_ENTRIES"
  using pair_count_order [OF _ ex_order, of ks] by (simp add: ex_count VERDICT_MAP_ENTRIES_def)

lemma ex_sync: "\<exists>st' n. sync e B ex_policy ex_pods [''alpha'', ''beta''] st = Some (st', n)"
  by (simp add: sync_fold [OF ex_order] Let_def)

lemma ex_allowed: "is_allowed ex_policy ''alpha'' ''beta''" "\<not> is_allowed ex_policy ''beta'' ''alpha''"
  by (simp_all add: is_allowed_def ex_policy_def)

lemma ex_pods_sel: "ex_pods ''alpha'' = Some [Ipv4Addr 10 244 1 5]" "ex_pods ''beta'' = Some [Ipv4Addr 10 244 2 7]"
  by (simp_all add: ex_pods_def)

lemma ex_distinct: "distinct_ips ex_pods"
  by (auto simp: distinct_ips_def ex_pods_def split: if_splits)

text \<open>Two services with 65 and 33 pods: more ordered pairs than the map has entries.\<close>

definition big_pods :: PodSnapshot where
  "big_pods = [''alpha'' \<mapsto> map (\<lambda>n. Ipv4Addr 10 244 1 (word_of_nat n)) [0..<65],
               ''beta'' \<mapsto> map (\<lambda>n. Ipv4Addr 10 244 2 (word_of_nat n)) [0..<33]]"

lemma word_of_nat_u8_inject: "n < 256 \<Longrightarrow> m < 256 \<Longrightarrow> (word_of_nat n :: u8) = word_of_nat m \<longleftrightarrow> n = m"
  by (simp add: word_of_nat_eq_iff take_bit_nat_eq_self)

lemma big_order: "iter_order big_pods [''alpha'', ''beta'']"
  by (auto simp: iter_order_def big_pods_def)

lemma big_unique: "unique_ips big_pods"
  by (auto simp: unique_ips_def big_pods_def split: if_splits)

lemma big_distinct: "distinct_ips big_pods"
  by (auto simp: distinct_ips_def big_pods_def distinct_map inj_on_def word_of_nat_u8_inject
      split: if_splits)

lemma big_count: "pair_count big_pods [''alpha'', ''beta''] = 4290"
  by (simp add: pair_count_def big_pods_def)

lemma big_sync: "\<exists>st' n. sync e B ex_policy big_pods [''alpha'', ''beta''] st = Some (st', n)"
  by (simp add: sync_fold [OF big_order] Let_def)

text \<open>With an empty verdict map and the flag at allow-all every frame passes.\<close>

lemma fresh_maps_pass:
  assumes "skb_reader load frame"
    and "hm_get B (verdict_map st) = Map.empty" and "ar_get B (policy_flags st) 0 = Some 1"
  shows "fst (kernel_egress e B st load) = TC_ACT_OK"
proof -
  have "fst (kernel_egress e B st load) \<noteq> TC_ACT_SHOT"
  proof (cases "decode_frame frame")
    case (Some p)
    then show ?thesis by (simp add: kernel_egress_shot [OF assms(1)] pair_verdict_def assms(2,3))
  next
    case None
    then show ?thesis
      by (simp add: kernel_egress_def skb_reader.kprobe_egress_meets_spec [OF assms(1)] egress_spec_def)
  qed
  then show ?thesis by (simp add: kernel_egress_ok [OF assms(1)])
qed

section \<open>Observing a reconciliation in progress\<close>

text \<open>The verdict of a pair of pod addresses in any state between two map operations.\<close>

context bpf_maps
begin

lemma trace_verdict:
  assumes "st' \<in> set (sync_trace e B policy pods ks st)" and "iter_order pods ks" and "unique_ips pods"
    and "pods f = Some fs" "s \<in> set fs" "pods t = Some ts" "d \<in> set ts" "f \<noteq> t"
  shows "st' = st \<or>
    (ar_get B (policy_flags st') 0 = Some (if default_allow policy then 1 else 0) \<and>
     (hm_get B (verdict_map st') (ip_key e s d) = hm_get B (verdict_map st) (ip_key e s d)
      \<or> hm_get B (verdict_map st') (ip_key e s d) = None
      \<or> hm_get B (verdict_map st') (ip_key e s d) = Some (verdict_of policy f t)))"
proof -
  have "(ip_key e s d, verdict_of policy f t) \<in> set (entries e policy pods ks)"
    unfolding set_entries [OF assms(2)] using assms(4-8) by blast
  then have "(ip_key e s d, v) \<in> set (entries e policy pods ks) \<Longrightarrow> v = verdict_of policy f t" for v
    using entries_functional [OF assms(2,3)] by blast
  then show ?thesis
    using sync_trace_get [OF assms(1), of "ip_key e s d"] by auto
qed

lemma trace_keeps_denied:
  assumes "st' \<in> set (sync_trace e B policy pods ks st)" and "iter_order pods ks" and "unique_ips pods"
    and "pods f = Some fs" "s \<in> set fs" "pods t = Some ts" "d \<in> set ts" "f \<noteq> t"
    and "\<not> default_allow policy" "\<not> is_allowed policy f t"
    and "pair_verdict e (hm_get B (verdict_map st)) (ar_get B (policy_flags st)) s d = 1"
  shows "pair_verdict e (hm_get B (verdict_map st')) (ar_get B (policy_flags st')) s d = 1"
  using trace_verdict [OF assms(1-8)] assms(9-11)
  by (auto simp: pair_verdict_def verdict_of_def split: if_splits option.splits)

lemma trace_keeps_allowed:
  assumes "st' \<in> set (sync_trace e B policy pods ks st)" and "iter_order pods ks" and "unique_ips pods"
    and "pods f = Some fs" "s \<in> set fs" "pods t = Some ts" "d \<in> set ts" "f \<noteq> t"
    and "default_allow policy" "is_allowed policy f t"
    and "pair_verdict e (hm_get B (verdict_map st)) (ar_get B (policy_flags st)) s d \<noteq> 1"
  shows "pair_verdict e (hm_get B (verdict_map st')) (ar_get B (policy_flags st')) s d \<noteq> 1"
  using trace_verdict [OF assms(1-8)] assms(9-11)
  by (auto simp: pair_verdict_def verdict_of_def split: if_splits option.splits)

lemma cleared_verdict:
  assumes "\<not> default_allow policy" "in_pod_cidr s" "in_pod_cidr d"
  shows "pair_verdict e (hm_get B (clear_map B m)) (ar_get B (write_flag B (default_allow policy) a)) s d = 1"
  using assms by (simp add: pair_verdict_def clear_map_get write_flag_get)

end

end
