(* ===== verification/Net_Io.thy ===== *)
theory Net_Io
  imports Rust_Str
begin

text \<open>
  The sockets as the code uses them. What the network does is not under \<open>src/\<close>, so the
  outcomes of the socket calls are a parameter (a record of outcomes); what the code does is a
  trace of actions together with its result. \<open>act\<close> is the type of such a computation, with
  \<open>act_bind\<close> for the sequencing that the \<open>?\<close> operator stops at the first error.
  \<open>http_exchange\<close> is the one-shot request (connect, write, read to the end) that the REST
  client and the telemetry client share.
\<close>

section \<open>Computations with a trace\<close>

type_synonym ('o, 'a) act = "'o list \<times> (anyhow + 'a)"

definition act_ret :: "'a \<Rightarrow> ('o, 'a) act" where
  "act_ret a = ([], Inr a)"

definition act_fail :: "anyhow \<Rightarrow> ('o, 'a) act" where
  "act_fail e = ([], Inl e)"

definition act_of :: "anyhow + 'a \<Rightarrow> ('o, 'a) act" where
  "act_of r = ([], r)"

definition act_do :: "'o \<Rightarrow> anyhow + 'a \<Rightarrow> ('o, 'a) act" where
  "act_do act r = ([act], r)"

definition act_bind :: "('o, 'a) act \<Rightarrow> ('a \<Rightarrow> ('o, 'b) act) \<Rightarrow> ('o, 'b) act" where
  "act_bind m f = (case m of (t, Inl e) \<Rightarrow> (t, Inl e) | (t, Inr a) \<Rightarrow> (case f a of (t', r) \<Rightarrow> (t @ t', r)))"

definition act_then :: "('o, 'a) act \<Rightarrow> ('o, 'b) act \<Rightarrow> ('o, 'b) act" where
  "act_then m k = act_bind m (\<lambda>u. k)"

lemma act_bind_simps [simp]:
  "act_bind (t, Inl e) f = (t, Inl e)"
  "act_bind (t, Inr a) f = (t @ fst (f a), snd (f a))"
  by (simp_all add: act_bind_def split: prod.split)

lemma snd_act_bind_Inr: "snd (act_bind m f) = Inr b \<longleftrightarrow> (\<exists>a. snd m = Inr a \<and> snd (f a) = Inr b)"
  by (auto simp: act_bind_def split: prod.split sum.splits)

lemma fst_act_bind: "fst (act_bind m f) = fst m @ (case snd m of Inl e \<Rightarrow> [] | Inr a \<Rightarrow> fst (f a))"
  by (simp add: act_bind_def split: prod.split sum.split)

lemmas act_defs = act_ret_def act_fail_def act_of_def act_do_def act_then_def

text \<open>A computation whose steps come in a fixed order: its trace is a prefix of the plan.\<close>

lemma prefix_act_do:
  "(\<And>v. r = Inr v \<Longrightarrow> prefix (fst (f v)) xs) \<Longrightarrow> prefix (fst (act_bind (act_do a r) f)) (a # xs)"
  by (cases r) (simp_all add: act_do_def)

lemma prefix_act_of:
  "(\<And>v. r = Inr v \<Longrightarrow> prefix (fst (f v)) xs) \<Longrightarrow> prefix (fst (act_bind (act_of r) f)) xs"
  by (cases r) (simp_all add: act_of_def)

lemma prefix_act_ret: "prefix (fst (act_ret v)) xs"
  by (simp add: act_ret_def)

lemma prefix_act_bind:
  assumes "prefix (fst m) xs" and "\<And>v. snd m = Inr v \<Longrightarrow> fst m = xs \<and> prefix (fst (f v)) ys"
  shows "prefix (fst (act_bind m f)) (xs @ ys)"
  using assms by (cases "snd m") (auto simp: fst_act_bind)

text \<open>Which steps are taken.\<close>

lemma act_mem:
  "x \<in> set (fst (act_bind (act_do a r) f)) \<longleftrightarrow> x = a \<or> (\<exists>v. r = Inr v \<and> x \<in> set (fst (f v)))"
  "x \<in> set (fst (act_bind (act_of r) f)) \<longleftrightarrow> (\<exists>v. r = Inr v \<and> x \<in> set (fst (f v)))"
  "x \<notin> set (fst (act_ret v))"
  by (cases r; simp add: act_do_def act_of_def act_ret_def)+

section \<open>One-shot HTTP exchanges\<close>

text \<open>A socket error is its printed form; an \<open>io::Error\<close> becomes an \<open>anyhow\<close> message by \<open>?\<close>.\<close>

type_synonym io_error = string

definition io_ok :: "io_error option \<Rightarrow> anyhow + unit" where
  "io_ok r = (case r of None \<Rightarrow> Inr () | Some e \<Rightarrow> Inl (Msg e))"

definition io_val :: "io_error + 'a \<Rightarrow> anyhow + 'a" where
  "io_val r = (case r of Inl e \<Rightarrow> Inl (Msg e) | Inr a \<Rightarrow> Inr a)"

lemma io_simps [simp]:
  "io_ok None = Inr ()" "io_ok (Some e) = Inl (Msg e)"
  "io_val (Inl e) = Inl (Msg e)" "io_val (Inr a) = Inr a"
  by (simp_all add: io_ok_def io_val_def)

lemma io_val_Inr_iff [simp]: "io_val r = Inr a \<longleftrightarrow> r = Inr a"
  by (cases r) simp_all

text \<open>The outcomes of the calls of one exchange, and its actions.\<close>

record exchange_env =
  x_connect :: "string \<Rightarrow> io_error option"
  x_write :: "bytes \<Rightarrow> io_error option"
  x_read_to_end :: "io_error + bytes"

datatype net_act = Connect string | Write bytes | ReadToEnd

text \<open>A failed \<open>connect\<close> may carry a context, a failed write or read does not.\<close>

fun write_chunks :: "exchange_env \<Rightarrow> bytes list \<Rightarrow> (net_act, unit) act" where
  "write_chunks env [] = act_ret ()"
| "write_chunks env (b # bs) = act_then (act_do (Write b) (io_ok (x_write env b))) (write_chunks env bs)"

definition add_context :: "string option \<Rightarrow> anyhow + 'a \<Rightarrow> anyhow + 'a" where
  "add_context c r = (case c of None \<Rightarrow> r | Some s \<Rightarrow> with_context s r)"

lemma add_context_Inr [simp]: "add_context c (Inr a) = Inr a"
  by (simp add: add_context_def split: option.split)

lemma add_context_Inl: "\<exists>e'. add_context c (Inl e) = Inl e'"
  by (simp add: add_context_def split: option.split)

definition http_exchange ::
  "exchange_env \<Rightarrow> string option \<Rightarrow> string \<Rightarrow> bytes list \<Rightarrow> (net_act, bytes) act" where
  "http_exchange env ctx addr chunks =
     act_then (act_do (Connect addr) (add_context ctx (io_ok (x_connect env addr))))
       (act_then (write_chunks env chunks) (act_do ReadToEnd (io_val (x_read_to_end env))))"

definition all_ok :: "exchange_env \<Rightarrow> string \<Rightarrow> bytes list \<Rightarrow> bool" where
  "all_ok env addr chunks \<longleftrightarrow> x_connect env addr = None \<and> (\<forall>b \<in> set chunks. x_write env b = None)"

lemma write_chunks_ok:
  "\<forall>b \<in> set chunks. x_write env b = None \<Longrightarrow> write_chunks env chunks = (map Write chunks, Inr ())"
  by (induction chunks) (simp_all add: act_defs)

lemma http_exchange_ok:
  assumes "all_ok env addr chunks"
  shows "http_exchange env ctx addr chunks =
    (Connect addr # map Write chunks @ [ReadToEnd], io_val (x_read_to_end env))"
  using assms by (simp add: http_exchange_def all_ok_def act_defs write_chunks_ok)

lemma write_chunks_result:
  "snd (write_chunks env chunks) = Inr () \<longleftrightarrow> (\<forall>b \<in> set chunks. x_write env b = None)"
proof (induction chunks)
  case Nil
  then show ?case by (simp add: act_defs)
next
  case (Cons b bs)
  then show ?case by (cases "x_write env b") (simp_all add: act_defs)
qed

text \<open>What goes out is always a prefix of the request, whatever fails.\<close>

lemma write_chunks_prefix: "prefix (fst (write_chunks env chunks)) (map Write chunks)"
proof (induction chunks)
  case Nil
  then show ?case by (simp add: act_defs)
next
  case (Cons b bs)
  then show ?case by (cases "x_write env b") (simp_all add: act_defs)
qed

lemma http_exchange_prefix:
  "prefix (fst (http_exchange env ctx addr chunks)) (Connect addr # map Write chunks @ [ReadToEnd])"
proof (cases "x_connect env addr")
  case None
  obtain ws r where w: "write_chunks env chunks = (ws, r)" by (cases "write_chunks env chunks")
  then have "prefix ws (map Write chunks)" using write_chunks_prefix [of env chunks] by simp
  moreover have "ws = map Write chunks" if "r = Inr ()"
    using that w write_chunks_result [of env chunks] write_chunks_ok [of chunks env] by simp
  ultimately show ?thesis using None w
    by (cases r) (auto simp: http_exchange_def act_defs)
next
  case (Some e)
  obtain e' where "add_context ctx (Inl (Msg e) :: anyhow + unit) = Inl e'"
    using add_context_Inl by blast
  with Some show ?thesis by (simp add: http_exchange_def act_defs)
qed

text \<open>A response was read only when every call succeeded, and then the request went out whole.\<close>

lemma http_exchange_Inr:
  "snd (http_exchange env ctx addr chunks) = Inr resp \<longleftrightarrow>
     all_ok env addr chunks \<and> x_read_to_end env = Inr resp"
proof (cases "x_connect env addr")
  case None
  obtain ws r where w: "write_chunks env chunks = (ws, r)" by (cases "write_chunks env chunks")
  then show ?thesis using None write_chunks_result [of env chunks]
    by (cases r; cases "x_read_to_end env") (auto simp: http_exchange_def act_defs all_ok_def)
next
  case (Some e)
  obtain e' where "add_context ctx (Inl (Msg e) :: anyhow + unit) = Inl e'"
    using add_context_Inl by blast
  with Some show ?thesis by (simp add: http_exchange_def act_defs all_ok_def)
qed

section \<open>Status lines\<close>

text \<open>The first line of a response, trimmed; empty when it is not UTF-8.\<close>

definition first_line :: "bytes \<Rightarrow> string" where
  "first_line resp =
     trim (case from_utf8 (takeWhile (\<lambda>b. b \<noteq> LF) resp) of None \<Rightarrow> [] | Some s \<Rightarrow> s)"

lemma first_line_text:
  assumes "LF \<notin> set l" "is_ascii l" "l \<noteq> []" "graphic (hd l)" "graphic (last l)" "list_all is_ws1 b" "LF \<notin> set b"
  shows "first_line (l @ b @ LF # rest) = l"
proof -
  have "is_ascii b" using assms(6) by (auto simp: list_all_iff is_ascii_def is_ws1_def)
  moreover have "takeWhile (\<lambda>x. x \<noteq> LF) (l @ b @ LF # rest) = l @ b"
    using assms(1,7) by (simp add: takeWhile_append)
  ultimately show ?thesis
    using trim_text [of "[]" b l] assms by (simp add: first_line_def)
qed

end
