(* ===== verification/Tls_Config.thy ===== *)
theory Tls_Config
  imports Net_Io
begin

text \<open>
  \<open>conduit/src/tls_config.rs\<close>: the TLS configurations built from PEM bytes. Parsing PEM
  (\<open>rustls_pemfile\<close>) and building the configurations (\<open>rustls\<close>) are third-party code, a record
  of functions \<open>tls_lib\<close>; what is modelled is which certificates, key and trust anchors the
  code hands to it, and which error it reports.
\<close>

section \<open>The TLS library\<close>

record ('cert, 'key, 'roots, 'verif, 'ccfg, 'scfg) tls_lib =
  pem_certs :: "bytes \<Rightarrow> (io_error + 'cert) list"
  pem_pkcs8 :: "bytes \<Rightarrow> (io_error + 'key) list"
  pem_ec :: "bytes \<Rightarrow> (io_error + 'key) list"
  roots_empty :: 'roots
  roots_add :: "'roots \<Rightarrow> 'cert \<Rightarrow> io_error + 'roots"
  build_client :: "'roots \<Rightarrow> 'cert list \<Rightarrow> 'key \<Rightarrow> io_error + 'ccfg"
  build_verifier :: "'roots \<Rightarrow> io_error + 'verif"
  build_server :: "'verif \<Rightarrow> 'cert list \<Rightarrow> 'key \<Rightarrow> io_error + 'scfg"

section \<open>Helpers\<close>

definition load_certs :: "('c, 'k, 'r, 'v, 'cc, 'sc) tls_lib \<Rightarrow> bytes \<Rightarrow> anyhow + 'c list" where
  "load_certs L pem = with_context ''parse certificate PEM'' (io_val (collect_results (pem_certs L pem)))"

definition load_key :: "('c, 'k, 'r, 'v, 'cc, 'sc) tls_lib \<Rightarrow> bytes \<Rightarrow> anyhow + 'k" where
  "load_key L pem =
     (case pem_pkcs8 L pem of
        key # _ \<Rightarrow> with_context ''parse PKCS#8 private key PEM'' (io_val key)
      | [] \<Rightarrow>
          (case pem_ec L pem of
             key # _ \<Rightarrow> with_context ''parse EC private key PEM'' (io_val key)
           | [] \<Rightarrow> Inl (Msg ''no supported private key found in PEM'')))"

fun add_roots :: "('c, 'k, 'r, 'v, 'cc, 'sc) tls_lib \<Rightarrow> 'r \<Rightarrow> (io_error + 'c) list \<Rightarrow> anyhow + 'r" where
  "add_roots L store [] = Inr store"
| "add_roots L store (cert # rest) =
     (case with_context ''parse root CA cert'' (io_val cert) of
        Inl e \<Rightarrow> Inl e
      | Inr c \<Rightarrow>
          (case with_context ''add root CA to store'' (io_val (roots_add L store c)) of
             Inl e \<Rightarrow> Inl e
           | Inr store' \<Rightarrow> add_roots L store' rest))"

definition root_store :: "('c, 'k, 'r, 'v, 'cc, 'sc) tls_lib \<Rightarrow> bytes \<Rightarrow> anyhow + 'r" where
  "root_store L root_ca = add_roots L (roots_empty L) (pem_certs L root_ca)"

section \<open>The configurations\<close>

definition client_config ::
  "('c, 'k, 'r, 'v, 'cc, 'sc) tls_lib \<Rightarrow> bytes \<Rightarrow> bytes \<Rightarrow> bytes \<Rightarrow> anyhow + 'cc" where
  "client_config L leaf key_pem root_ca =
     (case load_certs L leaf of Inl e \<Rightarrow> Inl e | Inr leaf_certs \<Rightarrow>
      (case load_key L key_pem of Inl e \<Rightarrow> Inl e | Inr key \<Rightarrow>
       (case root_store L root_ca of Inl e \<Rightarrow> Inl e | Inr roots \<Rightarrow>
        with_context ''build client TLS config'' (io_val (build_client L roots leaf_certs key)))))"

definition server_config ::
  "('c, 'k, 'r, 'v, 'cc, 'sc) tls_lib \<Rightarrow> bytes \<Rightarrow> bytes \<Rightarrow> bytes \<Rightarrow> anyhow + 'sc" where
  "server_config L leaf key_pem root_ca =
     (case load_certs L leaf of Inl e \<Rightarrow> Inl e | Inr leaf_certs \<Rightarrow>
      (case load_key L key_pem of Inl e \<Rightarrow> Inl e | Inr key \<Rightarrow>
       (case root_store L root_ca of Inl e \<Rightarrow> Inl e | Inr roots \<Rightarrow>
        (case with_context ''build client verifier'' (io_val (build_verifier L roots)) of
           Inl e \<Rightarrow> Inl e
         | Inr verifier \<Rightarrow>
             with_context ''build server TLS config'' (io_val (build_server L verifier leaf_certs key))))))"

section \<open>What the helpers accept\<close>

lemma load_certs_Inr: "load_certs L pem = Inr cs \<longleftrightarrow> pem_certs L pem = map Inr cs"
  by (auto simp: load_certs_def dest: collect_results_Inr)

text \<open>The key is the first PKCS#8 key or, when there is no PKCS#8 item at all, the first EC key.\<close>

definition first_key :: "('c, 'k, 'r, 'v, 'cc, 'sc) tls_lib \<Rightarrow> bytes \<Rightarrow> 'k \<Rightarrow> bool" where
  "first_key L pem k \<longleftrightarrow>
     (\<exists>rest. pem_pkcs8 L pem = Inr k # rest) \<or> pem_pkcs8 L pem = [] \<and> (\<exists>rest. pem_ec L pem = Inr k # rest)"

lemma load_key_Inr: "load_key L pem = Inr k \<longleftrightarrow> first_key L pem k"
  by (auto simp: load_key_def first_key_def split: list.splits)

text \<open>The trust anchors: every certificate of the PEM, none skipped.\<close>

fun add_all :: "('c, 'k, 'r, 'v, 'cc, 'sc) tls_lib \<Rightarrow> 'r \<Rightarrow> 'c list \<Rightarrow> 'r option" where
  "add_all L r [] = Some r"
| "add_all L r (c # cs) = (case roots_add L r c of Inl e \<Rightarrow> None | Inr r' \<Rightarrow> add_all L r' cs)"

lemma add_roots_Inr:
  "add_roots L r items = Inr r' \<longleftrightarrow> (\<exists>cs. items = map Inr cs \<and> add_all L r cs = Some r')"
proof (induction items arbitrary: r)
  case Nil
  then show ?case by auto
next
  case (Cons c items)
  show ?case
  proof (cases c)
    case (Inl e)
    then show ?thesis by auto
  next
    case (Inr c')
    show ?thesis
    proof (cases "roots_add L r c'")
      case (Inl e)
      then show ?thesis using Inr by (auto simp: Cons_eq_map_conv)
    next
      case (Inr r'')
      then show ?thesis using \<open>c = Inr c'\<close> Cons.IH [of r''] by (auto simp: Cons_eq_map_conv)
    qed
  qed
qed

definition anchors :: "('c, 'k, 'r, 'v, 'cc, 'sc) tls_lib \<Rightarrow> bytes \<Rightarrow> 'r \<Rightarrow> bool" where
  "anchors L pem r \<longleftrightarrow> (\<exists>cs. pem_certs L pem = map Inr cs \<and> add_all L (roots_empty L) cs = Some r)"

lemma root_store_Inr: "root_store L pem = Inr r \<longleftrightarrow> anchors L pem r"
  by (simp add: root_store_def add_roots_Inr anchors_def)

text \<open>When a server configuration exists, and what it consists of.\<close>

lemma server_config_Inr:
  "server_config L leaf key root = Inr sc \<longleftrightarrow>
     (\<exists>cs k r v. pem_certs L leaf = map Inr cs \<and> first_key L key k \<and> anchors L root r
        \<and> build_verifier L r = Inr v \<and> build_server L v cs k = Inr sc)"
  unfolding load_certs_Inr [symmetric] load_key_Inr [symmetric] root_store_Inr [symmetric] server_config_def
  by (auto split: sum.split)

section \<open>A concrete library\<close>

text \<open>Every PEM is one item, its own bytes; it serves the witnesses.\<close>

definition ex_lib :: "(bytes, bytes, bytes list, unit, bytes list, unit) tls_lib" where
  "ex_lib = \<lparr>pem_certs = (\<lambda>p. [Inr p]), pem_pkcs8 = (\<lambda>p. [Inr p]), pem_ec = (\<lambda>p. []), roots_empty = [],
             roots_add = (\<lambda>r c. Inr (c # r)), build_client = (\<lambda>r cs k. Inr (k # cs @ r)),
             build_verifier = (\<lambda>r. Inr ()), build_server = (\<lambda>v cs k. Inr ())\<rparr>"

section \<open>Properties\<close>

text \<open>
  Mutual TLS is configured with the given material and nothing else. Both configurations
  exist exactly when every certificate of the leaf PEM and of the root PEM parses, a key is found
  and the library accepts them. The client presents the leaf chain with that key and trusts
  exactly the roots; the server presents the leaf chain and demands a client certificate checked
  by a verifier over exactly the roots.
\<close>

theorem tls_configs_use_given_material:
  "(client_config L leaf key root = Inr cc \<longleftrightarrow>
     (\<exists>cs k r. pem_certs L leaf = map Inr cs \<and> first_key L key k \<and> anchors L root r
        \<and> build_client L r cs k = Inr cc)) \<and>
   (server_config L leaf key root = Inr sc \<longleftrightarrow>
     (\<exists>cs k r v. pem_certs L leaf = map Inr cs \<and> first_key L key k \<and> anchors L root r
        \<and> build_verifier L r = Inr v \<and> build_server L v cs k = Inr sc))"
proof
  show "client_config L leaf key root = Inr cc \<longleftrightarrow>
     (\<exists>cs k r. pem_certs L leaf = map Inr cs \<and> first_key L key k \<and> anchors L root r
        \<and> build_client L r cs k = Inr cc)"
    unfolding load_certs_Inr [symmetric] load_key_Inr [symmetric] root_store_Inr [symmetric] client_config_def
    by (simp split: sum.split)
  show "server_config L leaf key root = Inr sc \<longleftrightarrow>
     (\<exists>cs k r v. pem_certs L leaf = map Inr cs \<and> first_key L key k \<and> anchors L root r
        \<and> build_verifier L r = Inr v \<and> build_server L v cs k = Inr sc)"
    by (rule server_config_Inr)
qed

end
