(* ===== verification/Cert_Store.thy ===== *)
theory Cert_Store
  imports Mesh_Prelude
begin

text \<open>
  \<open>crates/meshlite-tls/src/cert_store.rs\<close>: the in-memory store of the certificates issued by
  Sigil, one entry per service. Operations that look at an arbitrary entry
  (\<open>values().next()\<close>) take the iteration order of the map.
\<close>

section \<open>State\<close>

record StoredCert =
  leaf_cert_pem :: bytes
  root_ca_pem :: bytes
  private_key_pem :: bytes

record CertStore =
  certs :: "string \<rightharpoonup> StoredCert"

section \<open>Operations\<close>

definition cs_new :: CertStore where
  "cs_new = \<lparr>certs = Map.empty\<rparr>"

definition cs_update :: "CertStore \<Rightarrow> string \<Rightarrow> bytes \<Rightarrow> bytes \<Rightarrow> bytes \<Rightarrow> CertStore" where
  "cs_update st service_id leaf root key =
     st\<lparr>certs := (certs st)(service_id \<mapsto>
          \<lparr>leaf_cert_pem = leaf, root_ca_pem = root, private_key_pem = key\<rparr>)\<rparr>"

definition cs_has_any :: "CertStore \<Rightarrow> bool" where
  "cs_has_any st \<longleftrightarrow> certs st \<noteq> Map.empty"

definition cs_root_ca_pem :: "CertStore \<Rightarrow> string list \<Rightarrow> bytes option" where
  "cs_root_ca_pem st ks = map_option root_ca_pem (first_value (certs st) ks)"

definition cs_leaf_cert_pem :: "CertStore \<Rightarrow> string \<Rightarrow> bytes option" where
  "cs_leaf_cert_pem st service_id = map_option leaf_cert_pem (certs st service_id)"

definition cs_first_cert :: "CertStore \<Rightarrow> string list \<Rightarrow> StoredCert option" where
  "cs_first_cert st ks = first_value (certs st) ks"

definition cs_default :: CertStore where
  "cs_default = cs_new"

lemmas cs_defs = cs_new_def cs_update_def cs_has_any_def cs_root_ca_pem_def
  cs_leaf_cert_pem_def cs_first_cert_def cs_default_def

section \<open>The contract of a certificate store\<close>

text \<open>
  What the TLS clients rely on: a store that has received a bundle offers a certificate, and
  every certificate it offers was put there by an update.
\<close>

locale cert_provider =
  fixes update :: "'s \<Rightarrow> string \<Rightarrow> bytes \<Rightarrow> bytes \<Rightarrow> bytes \<Rightarrow> 's"
    and entries :: "'s \<Rightarrow> string \<rightharpoonup> StoredCert"
    and first :: "'s \<Rightarrow> string list \<Rightarrow> StoredCert option"
    and fresh :: 's
  assumes entries_fresh: "entries fresh = Map.empty"
    and entries_update: "entries (update s k l r p) =
      (entries s)(k \<mapsto> \<lparr>leaf_cert_pem = l, root_ca_pem = r, private_key_pem = p\<rparr>)"
    and first_entry: "first s ks = Some c \<Longrightarrow> c \<in> ran (entries s)"
    and first_None: "iter_order (entries s) ks \<Longrightarrow> first s ks = None \<longleftrightarrow> entries s = Map.empty"
begin

lemma first_after_update:
  "iter_order (entries (update s k l r p)) ks \<Longrightarrow> \<exists>c. first (update s k l r p) ks = Some c"
  using first_None [of "update s k l r p" ks] by (auto simp: entries_update)

lemma first_single:
  assumes "iter_order (entries (update fresh k l r p)) ks"
  shows "first (update fresh k l r p) ks =
    Some \<lparr>leaf_cert_pem = l, root_ca_pem = r, private_key_pem = p\<rparr>"
proof -
  obtain c where c: "first (update fresh k l r p) ks = Some c"
    using first_after_update [OF assms] by blast
  then have "c \<in> ran (entries (update fresh k l r p))" by (rule first_entry)
  then show ?thesis using c by (simp add: entries_update entries_fresh)
qed

text \<open>When every update carries the same root, the root of an arbitrary entry is that root.\<close>

lemma common_root:
  assumes "\<And>c. c \<in> ran (entries s) \<Longrightarrow> root_ca_pem c = r0"
    and "first (update s k l r0 p) ks = Some c"
  shows "root_ca_pem c = r0"
proof -
  from assms(2) have "c \<in> ran (entries (update s k l r0 p))" by (rule first_entry)
  then show ?thesis using assms(1) by (auto simp: entries_update ran_def split: if_splits)
qed

end

interpretation cs: cert_provider cs_update certs cs_first_cert cs_new
  by unfold_locales (auto simp: cs_defs first_value_None dest: first_value_ran)

section \<open>Behaviour\<close>

lemma cs_leaf_update:
  "cs_leaf_cert_pem (cs_update st s l r k) s' = (if s' = s then Some l else cs_leaf_cert_pem st s')"
  by (simp add: cs_defs)

lemma cs_leaf_new: "cs_leaf_cert_pem cs_new s = None"
  by (simp add: cs_defs)

text \<open>Every entry of a store built by updates is the payload of one of them.\<close>

lemma cs_run_entries:
  "c \<in> ran (certs (foldl (\<lambda>st (s, l, r, k). cs_update st s l r k) cs_new bs)) \<Longrightarrow>
   \<exists>s. (s, leaf_cert_pem c, root_ca_pem c, private_key_pem c) \<in> set bs"
proof (induction bs rule: rev_induct)
  case Nil
  then show ?case by (simp add: cs_defs)
next
  case (snoc b bs)
  then show ?case by (cases b) (auto simp: cs_update_def ran_def split: if_splits)
qed

lemma cs_update_overwrites:
  "cs_update (cs_update st s l r k) s l' r' k' = cs_update st s l' r' k'"
  by (simp add: cs_defs)

lemma cs_has_any_update [simp]: "cs_has_any (cs_update st s l r k)"
  by (simp add: cs_defs)

lemma cs_has_any_new [simp]: "\<not> cs_has_any cs_new"
  by (simp add: cs_defs)

lemma cs_has_any_first:
  "iter_order (certs st) ks \<Longrightarrow> cs_has_any st \<longleftrightarrow> (\<exists>c. cs_first_cert st ks = Some c)"
  using cs.first_None [of st ks] by (auto simp: cs_has_any_def)

lemma cs_root_first: "cs_root_ca_pem st ks = map_option root_ca_pem (cs_first_cert st ks)"
  by (simp add: cs_defs)

section \<open>Properties\<close>

text \<open>
  After any sequence of bundles the store holds, for every service, the leaf certificate of
  the last bundle received for it, and nothing for a service that received none; whatever
  certificate it offers for the TLS client is one of the bundles received.
\<close>

theorem cert_store_last_bundle_wins:
  "cs_leaf_cert_pem (foldl (\<lambda>st (s, l, r, k). cs_update st s l r k) cs_new bs) svc =
     map_option (\<lambda>(s, l, r, k). l) (find (\<lambda>(s, l, r, k). s = svc) (rev bs)) \<and>
   (case cs_first_cert (foldl (\<lambda>st (s, l, r, k). cs_update st s l r k) cs_new bs) ks of
      None \<Rightarrow> True
    | Some c \<Rightarrow> (\<exists>s. (s, leaf_cert_pem c, root_ca_pem c, private_key_pem c) \<in> set bs))"
proof
  show "cs_leaf_cert_pem (foldl (\<lambda>st (s, l, r, k). cs_update st s l r k) cs_new bs) svc =
     map_option (\<lambda>(s, l, r, k). l) (find (\<lambda>(s, l, r, k). s = svc) (rev bs))"
    by (induction bs rule: rev_induct) (auto simp: cs_leaf_update cs_leaf_new)
  show "case cs_first_cert (foldl (\<lambda>st (s, l, r, k). cs_update st s l r k) cs_new bs) ks of
      None \<Rightarrow> True
    | Some c \<Rightarrow> (\<exists>s. (s, leaf_cert_pem c, root_ca_pem c, private_key_pem c) \<in> set bs)"
    by (auto split: option.split dest: cs.first_entry cs_run_entries)
qed

end
