(* ===== verification/Sigil_Client.thy ===== *)
theory Sigil_Client
  imports Tls_Config Cert_Store Policy_Cache
begin

text \<open>
  \<open>kprobe/kprobe-userspace/src/sigil_client.rs\<close>: the streaming client of the agent, a state
  machine over the three states of the source and the two streams it reads. Everything the
  network answers is an event; a step takes an event to the next state and the list of effects
  (dialling, the AgentHello sent, the pushes applied, the notifications of VerdictSync, the
  pauses). An event that cannot occur in a state has no step. The TLS and gRPC libraries are
  parameters.
\<close>

section \<open>Messages\<close>

record CertBundle =
  cb_service_id :: string
  cb_service_cert_pem :: bytes
  cb_root_ca_pem :: bytes
  cb_expires_at_unix :: int
  cb_rotate_at_unix :: int
  cb_key_pem :: bytes

record ProtoRule =
  pr_from_service :: string
  pr_to_services :: "string list"

record PolicyBundle =
  pb_rules :: "ProtoRule list"
  pb_default_allow :: bool
  pb_mtls_mode :: string

datatype Payload = CertPush CertBundle | PolicyPush PolicyBundle

record AgentHello =
  ah_node_id :: string
  ah_cluster_id :: string
  ah_pod_service_ids :: "string list"

section \<open>State\<close>

text \<open>
  The states of the source, with the point inside \<open>Bootstrap\<close> and \<open>ConnectedTLS\<close> at which the
  client is reading its stream.
\<close>

datatype State = Bootstrap | BootstrapStream | UpgradingTLS | ConnectedTLS | ConnectedStream

record SigilClient =
  sigil_addr :: string
  node_id :: string
  cluster_id :: string

definition sc_new :: "string \<Rightarrow> string \<Rightarrow> string \<Rightarrow> SigilClient" where
  "sc_new addr node cluster = \<lparr>sigil_addr = addr, node_id = node, cluster_id = cluster\<rparr>"

record SigilState =
  sg_state :: State
  sg_store :: CertStore
  sg_policy :: PolicyCache

definition sg_init :: SigilState where
  "sg_init = \<lparr>sg_state = Bootstrap, sg_store = cs_new, sg_policy = pc_new\<rparr>"

section \<open>Helpers\<close>

text \<open>The identities announced: the services of the snapshot, in the order of its keys, and the node.\<close>

definition make_hello :: "SigilClient \<Rightarrow> string list \<Rightarrow> AgentHello" where
  "make_hello c keys =
     \<lparr>ah_node_id = node_id c, ah_cluster_id = cluster_id c,
      ah_pod_service_ids = (if node_id c \<in> set keys then keys else node_id c # keys)\<rparr>"

definition bootstrap_url :: "SigilClient \<Rightarrow> string" where
  "bootstrap_url c = ''http://'' @ str_replace '':8443'' '':8444'' (sigil_addr c)"

text \<open>
  \<open>endpoint\<close> stands for tonic's \<open>Endpoint\<close> with a \<open>ClientTlsConfig\<close>: URL, client certificate,
  client key, root certificate.
\<close>

fun add_ders :: "('c, 'k, 'r, 'v, 'cc, 'sc) tls_lib \<Rightarrow> 'r \<Rightarrow> 'c list \<Rightarrow> io_error + 'r" where
  "add_ders L r [] = Inr r"
| "add_ders L r (c # cs) = (case roots_add L r c of Inl e \<Rightarrow> Inl e | Inr r' \<Rightarrow> add_ders L r' cs)"

definition build_tls_channel ::
  "('c, 'k, 'r, 'v, 'cc, 'sc) tls_lib \<Rightarrow> (string \<Rightarrow> bytes \<Rightarrow> bytes \<Rightarrow> bytes \<Rightarrow> io_error + 'chan) \<Rightarrow>
   string \<Rightarrow> CertStore \<Rightarrow> string list \<Rightarrow> io_error + 'chan" where
  "build_tls_channel L endpoint addr store ks =
     (case cs_first_cert store ks of
        None \<Rightarrow> Inl ''CertStore is empty''
      | Some cert \<Rightarrow>
          (let root_certs = oks (pem_certs L (root_ca_pem cert)) in
           if root_certs = [] then Inl ''CertStore root CA PEM contains no certificates''
           else
             (case oks (pem_pkcs8 L (private_key_pem cert)) of
                [] \<Rightarrow> Inl ''No PKCS#8 private key found in PEM''
              | private_key # _ \<Rightarrow>
                  (case add_ders L (roots_empty L) root_certs of
                     Inl e \<Rightarrow> Inl e
                   | Inr root_cert_store \<Rightarrow>
                       endpoint (''https://'' @ addr) (leaf_cert_pem cert) (private_key_pem cert)
                         (root_ca_pem cert)))))"

definition apply_policy_bundle :: "PolicyBundle \<Rightarrow> PolicyCache \<Rightarrow> PolicyCache" where
  "apply_policy_bundle pb cache =
     pc_update cache
       (map (\<lambda>r. \<lparr>from_service = pr_from_service r, to_services = pr_to_services r\<rparr>) (pb_rules pb))
       (pb_default_allow pb) (pb_mtls_mode pb)"

definition apply_cert_bundle :: "CertBundle \<Rightarrow> CertStore \<Rightarrow> CertStore" where
  "apply_cert_bundle b store =
     cs_update store (cb_service_id b) (cb_service_cert_pem b) (cb_root_ca_pem b) (cb_key_pem b)"

section \<open>Events, effects and the step\<close>

text \<open>
  \<open>BootAttempt keys connected subscribed\<close> is an attempt over plaintext, \<open>TlsAttempt ks keys
  subscribed\<close> one over TLS (\<open>ks\<close> is the iteration order of the certificate store, \<open>keys\<close> that of
  the pod snapshot); \<open>Message\<close> is a push on the open stream and \<open>StreamEnd\<close> its end or error.
\<close>

datatype SigilEvent =
    BootAttempt "string list" bool bool
  | TlsAttempt "string list" "string list" bool
  | Message "Payload option"
  | StreamEnd

datatype SigilEffect =
    DialPlain string
  | DialTls string
  | Hello AgentHello
  | Applied Payload
  | Notify
  | Sleep

definition on_push :: "SigilState \<Rightarrow> Payload \<Rightarrow> SigilState" where
  "on_push s p =
     (case p of
        CertPush b \<Rightarrow> s\<lparr>sg_store := apply_cert_bundle b (sg_store s)\<rparr>
      | PolicyPush b \<Rightarrow> s\<lparr>sg_policy := apply_policy_bundle b (sg_policy s)\<rparr>)"

definition sigil_step ::
  "('c, 'k, 'r, 'v, 'cc, 'sc) tls_lib \<Rightarrow> (string \<Rightarrow> bytes \<Rightarrow> bytes \<Rightarrow> bytes \<Rightarrow> io_error + 'chan) \<Rightarrow>
   SigilClient \<Rightarrow> SigilState \<Rightarrow> SigilEvent \<Rightarrow> (SigilState \<times> SigilEffect list) option" where
  "sigil_step L endpoint c s ev =
     (case sg_state s of
        Bootstrap \<Rightarrow>
          (case ev of
             BootAttempt keys connected subscribed \<Rightarrow>
               (if \<not> connected then Some (s, [DialPlain (bootstrap_url c), Sleep])
                else if \<not> subscribed then Some (s, [DialPlain (bootstrap_url c), Hello (make_hello c keys), Sleep])
                else Some (s\<lparr>sg_state := BootstrapStream\<rparr>, [DialPlain (bootstrap_url c), Hello (make_hello c keys)]))
           | _ \<Rightarrow> None)
      | BootstrapStream \<Rightarrow>
          (case ev of
             Message (Some (CertPush b)) \<Rightarrow>
               Some ((on_push s (CertPush b))\<lparr>sg_state := UpgradingTLS\<rparr>, [Applied (CertPush b), Notify])
           | Message (Some (PolicyPush b)) \<Rightarrow> Some (on_push s (PolicyPush b), [Applied (PolicyPush b), Notify])
           | Message None \<Rightarrow> Some (s, [])
           | StreamEnd \<Rightarrow> Some (s\<lparr>sg_state := Bootstrap\<rparr>, [Sleep])
           | _ \<Rightarrow> None)
      | UpgradingTLS \<Rightarrow>
          (case ev of
             TlsAttempt ks keys subscribed \<Rightarrow>
               (case build_tls_channel L endpoint (sigil_addr c) (sg_store s) ks of
                  Inl e \<Rightarrow> Some (s\<lparr>sg_state := Bootstrap\<rparr>, [Sleep])
                | Inr chan \<Rightarrow>
                    (if subscribed
                     then Some (s\<lparr>sg_state := ConnectedTLS\<rparr>, [DialTls (sigil_addr c), Hello (make_hello c keys)])
                     else Some (s, [DialTls (sigil_addr c), Hello (make_hello c keys), Sleep])))
           | _ \<Rightarrow> None)
      | ConnectedTLS \<Rightarrow>
          (case ev of
             TlsAttempt ks keys subscribed \<Rightarrow>
               (case build_tls_channel L endpoint (sigil_addr c) (sg_store s) ks of
                  Inl e \<Rightarrow> Some (s\<lparr>sg_state := UpgradingTLS\<rparr>, [Sleep])
                | Inr chan \<Rightarrow>
                    (if subscribed
                     then Some (s\<lparr>sg_state := ConnectedStream\<rparr>, [DialTls (sigil_addr c), Hello (make_hello c keys)])
                     else Some (s\<lparr>sg_state := UpgradingTLS\<rparr>,
                                [DialTls (sigil_addr c), Hello (make_hello c keys), Sleep])))
           | _ \<Rightarrow> None)
      | ConnectedStream \<Rightarrow>
          (case ev of
             Message (Some p) \<Rightarrow> Some (on_push s p, [Applied p, Notify])
           | Message None \<Rightarrow> Some (s, [])
           | StreamEnd \<Rightarrow> Some (s\<lparr>sg_state := UpgradingTLS\<rparr>, [Sleep])
           | _ \<Rightarrow> None))"

text \<open>A run: the events that cannot occur are skipped.\<close>

fun sigil_run ::
  "('c, 'k, 'r, 'v, 'cc, 'sc) tls_lib \<Rightarrow> (string \<Rightarrow> bytes \<Rightarrow> bytes \<Rightarrow> bytes \<Rightarrow> io_error + 'chan) \<Rightarrow>
   SigilClient \<Rightarrow> SigilState \<Rightarrow> SigilEvent list \<Rightarrow> SigilState \<times> SigilEffect list" where
  "sigil_run L endpoint c s [] = (s, [])"
| "sigil_run L endpoint c s (ev # evs) =
     (case sigil_step L endpoint c s ev of
        None \<Rightarrow> sigil_run L endpoint c s evs
      | Some (s', effs) \<Rightarrow>
          (case sigil_run L endpoint c s' evs of (s'', effs') \<Rightarrow> (s'', effs @ effs')))"

section \<open>The invariant of the TLS states\<close>

definition sg_next ::
  "('c, 'k, 'r, 'v, 'cc, 'sc) tls_lib \<Rightarrow> (string \<Rightarrow> bytes \<Rightarrow> bytes \<Rightarrow> bytes \<Rightarrow> io_error + 'chan) \<Rightarrow>
   SigilClient \<Rightarrow> SigilState \<Rightarrow> SigilEvent \<Rightarrow> SigilState" where
  "sg_next L endpoint c s ev = (case sigil_step L endpoint c s ev of None \<Rightarrow> s | Some (s', effs) \<Rightarrow> s')"

definition over_tls :: "State \<Rightarrow> bool" where
  "over_tls st \<longleftrightarrow> st = UpgradingTLS \<or> st = ConnectedTLS \<or> st = ConnectedStream"

definition sg_inv :: "SigilState \<Rightarrow> bool" where
  "sg_inv s \<longleftrightarrow> (over_tls (sg_state s) \<longrightarrow> cs_has_any (sg_store s))"

lemma cs_has_any_cert [simp]: "cs_has_any (apply_cert_bundle b st)"
  by (simp add: apply_cert_bundle_def)

lemma on_push_sel [simp]:
  "sg_state (on_push s p) = sg_state s"
  "sg_policy (on_push s (CertPush b)) = sg_policy s"
  "sg_store (on_push s (CertPush b)) = apply_cert_bundle b (sg_store s)"
  "sg_policy (on_push s (PolicyPush pb)) = apply_policy_bundle pb (sg_policy s)"
  "sg_store (on_push s (PolicyPush pb)) = sg_store s"
  by (simp_all add: on_push_def split: Payload.split)

lemma cs_has_any_push: "cs_has_any (sg_store s) \<Longrightarrow> cs_has_any (sg_store (on_push s p))"
  by (cases p) simp_all

lemma sg_inv_step: "sg_inv s \<Longrightarrow> sigil_step L endpoint c s ev = Some (s', effs) \<Longrightarrow> sg_inv s'"
  by (auto simp: sg_inv_def over_tls_def sigil_step_def cs_has_any_push
      split: State.splits SigilEvent.splits option.splits Payload.splits sum.splits if_splits)

interpretation sg: event_machine "sg_next L endpoint c" sg_inv for L endpoint c
proof
  fix s ev
  show "sg_inv s \<Longrightarrow> sg_inv (sg_next L endpoint c s ev)"
    by (auto simp: sg_next_def split: option.split intro: sg_inv_step)
qed

lemma sigil_run_fst: "fst (sigil_run L endpoint c s evs) = foldl (sg_next L endpoint c) s evs"
  by (induction evs arbitrary: s) (simp_all add: sg_next_def prod.case_eq_if split: option.split)

lemma sg_inv_init [simp]: "sg_inv sg_init"
  by (simp add: sg_inv_def sg_init_def over_tls_def)

section \<open>Pushes and notifications\<close>

fun pushes :: "SigilEffect list \<Rightarrow> Payload list" where
  "pushes [] = []"
| "pushes (Applied p # effs) = p # pushes effs"
| "pushes (DialPlain a # effs) = pushes effs"
| "pushes (DialTls a # effs) = pushes effs"
| "pushes (Hello h # effs) = pushes effs"
| "pushes (Notify # effs) = pushes effs"
| "pushes (Sleep # effs) = pushes effs"

fun visible :: "SigilEffect \<Rightarrow> bool" where
  "visible (Applied p) = True"
| "visible Notify = True"
| "visible (DialPlain a) = False"
| "visible (DialTls a) = False"
| "visible (Hello h) = False"
| "visible Sleep = False"

lemma pushes_append [simp]: "pushes (a @ b) = pushes a @ pushes b"
  by (induction a rule: pushes.induct) simp_all

text \<open>One step applies at most one push, which it notifies; nothing else touches the data.\<close>

lemma sigil_step_data:
  assumes "sigil_step L endpoint c s ev = Some (s', effs)"
  shows "sg_store s' = sg_store (foldl on_push s (pushes effs))"
    and "sg_policy s' = sg_policy (foldl on_push s (pushes effs))"
    and "filter visible effs = concat (map (\<lambda>p. [Applied p, Notify]) (pushes effs))"
  using assms
  by (auto simp: sigil_step_def split: State.splits SigilEvent.splits option.splits Payload.splits sum.splits if_splits)

lemma foldl_push_sel:
  "sg_store s = sg_store t \<Longrightarrow> sg_policy s = sg_policy t \<Longrightarrow>
   sg_store (foldl on_push s ps) = sg_store (foldl on_push t ps) \<and>
   sg_policy (foldl on_push s ps) = sg_policy (foldl on_push t ps)"
proof (induction ps arbitrary: s t)
  case (Cons p ps)
  then show ?case by (cases p) simp_all
qed simp

lemma sigil_run_data:
  "sg_store (fst (sigil_run L endpoint c s evs)) = sg_store (foldl on_push s (pushes (snd (sigil_run L endpoint c s evs)))) \<and>
   sg_policy (fst (sigil_run L endpoint c s evs)) = sg_policy (foldl on_push s (pushes (snd (sigil_run L endpoint c s evs)))) \<and>
   filter visible (snd (sigil_run L endpoint c s evs)) =
     concat (map (\<lambda>p. [Applied p, Notify]) (pushes (snd (sigil_run L endpoint c s evs))))"
proof (induction evs arbitrary: s)
  case Nil
  then show ?case by simp
next
  case (Cons ev evs)
  show ?case
  proof (cases "sigil_step L endpoint c s ev")
    case None
    then show ?thesis using Cons.IH [of s] by simp
  next
    case (Some r)
    then obtain s' effs where st: "sigil_step L endpoint c s ev = Some (s', effs)" by (cases r) simp
    obtain s'' effs' where run: "sigil_run L endpoint c s' evs = (s'', effs')"
      by (cases "sigil_run L endpoint c s' evs")
    note d = sigil_step_data [OF st]
    show ?thesis
      using Cons.IH [of s'] st run d foldl_push_sel [OF d(1,2), of "pushes effs'"] by simp
  qed
qed

lemma foldl_push_policy:
  "sg_policy (foldl on_push s ps) =
     (case find (\<lambda>p. case p of PolicyPush pb \<Rightarrow> True | CertPush b \<Rightarrow> False) (rev ps) of
        Some (PolicyPush pb) \<Rightarrow> apply_policy_bundle pb (sg_policy s)
      | _ \<Rightarrow> sg_policy s)"
proof (induction ps rule: rev_induct)
  case (snoc p ps)
  then show ?case
    by (cases p) (auto simp: apply_policy_bundle_def pc_update_last split: option.splits Payload.splits)
qed simp

lemma foldl_push_leaf:
  "cs_leaf_cert_pem (sg_store (foldl on_push sg_init ps)) svc =
     (case find (\<lambda>p. case p of CertPush b \<Rightarrow> cb_service_id b = svc | PolicyPush pb \<Rightarrow> False) (rev ps) of
        Some (CertPush b) \<Rightarrow> Some (cb_service_cert_pem b)
      | _ \<Rightarrow> None)"
proof (induction ps rule: rev_induct)
  case Nil
  then show ?case by (simp add: sg_init_def cs_leaf_new)
next
  case (snoc p ps)
  then show ?case by (cases p) (simp_all add: apply_cert_bundle_def cs_leaf_update)
qed

section \<open>The channel\<close>

lemma add_ders_Inr: "add_ders L r cs = Inr r' \<longleftrightarrow> add_all L r cs = Some r'"
  by (induction cs arbitrary: r) (auto split: sum.split)

lemma build_tls_channel_Inr:
  "build_tls_channel L endpoint addr store ks = Inr chan \<longleftrightarrow>
     (\<exists>cert r. cs_first_cert store ks = Some cert \<and> oks (pem_certs L (root_ca_pem cert)) \<noteq> []
        \<and> oks (pem_pkcs8 L (private_key_pem cert)) \<noteq> []
        \<and> add_all L (roots_empty L) (oks (pem_certs L (root_ca_pem cert))) = Some r
        \<and> endpoint (''https://'' @ addr) (leaf_cert_pem cert) (private_key_pem cert) (root_ca_pem cert) = Inr chan)"
  by (auto simp: build_tls_channel_def Let_def add_ders_Inr [symmetric]
      split: option.split list.split sum.split)

section \<open>The announcement\<close>

lemma str_replace_none: "\<not> sublist (p # ps) s \<Longrightarrow> str_replace (p # ps) new s = s"
  by (induction s) (auto simp: str_replace_Cons sublist_Cons_right)

lemma bootstrap_url_port:
  assumes "CHR '':'' \<notin> set host"
  shows "bootstrap_url (c\<lparr>sigil_addr := host @ '':8443''\<rparr>) = ''http://'' @ host @ '':8444''"
  using str_replace_skip [OF assms, of "''8443''" "'':8444''" "'':8443''"] str_replace_hit [of "CHR '':''" "''8443''" "'':8444''" "[]"]
  by (simp add: bootstrap_url_def)

lemma str_replace_no_port: "\<not> sublist '':8443'' s \<Longrightarrow> str_replace '':8443'' new s = s"
  by (rule str_replace_none)

section \<open>A concrete client\<close>

definition ex_client :: SigilClient where
  "ex_client = \<lparr>sigil_addr = ''sigil:8443'', node_id = ''node'', cluster_id = ''dev''\<rparr>"

definition ex_bundle :: CertBundle where
  "ex_bundle = \<lparr>cb_service_id = ''node'', cb_service_cert_pem = ''leaf'', cb_root_ca_pem = ''root'',
    cb_expires_at_unix = 86400, cb_rotate_at_unix = 69120, cb_key_pem = ''key''\<rparr>"

definition ex_endpoint :: "string \<Rightarrow> bytes \<Rightarrow> bytes \<Rightarrow> bytes \<Rightarrow> io_error + string" where
  "ex_endpoint url leaf key root = Inr url"

section \<open>Properties\<close>

text \<open>
  After any events, a client in one of the TLS states holds a certificate, so building its
  channel never fails for an empty store.
\<close>

theorem tls_states_have_certificate:
  assumes "s = fst (sigil_run L endpoint c sg_init evs)"
    and "sg_state s = UpgradingTLS \<or> sg_state s = ConnectedTLS \<or> sg_state s = ConnectedStream"
    and "iter_order (certs (sg_store s)) ks"
  shows "\<exists>cert. cs_first_cert (sg_store s) ks = Some cert"
proof -
  have "sg_inv s" unfolding assms(1) sigil_run_fst by (rule sg.inv_run) simp
  then have "cs_has_any (sg_store s)" using assms(2) by (simp add: sg_inv_def over_tls_def)
  then show ?thesis by (simp add: cs_has_any_first [OF assms(3)])
qed

theorem tls_states_have_certificate_witness:
  "\<exists>cert. cs_first_cert (sg_store (fst (sigil_run ex_lib ex_endpoint ex_client sg_init
     [BootAttempt [] True True, Message (Some (CertPush ex_bundle))]))) [''node''] = Some cert"
  by (rule tls_states_have_certificate [OF refl])
    (auto simp: sigil_step_def sg_init_def on_push_def apply_cert_bundle_def ex_bundle_def iter_order_def cs_defs)


text \<open>
  The discipline of the connections. Plaintext is dialled only in \<open>Bootstrap\<close>; \<open>Bootstrap\<close> is
  re-entered from the TLS states only when the channel cannot be built; the TLS stream is reached
  only through \<open>UpgradingTLS\<close> and \<open>ConnectedTLS\<close>; and every step that leads to another attempt
  ends with the back-off pause, except the upgrade right after the first certificate.
\<close>

theorem sigil_connection_discipline:
  assumes "sigil_step L endpoint c s ev = Some (s', effs)"
  shows "(DialPlain a \<in> set effs \<longrightarrow> sg_state s = Bootstrap \<and> a = bootstrap_url c)
    \<and> (sg_state s' = Bootstrap \<longrightarrow> sg_state s = Bootstrap \<or> sg_state s = BootstrapStream
         \<or> sg_state s = UpgradingTLS \<and>
             (\<exists>ks e. build_tls_channel L endpoint (sigil_addr c) (sg_store s) ks = Inl e))
    \<and> (sg_state s' = ConnectedStream \<longrightarrow> sg_state s = ConnectedTLS \<or> sg_state s = ConnectedStream)
    \<and> (sg_state s' = ConnectedTLS \<longrightarrow> sg_state s = UpgradingTLS)
    \<and> (sg_state s' = Bootstrap \<or> sg_state s' = UpgradingTLS \<longrightarrow>
         last effs = Sleep \<or> (\<exists>b. sg_state s = BootstrapStream \<and> effs = [Applied (CertPush b), Notify]))"
  using assms
  by (auto simp: sigil_step_def split: State.splits SigilEvent.splits option.splits Payload.splits sum.splits if_splits)

theorem sigil_connection_discipline_witness:
  "sigil_step ex_lib ex_endpoint ex_client (sg_init\<lparr>sg_state := UpgradingTLS\<rparr>) (TlsAttempt [] [] True) =
     Some (sg_init, [Sleep]) \<and>
   (\<exists>ks e. build_tls_channel ex_lib ex_endpoint (sigil_addr ex_client) cs_new ks = Inl e)"
proof -
  have st: "sigil_step ex_lib ex_endpoint ex_client (sg_init\<lparr>sg_state := UpgradingTLS\<rparr>) (TlsAttempt [] [] True) =
     Some (sg_init, [Sleep])"
    by (simp add: sigil_step_def sg_init_def build_tls_channel_def cs_defs first_value_def)
  from sigil_connection_discipline [OF st] st show ?thesis by (simp add: sg_init_def)
qed



text \<open>
  Every AgentHello announces the node itself and all services of the snapshot, and nothing
  else, each once.
\<close>

theorem hello_announces_node_and_services:
  assumes "iter_order pods keys"
  shows "set (ah_pod_service_ids (make_hello c keys)) = insert (node_id c) (dom pods)
    \<and> distinct (ah_pod_service_ids (make_hello c keys))"
  using assms by (auto simp: make_hello_def iter_order_def)

theorem hello_announces_node_and_services_witness:
  "set (ah_pod_service_ids (make_hello ex_client [''alpha''])) = {''node'', ''alpha''}"
  using hello_announces_node_and_services [of "[''alpha'' \<mapsto> ()]" "[''alpha'']" ex_client]
  by (simp add: iter_order_def ex_client_def)

text \<open>
  The bootstrap address: the TLS port 8443 of the configured address becomes the plaintext
  port 8444; an address with any other port is dialled as it is, so plaintext goes to the TLS
  port.
\<close>

theorem bootstrap_address:
  assumes "CHR '':'' \<notin> set host" and "\<not> sublist '':8443'' other"
  shows "bootstrap_url \<lparr>sigil_addr = host @ '':8443'', node_id = n, cluster_id = cl\<rparr> = ''http://'' @ host @ '':8444''
    \<and> bootstrap_url \<lparr>sigil_addr = other, node_id = n, cluster_id = cl\<rparr> = ''http://'' @ other"
  using bootstrap_url_port [OF assms(1), of "\<lparr>sigil_addr = [], node_id = n, cluster_id = cl\<rparr>"]
    str_replace_no_port [OF assms(2), of "'':8444''"]
  by (simp add: bootstrap_url_def)

theorem bootstrap_address_witness:
  "bootstrap_url \<lparr>sigil_addr = ''sigil'' @ '':8443'', node_id = ''n'', cluster_id = ''dev''\<rparr> = ''http://'' @ ''sigil'' @ '':8444''
   \<and> bootstrap_url \<lparr>sigil_addr = ''sigil:9443'', node_id = ''n'', cluster_id = ''dev''\<rparr> = ''http://'' @ ''sigil:9443''"
  by (rule bootstrap_address) (simp_all add: sublist_code)

end
