(* ===== verification/Mpsc_Channel.thy ===== *)
theory Mpsc_Channel
  imports Mesh_Prelude
begin

text \<open>
  The bounded channel \<open>tokio::sync::mpsc\<close> that the agents use for telemetry, pod events and
  reconciliation requests: a queue with a capacity, \<open>try_send\<close> (fails when full), \<open>send\<close>
  (enabled only when there is room; the sender waits otherwise) and \<open>recv\<close>. The locale
  \<open>bounded_queue\<close> is the contract the clients rely on: what was received, followed by what
  is waiting, is what was accepted, in order.
\<close>

section \<open>The channel\<close>

record 'a chan =
  ch_cap :: nat
  ch_queue :: "'a list"

definition mpsc_channel :: "nat \<Rightarrow> 'a chan" where
  "mpsc_channel n = \<lparr>ch_cap = n, ch_queue = []\<rparr>"

definition try_send :: "'a chan \<Rightarrow> 'a \<Rightarrow> 'a chan option" where
  "try_send c x =
     (if length (ch_queue c) < ch_cap c then Some (c\<lparr>ch_queue := ch_queue c @ [x]\<rparr>) else None)"

definition recv :: "'a chan \<Rightarrow> ('a \<times> 'a chan) option" where
  "recv c = (case ch_queue c of [] \<Rightarrow> None | x # xs \<Rightarrow> Some (x, c\<lparr>ch_queue := xs\<rparr>))"

lemma mpsc_channel_sel [simp]: "ch_cap (mpsc_channel n) = n" "ch_queue (mpsc_channel n) = []"
  by (simp_all add: mpsc_channel_def)

section \<open>The contract of a bounded queue\<close>

datatype 'a qop = Put 'a | Take

text \<open>The values that are put.\<close>

fun puts :: "'a qop list \<Rightarrow> 'a list" where
  "puts [] = []"
| "puts (Put x # ops) = x # puts ops"
| "puts (Take # ops) = puts ops"

locale bounded_queue =
  fixes put :: "'q \<Rightarrow> 'a \<Rightarrow> 'q option"
    and take_one :: "'q \<Rightarrow> ('a \<times> 'q) option"
    and waiting :: "'q \<Rightarrow> 'a list"
    and room :: "'q \<Rightarrow> int"
  assumes put_Some: "put q x = Some q' \<Longrightarrow> waiting q' = waiting q @ [x] \<and> room q = room q' + 1 \<and> 0 < room q"
    and put_None: "put q x = None \<Longrightarrow> room q \<le> 0"
    and take_Some: "take_one q = Some (x, q') \<Longrightarrow> waiting q = x # waiting q' \<and> room q' = room q + 1"
    and take_None: "take_one q = None \<Longrightarrow> waiting q = []"
begin

text \<open>
  A run of puts (whose failures are ignored) and takes: the queue, the accepted values and the
  taken values.
\<close>

fun run :: "'q \<Rightarrow> 'a qop list \<Rightarrow> 'q \<times> 'a list \<times> 'a list" where
  "run q [] = (q, [], [])"
| "run q (Put x # ops) =
     (case put q x of
        None \<Rightarrow> run q ops
      | Some q' \<Rightarrow> (case run q' ops of (r, acc, out) \<Rightarrow> (r, x # acc, out)))"
| "run q (Take # ops) =
     (case take_one q of
        None \<Rightarrow> run q ops
      | Some (x, q') \<Rightarrow> (case run q' ops of (r, acc, out) \<Rightarrow> (r, acc, x # out)))"

text \<open>First in, first out, and nothing is lost after it was accepted.\<close>

lemma run_fifo: "run q ops = (r, acc, out) \<Longrightarrow> waiting q @ acc = out @ waiting r"
proof (induction q ops arbitrary: r acc out rule: run.induct)
  case (2 q x ops)
  show ?case
  proof (cases "put q x")
    case None
    then show ?thesis using 2 by simp
  next
    case (Some q')
    obtain r' acc' out' where run: "run q' ops = (r', acc', out')" by (cases "run q' ops")
    then have "waiting q' @ acc' = out' @ waiting r'" using "2.IH"(2) [OF Some] by simp
    then show ?thesis using "2.prems" Some run put_Some [OF Some] by simp
  qed
next
  case (3 q ops)
  show ?case
  proof (cases "take_one q")
    case None
    then show ?thesis using 3 by simp
  next
    case (Some xq)
    then obtain x q' where take: "take_one q = Some (x, q')" by (cases xq) simp
    obtain r' acc' out' where run: "run q' ops = (r', acc', out')" by (cases "run q' ops")
    then have "waiting q' @ acc' = out' @ waiting r'" using "3.IH"(2) [OF take refl] by simp
    then show ?thesis using "3.prems" take run take_Some [OF take] by simp
  qed
qed simp

text \<open>Only values that were put are accepted, in the order of the puts.\<close>

lemma run_subseq: "run q ops = (r, acc, out) \<Longrightarrow> subseq acc (puts ops)"
proof (induction q ops arbitrary: r acc out rule: run.induct)
  case (2 q x ops)
  then show ?case by (cases "put q x") (auto split: prod.splits)
next
  case (3 q ops)
  then show ?case by (cases "take_one q") (auto split: prod.splits)
qed simp

text \<open>While there is room for everything that is put, nothing is refused.\<close>

lemma run_all: "run q ops = (r, acc, out) \<Longrightarrow> int (length (puts ops)) \<le> room q \<Longrightarrow> acc = puts ops"
proof (induction q ops arbitrary: r acc out rule: run.induct)
  case (2 q x ops)
  then show ?case
    by (cases "put q x") (auto dest: put_Some put_None split: prod.splits)
next
  case (3 q ops)
  show ?case
  proof (cases "take_one q")
    case None
    then show ?thesis using 3 by simp
  next
    case (Some xq)
    then obtain x q' where take: "take_one q = Some (x, q')" by (cases xq) simp
    with "3.prems" take_Some [OF take] show ?thesis
      by (auto intro: "3.IH"(2) [OF take refl] split: prod.splits)
  qed
qed simp

lemma run_total: "run q ops = (r, acc, out) \<Longrightarrow> int (length (waiting r)) + room r = int (length (waiting q)) + room q"
proof (induction q ops arbitrary: r acc out rule: run.induct)
  case (2 q x ops)
  then show ?case by (cases "put q x") (fastforce dest: put_Some split: prod.splits)+
next
  case (3 q ops)
  show ?case
  proof (cases "take_one q")
    case None
    then show ?thesis using 3 by simp
  next
    case (Some xq)
    then obtain x q' where take: "take_one q = Some (x, q')" by (cases xq) simp
    with "3.prems" take_Some [OF take] "3.IH"(2) [OF take refl] show ?thesis
      by (fastforce split: prod.splits)
  qed
qed simp

lemma run_room: "run q ops = (r, acc, out) \<Longrightarrow> 0 \<le> room q \<Longrightarrow> 0 \<le> room r"
proof (induction q ops arbitrary: r acc out rule: run.induct)
  case (2 q x ops)
  then show ?case by (cases "put q x") (fastforce dest: put_Some split: prod.splits)+
next
  case (3 q ops)
  show ?case
  proof (cases "take_one q")
    case None
    then show ?thesis using 3 by simp
  next
    case (Some xq)
    then obtain x q' where take: "take_one q = Some (x, q')" by (cases xq) simp
    with "3.prems" take_Some [OF take] "3.IH"(2) [OF take refl] show ?thesis
      by (fastforce split: prod.splits)
  qed
qed simp

end

definition ch_room :: "'a chan \<Rightarrow> int" where
  "ch_room c = int (ch_cap c) - int (length (ch_queue c))"

interpretation mpsc: bounded_queue try_send recv ch_queue ch_room
proof
  fix q q' :: "'a chan" and x
  show "try_send q x = Some q' \<Longrightarrow> ch_queue q' = ch_queue q @ [x] \<and> ch_room q = ch_room q' + 1 \<and> 0 < ch_room q"
    by (auto simp: try_send_def ch_room_def split: if_splits)
  show "try_send q x = None \<Longrightarrow> ch_room q \<le> 0"
    by (simp add: try_send_def ch_room_def split: if_splits)
  show "recv q = None \<Longrightarrow> ch_queue q = []"
    by (simp add: recv_def split: list.splits)
  show "recv q = Some (x, q') \<Longrightarrow> ch_queue q = x # ch_queue q' \<and> ch_room q' = ch_room q + 1"
    by (auto simp: recv_def ch_room_def split: list.splits)
qed

lemma ch_room_new [simp]: "ch_room (mpsc_channel n) = int n"
  by (simp add: ch_room_def)

end
