(* ===== verification/Agent.thy ===== *)
theory Agent
  imports Enforcement Sigil_Client Mpsc_Channel
begin

text \<open>
  The tasks of \<open>kprobe/kprobe-userspace/src/main.rs\<close> and how they interleave. The pod watcher and
  the Sigil client change shared state and then send on bounded channels; a forwarder moves pod
  events into the reconciliation channel; the VerdictSync task receives, clones the policy, clones
  the snapshot and reconciles. Every point at which a task can wait or another can run is a state
  here. \<open>agent_env\<close> are the steps in which something arrives from outside, \<open>agent_task\<close> the
  steps the agent takes by itself.
  The services that a hello of the Sigil client lists are not tied to the
  snapshot here, so the model has more behaviours than the code, never fewer.
\<close>

section \<open>State\<close>

datatype VsPhase = VsIdle | VsWoken | VsPolicy PolicyCache | VsBoth PolicyCache PodSnapshot

text \<open>
  \<open>ag_watch_sends\<close>, \<open>ag_fwd_sends\<close> and \<open>ag_sigil_sends\<close> say that a task is at its \<open>send\<close>. Two
  fields record history only: \<open>ag_relist\<close> (the watch restarted and its list is not complete) and
  \<open>ag_last\<close> (the arguments of the last reconciliation).
\<close>

record ('m, 'a) Agent =
  ag_sigil :: SigilState
  ag_sigil_sends :: bool
  ag_pods :: PodSnapshot
  ag_relist :: bool
  ag_watch_sends :: bool
  ag_pod_chan :: "PodEvent chan"
  ag_fwd_sends :: bool
  ag_sync_chan :: "unit chan"
  ag_vs :: VsPhase
  ag_maps :: "('m, 'a) VerdictSync"
  ag_last :: "(PolicyCache \<times> PodSnapshot) option"

definition CHANNEL_CAP :: nat where "CHANNEL_CAP = 32"

text \<open>
  The start: the flag is set to allow-all before the classifier is attached, the shared state is
  fresh and every task is at its beginning.
\<close>

definition agent_start :: "('m, 'a) bpf_ops \<Rightarrow> 'm \<Rightarrow> 'a \<Rightarrow> anyhow + ('m, 'a) Agent" where
  "agent_start B m a =
     (case ar_set B a 0 1 of
        Inl e \<Rightarrow> Inl (Context ''Failed to initialise POLICY_FLAGS[0] to allow-all'' (Msg e))
      | Inr a' \<Rightarrow>
          Inr \<lparr>ag_sigil = sg_init, ag_sigil_sends = False, ag_pods = Map.empty, ag_relist = False,
               ag_watch_sends = False, ag_pod_chan = mpsc_channel CHANNEL_CAP, ag_fwd_sends = False,
               ag_sync_chan = mpsc_channel CHANNEL_CAP, ag_vs = VsIdle,
               ag_maps = vs_new m a', ag_last = None\<rparr>)"

section \<open>Steps\<close>

inductive agent_env ::
  "('c, 'k, 'r, 'v, 'cc, 'sc) tls_lib \<Rightarrow> (string \<Rightarrow> bytes \<Rightarrow> bytes \<Rightarrow> bytes \<Rightarrow> io_error + 'chan) \<Rightarrow>
   SigilClient \<Rightarrow> ('m, 'a) Agent \<Rightarrow> ('m, 'a) Agent \<Rightarrow> bool"
  for L endpoint c where
  watch: "\<not> ag_watch_sends s \<Longrightarrow> watch_step (ag_pods s) it = (snap, evs) \<Longrightarrow>
    agent_env L endpoint c s
      (s\<lparr>ag_pods := snap, ag_watch_sends := (evs \<noteq> []),
         ag_relist := (it = Init \<or> ag_relist s \<and> it \<noteq> InitDone)\<rparr>)"
| sigil: "\<not> ag_sigil_sends s \<Longrightarrow> sigil_step L endpoint c (ag_sigil s) ev = Some (sg, effs) \<Longrightarrow>
    agent_env L endpoint c s (s\<lparr>ag_sigil := sg, ag_sigil_sends := (Notify \<in> set effs)\<rparr>)"

inductive agent_task ::
  "endian \<Rightarrow> ('m, 'a) bpf_ops \<Rightarrow> ('m, 'a) Agent \<Rightarrow> ('m, 'a) Agent \<Rightarrow> bool"
  for e B where
  watch_send: "ag_watch_sends s \<Longrightarrow> try_send (ag_pod_chan s) Changed = Some ch \<Longrightarrow>
    agent_task e B s (s\<lparr>ag_watch_sends := False, ag_pod_chan := ch\<rparr>)"
| fwd_recv: "\<not> ag_fwd_sends s \<Longrightarrow> recv (ag_pod_chan s) = Some (x, ch) \<Longrightarrow>
    agent_task e B s (s\<lparr>ag_fwd_sends := True, ag_pod_chan := ch\<rparr>)"
| fwd_send: "ag_fwd_sends s \<Longrightarrow> try_send (ag_sync_chan s) () = Some ch2 \<Longrightarrow>
    agent_task e B s (s\<lparr>ag_fwd_sends := False, ag_sync_chan := ch2\<rparr>)"
| sigil_send: "ag_sigil_sends s \<Longrightarrow> try_send (ag_sync_chan s) () = Some ch2 \<Longrightarrow>
    agent_task e B s (s\<lparr>ag_sigil_sends := False, ag_sync_chan := ch2\<rparr>)"
| vs_recv: "ag_vs s = VsIdle \<Longrightarrow> recv (ag_sync_chan s) = Some (u, ch2) \<Longrightarrow>
    agent_task e B s (s\<lparr>ag_vs := VsWoken, ag_sync_chan := ch2\<rparr>)"
| vs_policy: "ag_vs s = VsWoken \<Longrightarrow>
    agent_task e B s (s\<lparr>ag_vs := VsPolicy (pc_clone (sg_policy (ag_sigil s)))\<rparr>)"
| vs_pods: "ag_vs s = VsPolicy policy \<Longrightarrow>
    agent_task e B s (s\<lparr>ag_vs := VsBoth policy (ag_pods s)\<rparr>)"
| vs_sync: "ag_vs s = VsBoth policy pods \<Longrightarrow> iter_order pods ks \<Longrightarrow>
    sync e B policy pods ks (ag_maps s) = Some (maps', n) \<Longrightarrow>
    agent_task e B s (s\<lparr>ag_vs := VsIdle, ag_maps := maps', ag_last := Some (policy, pods)\<rparr>)"

inductive_cases agent_envE: "agent_env L endpoint c s s'"
inductive_cases agent_taskE: "agent_task e B s s'"

inductive agent_reach ::
  "('c, 'k, 'r, 'v, 'cc, 'sc) tls_lib \<Rightarrow> (string \<Rightarrow> bytes \<Rightarrow> bytes \<Rightarrow> bytes \<Rightarrow> io_error + 'chan) \<Rightarrow>
   SigilClient \<Rightarrow> endian \<Rightarrow> ('m, 'a) bpf_ops \<Rightarrow> ('m, 'a) Agent \<Rightarrow> bool"
  for L endpoint c e B where
  start: "hm_get B m = Map.empty \<Longrightarrow> agent_start B m a = Inr s \<Longrightarrow> agent_reach L endpoint c e B s"
| env: "agent_reach L endpoint c e B s \<Longrightarrow> agent_env L endpoint c s s' \<Longrightarrow> agent_reach L endpoint c e B s'"
| task: "agent_reach L endpoint c e B s \<Longrightarrow> agent_task e B s s' \<Longrightarrow> agent_reach L endpoint c e B s'"

section \<open>The invariant\<close>

text \<open>Something is on its way that will make VerdictSync read the policy, or the snapshot, again.\<close>

definition policy_due :: "('m, 'a) Agent \<Rightarrow> bool" where
  "policy_due s \<longleftrightarrow> ag_sigil_sends s \<or> ch_queue (ag_sync_chan s) \<noteq> [] \<or> ag_vs s = VsWoken"

definition pods_due :: "('m, 'a) Agent \<Rightarrow> bool" where
  "pods_due s \<longleftrightarrow> ag_watch_sends s \<or> ch_queue (ag_pod_chan s) \<noteq> [] \<or> ag_fwd_sends s
     \<or> ch_queue (ag_sync_chan s) \<noteq> [] \<or> ag_vs s = VsWoken \<or> (\<exists>p. ag_vs s = VsPolicy p)"

text \<open>The policy and the snapshot that VerdictSync has read last, given the last reconciliation.\<close>

fun last_args :: "(PolicyCache \<times> PodSnapshot) option \<Rightarrow> PolicyCache \<times> PodSnapshot" where
  "last_args None = (pc_new, Map.empty)"
| "last_args (Some pd) = pd"

fun seen_policy :: "VsPhase \<Rightarrow> (PolicyCache \<times> PodSnapshot) option \<Rightarrow> PolicyCache" where
  "seen_policy (VsPolicy p) l = p"
| "seen_policy (VsBoth p d) l = p"
| "seen_policy VsIdle l = fst (last_args l)"
| "seen_policy VsWoken l = fst (last_args l)"

fun seen_pods :: "VsPhase \<Rightarrow> (PolicyCache \<times> PodSnapshot) option \<Rightarrow> PodSnapshot" where
  "seen_pods (VsBoth p d) l = d"
| "seen_pods (VsPolicy p) l = snd (last_args l)"
| "seen_pods VsIdle l = snd (last_args l)"
| "seen_pods VsWoken l = snd (last_args l)"

definition data_inv :: "('m, 'a) Agent \<Rightarrow> bool" where
  "data_inv s \<longleftrightarrow>
     (policy_due s \<or> sg_policy (ag_sigil s) = seen_policy (ag_vs s) (ag_last s)) \<and>
     (pods_due s \<or> ag_relist s \<or> ag_pods s = seen_pods (ag_vs s) (ag_last s))"

definition chan_inv :: "('m, 'a) Agent \<Rightarrow> bool" where
  "chan_inv s \<longleftrightarrow>
     ch_cap (ag_pod_chan s) = CHANNEL_CAP \<and> length (ch_queue (ag_pod_chan s)) \<le> CHANNEL_CAP \<and>
     ch_cap (ag_sync_chan s) = CHANNEL_CAP \<and> length (ch_queue (ag_sync_chan s)) \<le> CHANNEL_CAP \<and>
     sg_inv (ag_sigil s) \<and> snap_inv (ag_pods s) \<and> (\<forall>p d. ag_vs s = VsBoth p d \<longrightarrow> snap_inv d)"

definition maps_inv :: "endian \<Rightarrow> ('m, 'a) bpf_ops \<Rightarrow> ('m, 'a) Agent \<Rightarrow> bool" where
  "maps_inv e B s \<longleftrightarrow>
     (case ag_last s of
        None \<Rightarrow> hm_get B (verdict_map (ag_maps s)) = Map.empty \<and> ar_get B (policy_flags (ag_maps s)) 0 = Some 1
      | Some (p, d) \<Rightarrow> \<exists>ks st n. iter_order d ks \<and> sync e B p d ks st = Some (ag_maps s, n))"

lemma try_send_Some: "try_send ch x = Some ch' \<Longrightarrow>
   ch_queue ch' = ch_queue ch @ [x] \<and> ch_cap ch' = ch_cap ch \<and> length (ch_queue ch) < ch_cap ch"
  by (auto simp: try_send_def split: if_splits)

lemma recv_Some: "recv ch = Some (x, ch') \<Longrightarrow> ch_queue ch = x # ch_queue ch' \<and> ch_cap ch' = ch_cap ch"
  by (auto simp: recv_def split: list.splits)

text \<open>A snapshot that changes is announced or belongs to a restart; a policy that changes is notified.\<close>

lemma watch_step_change:
  "watch_step snap it = (snap', evs) \<Longrightarrow> snap' = snap \<or> evs \<noteq> [] \<or> it = Init"
  by (cases it) (auto split: option.splits)

lemma watch_step_InitDone: "watch_step snap InitDone = (snap', evs) \<Longrightarrow> evs \<noteq> []"
  by auto

lemma sigil_step_change:
  "sigil_step L endpoint c s ev = Some (s', effs) \<Longrightarrow> sg_policy s' = sg_policy s \<or> Notify \<in> set effs"
  by (auto simp: sigil_step_def split: State.splits SigilEvent.splits option.splits Payload.splits
      sum.splits if_splits)

lemmas due_defs = data_inv_def policy_due_def pods_due_def

lemma data_inv_env: "agent_env L endpoint c s s' \<Longrightarrow> data_inv s \<Longrightarrow> data_inv s'"
proof (erule agent_envE)
  fix it snap evs
  assume s': "s' = s\<lparr>ag_pods := snap, ag_watch_sends := evs \<noteq> [],
      ag_relist := it = Init \<or> ag_relist s \<and> it \<noteq> InitDone\<rparr>"
    and "\<not> ag_watch_sends s" and st: "watch_step (ag_pods s) it = (snap, evs)" and "data_inv s"
  moreover have "it = InitDone \<Longrightarrow> evs \<noteq> []" using st by auto
  ultimately show "data_inv s'"
    using watch_step_change [OF st] by (auto simp: due_defs)
next
  fix ev sg effs
  assume "s' = s\<lparr>ag_sigil := sg, ag_sigil_sends := Notify \<in> set effs\<rparr>"
    and "\<not> ag_sigil_sends s" and st: "sigil_step L endpoint c (ag_sigil s) ev = Some (sg, effs)" and "data_inv s"
  then show "data_inv s'"
    using sigil_step_change [OF st] by (auto simp: due_defs)
qed

lemma data_inv_task: "agent_task e B s s' \<Longrightarrow> data_inv s \<Longrightarrow> data_inv s'"
  by (erule agent_taskE) (auto simp: due_defs dest: try_send_Some recv_Some)

lemma chan_inv_env: "agent_env L endpoint c s s' \<Longrightarrow> chan_inv s \<Longrightarrow> chan_inv s'"
proof (erule agent_envE)
  fix it snap evs
  assume "s' = s\<lparr>ag_pods := snap, ag_watch_sends := evs \<noteq> [],
      ag_relist := it = Init \<or> ag_relist s \<and> it \<noteq> InitDone\<rparr>"
    and st: "watch_step (ag_pods s) it = (snap, evs)" and "chan_inv s"
  moreover from this have "snap_inv snap" using watch_step_inv [of "ag_pods s" it] by (simp add: chan_inv_def)
  ultimately show "chan_inv s'" by (simp add: chan_inv_def)
next
  fix ev sg effs
  assume "s' = s\<lparr>ag_sigil := sg, ag_sigil_sends := Notify \<in> set effs\<rparr>"
    and st: "sigil_step L endpoint c (ag_sigil s) ev = Some (sg, effs)" and "chan_inv s"
  then show "chan_inv s'" using sg_inv_step [OF _ st] by (simp add: chan_inv_def)
qed

lemma chan_inv_task: "agent_task e B s s' \<Longrightarrow> chan_inv s \<Longrightarrow> chan_inv s'"
  by (erule agent_taskE) (auto simp: chan_inv_def dest!: try_send_Some recv_Some)

lemma agent_env_maps: "agent_env L endpoint c s s' \<Longrightarrow> ag_maps s' = ag_maps s \<and> ag_last s' = ag_last s"
  by (erule agent_envE) simp_all

lemma maps_inv_env: "agent_env L endpoint c s s' \<Longrightarrow> maps_inv e B s \<Longrightarrow> maps_inv e B s'"
  using agent_env_maps [of L endpoint c s s'] by (simp only: maps_inv_def)

lemma maps_inv_task: "agent_task e B s s' \<Longrightarrow> maps_inv e B s \<Longrightarrow> maps_inv e B s'"
  by (erule agent_taskE) (auto simp: maps_inv_def split: option.splits)

context bpf_maps
begin

lemma reach_inv:
  "agent_reach L endpoint c e B s \<Longrightarrow> data_inv s \<and> chan_inv s \<and> maps_inv e B s"
proof (induction rule: agent_reach.induct)
  case (start m a s)
  obtain a' where a': "ar_set B a 0 1 = Inr a'" "ar_get B a' 0 = Some 1" using flag_set by blast
  with start show ?case
    by (auto simp: agent_start_def due_defs chan_inv_def maps_inv_def sg_init_def CHANNEL_CAP_def
        sg_inv_def over_tls_def)
next
  case (env s s')
  then show ?case using data_inv_env chan_inv_env maps_inv_env by blast
next
  case (task s s')
  then show ?case using data_inv_task chan_inv_task maps_inv_task by blast
qed

end

section \<open>The agent settles\<close>

definition settled :: "('m, 'a) Agent \<Rightarrow> bool" where
  "settled s \<longleftrightarrow> \<not> ag_watch_sends s \<and> ch_queue (ag_pod_chan s) = [] \<and> \<not> ag_fwd_sends s
     \<and> \<not> ag_sigil_sends s \<and> ch_queue (ag_sync_chan s) = [] \<and> ag_vs s = VsIdle"

fun vs_work :: "VsPhase \<Rightarrow> nat" where
  "vs_work VsIdle = 0"
| "vs_work (VsBoth p d) = 1"
| "vs_work (VsPolicy p) = 2"
| "vs_work VsWoken = 3"

text \<open>The number of steps the agent still has to take by itself.\<close>

definition work :: "('m, 'a) Agent \<Rightarrow> nat" where
  "work s = (if ag_watch_sends s then 7 else 0) + 6 * length (ch_queue (ag_pod_chan s))
     + (if ag_fwd_sends s then 5 else 0) + (if ag_sigil_sends s then 5 else 0)
     + 4 * length (ch_queue (ag_sync_chan s)) + vs_work (ag_vs s)"

lemma task_work: "agent_task e B s s' \<Longrightarrow> work s' < work s"
  by (erule agent_taskE) (auto simp: work_def dest!: try_send_Some recv_Some)

lemma try_send_empty: "ch_queue ch = [] \<Longrightarrow> ch_cap ch = CHANNEL_CAP \<Longrightarrow> \<exists>ch'. try_send ch x = Some ch'"
  by (simp add: try_send_def CHANNEL_CAP_def)

lemma recv_nonempty: "ch_queue ch \<noteq> [] \<Longrightarrow> \<exists>x ch'. recv ch = Some (x, ch')"
  by (simp add: recv_def split: list.split)

lemma vs_can_step:
  assumes "chan_inv s" "ag_vs s \<noteq> VsIdle"
  shows "\<exists>s'. agent_task e B s s'"
proof (cases "ag_vs s")
  case (VsBoth p d)
  then have "finite (dom d)" using assms(1) by (auto simp: chan_inv_def snap_inv_def)
  then obtain ks where ks: "iter_order d ks" using iter_order_ex by blast
  then obtain maps' n where "sync e B p d ks (ag_maps s) = Some (maps', n)"
    by (auto simp: sync_fold Let_def)
  then show ?thesis using agent_task.vs_sync [OF VsBoth ks] by blast
next
  case VsIdle
  with assms(2) show ?thesis by simp
next
  case VsWoken
  from agent_task.vs_policy [OF this] show ?thesis by (rule exI)
next
  case (VsPolicy p)
  from agent_task.vs_pods [OF this] show ?thesis by (rule exI)
qed

lemma not_settled_step:
  assumes "chan_inv s" "\<not> settled s"
  shows "\<exists>s'. agent_task e B s s'"
proof (cases "ag_vs s = VsIdle")
  case False
  with assms(1) show ?thesis by (rule vs_can_step)
next
  case idle: True
  have caps: "ch_cap (ag_pod_chan s) = CHANNEL_CAP" "ch_cap (ag_sync_chan s) = CHANNEL_CAP"
    using assms(1) by (simp_all add: chan_inv_def)
  show ?thesis
  proof (cases "ch_queue (ag_sync_chan s) = []")
    case False
    then show ?thesis using recv_nonempty agent_task.vs_recv [OF idle] by blast
  next
    case sync: True
    then obtain ch2 where ch2: "try_send (ag_sync_chan s) () = Some ch2"
      using try_send_empty [OF sync caps(2)] by blast
    consider "ag_fwd_sends s" | "ag_sigil_sends s" | "\<not> ag_fwd_sends s" "ch_queue (ag_pod_chan s) \<noteq> []"
      | "ch_queue (ag_pod_chan s) = []" "ag_watch_sends s"
      using assms(2) idle sync by (auto simp: settled_def)
    then show ?thesis
    proof cases
      case 1
      then show ?thesis using agent_task.fwd_send ch2 by blast
    next
      case 2
      then show ?thesis using agent_task.sigil_send ch2 by blast
    next
      case 3
      then show ?thesis using recv_nonempty agent_task.fwd_recv by blast
    next
      case 4
      then obtain ch where "try_send (ag_pod_chan s) Changed = Some ch"
        using try_send_empty [OF _ caps(1)] by blast
      then show ?thesis using 4 agent_task.watch_send by blast
    qed
  qed
qed

lemma settles: "chan_inv s \<Longrightarrow> \<exists>s'. (agent_task e B)\<^sup>*\<^sup>* s s' \<and> settled s'"
proof (induction "work s" arbitrary: s rule: less_induct)
  case less
  show ?case
  proof (cases "settled s")
    case False
    then obtain s1 where s1: "agent_task e B s s1" using not_settled_step less.prems by blast
    then have "chan_inv s1" "work s1 < work s"
      using chan_inv_task task_work less.prems by blast+
    then obtain s' where "(agent_task e B)\<^sup>*\<^sup>* s1 s'" "settled s'" using less.hyps by blast
    then show ?thesis using s1 by (meson converse_rtranclp_into_rtranclp)
  qed blast
qed

text \<open>A settled agent whose watch is complete has reconciled what it has.\<close>

lemma settled_seen:
  assumes "data_inv s" "settled s" "\<not> ag_relist s"
  shows "sg_policy (ag_sigil s) = fst (last_args (ag_last s)) \<and> ag_pods s = snd (last_args (ag_last s))"
  using assms by (auto simp: due_defs settled_def)

context bpf_maps
begin

lemma settled_maps:
  assumes "agent_reach L endpoint c e B s" "settled s" "\<not> ag_relist s"
  shows "ag_last s = None \<and> ag_pods s = Map.empty
       \<and> hm_get B (verdict_map (ag_maps s)) = Map.empty \<and> ar_get B (policy_flags (ag_maps s)) 0 = Some 1
    \<or> (\<exists>ks st n. iter_order (ag_pods s) ks
         \<and> sync e B (sg_policy (ag_sigil s)) (ag_pods s) ks st = Some (ag_maps s, n))"
proof -
  have inv: "data_inv s" "maps_inv e B s" using reach_inv [OF assms(1)] by blast+
  note seen = settled_seen [OF inv(1) assms(2,3)]
  show ?thesis
  proof (cases "ag_last s")
    case None
    then show ?thesis using inv(2) seen by (simp add: maps_inv_def)
  next
    case (Some pd)
    then show ?thesis using inv(2) seen by (cases pd) (auto simp: maps_inv_def)
  qed
qed

end

section \<open>From one settled state to the next\<close>

lemma task_data: "agent_task e B s s' \<Longrightarrow>
  ag_sigil s' = ag_sigil s \<and> ag_pods s' = ag_pods s \<and> ag_relist s' = ag_relist s"
  by (erule agent_taskE) simp_all

lemma tasks_data: "(agent_task e B)\<^sup>*\<^sup>* s s' \<Longrightarrow>
  ag_sigil s' = ag_sigil s \<and> ag_pods s' = ag_pods s \<and> ag_relist s' = ag_relist s"
  by (induction rule: rtranclp_induct) (auto dest: task_data)

lemma tasks_reach:
  "(agent_task e B)\<^sup>*\<^sup>* s s' \<Longrightarrow> agent_reach L endpoint c e B s \<Longrightarrow> agent_reach L endpoint c e B s'"
  by (induction rule: rtranclp_induct) (auto intro: agent_reach.task)

context bpf_maps
begin

lemma reach_settles:
  assumes "agent_reach L endpoint c e B s"
  shows "\<exists>s'. agent_reach L endpoint c e B s' \<and> settled s' \<and> ag_sigil s' = ag_sigil s
    \<and> ag_pods s' = ag_pods s \<and> ag_relist s' = ag_relist s"
proof -
  have "chan_inv s" using reach_inv [OF assms] by blast
  then obtain s' where "(agent_task e B)\<^sup>*\<^sup>* s s'" "settled s'" using settles by blast
  then show ?thesis using tasks_data tasks_reach assms by blast
qed

lemma reach_start:
  assumes "hm_get B m = Map.empty"
  shows "\<exists>s. agent_reach L endpoint c e B s \<and> settled s \<and> ag_sigil s = sg_init
    \<and> ag_pods s = Map.empty \<and> \<not> ag_relist s"
proof -
  obtain a' where "ar_set B a 0 1 = Inr a'" using flag_set by blast
  then have "\<exists>s. agent_start B m a = Inr s \<and> settled s \<and> ag_sigil s = sg_init \<and> ag_pods s = Map.empty \<and> \<not> ag_relist s"
    by (simp add: agent_start_def settled_def)
  then show ?thesis using agent_reach.start [OF assms] by blast
qed

lemma reach_watch:
  assumes "agent_reach L endpoint c e B s" "settled s" "\<not> ag_relist s" "it \<noteq> Init"
  shows "\<exists>s'. agent_reach L endpoint c e B s' \<and> settled s' \<and> ag_sigil s' = ag_sigil s
    \<and> ag_pods s' = fst (watch_step (ag_pods s) it) \<and> \<not> ag_relist s'"
proof -
  obtain snap evs where st: "watch_step (ag_pods s) it = (snap, evs)" by (cases "watch_step (ag_pods s) it")
  have "\<not> ag_watch_sends s" using assms(2) by (simp add: settled_def)
  from agent_reach.env [OF assms(1) agent_env.watch [OF this st]]
  show ?thesis using reach_settles assms(3,4) st by fastforce
qed

lemma reach_sigil:
  assumes "agent_reach L endpoint c e B s" "settled s" "\<not> ag_relist s"
    and "sigil_step L endpoint c (ag_sigil s) ev = Some (sg, effs)"
  shows "\<exists>s'. agent_reach L endpoint c e B s' \<and> settled s' \<and> ag_sigil s' = sg
    \<and> ag_pods s' = ag_pods s \<and> \<not> ag_relist s'"
proof -
  have "\<not> ag_sigil_sends s" using assms(2) by (simp add: settled_def)
  from agent_reach.env [OF assms(1) agent_env.sigil [OF this assms(4)]]
  show ?thesis using reach_settles assms(3) by fastforce
qed

end

text \<open>What the kernel program does on the maps of a settled agent.\<close>

lemma settled_agent_drops:
  assumes "bpf_maps B cap" and "skb_reader load frame"
    and "agent_reach L endpoint c e B s" and "settled s" and "\<not> ag_relist s"
    and "unique_ips (ag_pods s)"
    and "\<And>ks. iter_order (ag_pods s) ks \<Longrightarrow> pair_count (ag_pods s) ks \<le> cap"
    and "decode_frame frame = Some p"
    and "ag_pods s f = Some fs" and "p_src p \<in> set fs" and "ag_pods s t = Some ts" and "p_dst p \<in> set ts" and "f \<noteq> t"
    and "in_pod_cidr (p_src p)" and "in_pod_cidr (p_dst p)"
  shows "fst (kernel_egress e B (ag_maps s) load) = TC_ACT_SHOT \<longleftrightarrow>
    \<not> is_allowed (sg_policy (ag_sigil s)) f t \<and> (p_proto p = 6 \<longrightarrow> opens_connection p)"
proof -
  obtain ks st n where ks: "iter_order (ag_pods s) ks"
    and sync: "sync e B (sg_policy (ag_sigil s)) (ag_pods s) ks st = Some (ag_maps s, n)"
    using bpf_maps.settled_maps [OF assms(1,3-5)] assms(9) by auto
  show ?thesis
    using bpf_maps.synced_verdict [OF assms(1) ks sync assms(7) [OF ks] assms(6,9-15)]
    by (simp add: kernel_egress_shot [OF assms(2,8)])
qed

section \<open>A concrete agent\<close>

text \<open>Two pods appear and a policy that lets the first reach the second is pushed.\<close>

definition ex_pod :: "string \<Rightarrow> string \<Rightarrow> Pod" where
  "ex_pod svc ip = \<lparr>labels = Some [''app'' \<mapsto> svc], status = Some \<lparr>pod_ip = Some ip\<rparr>\<rparr>"

definition ex_push :: PolicyBundle where
  "ex_push = \<lparr>pb_rules = [\<lparr>pr_from_service = ''alpha'', pr_to_services = [''beta'']\<rparr>],
              pb_default_allow = False, pb_mtls_mode = ''enforce''\<rparr>"

lemma ex_pod_extract: "ipv4_parse ip = Some a \<Longrightarrow> extract_service_and_ip (ex_pod svc ip) = Some (svc, a)"
  by (simp add: extract_service_and_ip_def ex_pod_def)

lemma ex_watch:
  "fst (watch_step (fst (watch_step Map.empty (Apply (ex_pod ''alpha'' (ipv4_display (Ipv4Addr 10 244 1 5))))))
     (Apply (ex_pod ''beta'' (ipv4_display (Ipv4Addr 10 244 2 7))))) = ex_pods"
proof -
  have "extract_service_and_ip (ex_pod ''alpha'' (ipv4_display (Ipv4Addr 10 244 1 5))) = Some (''alpha'', Ipv4Addr 10 244 1 5)"
    and "extract_service_and_ip (ex_pod ''beta'' (ipv4_display (Ipv4Addr 10 244 2 7))) = Some (''beta'', Ipv4Addr 10 244 2 7)"
    by (rule ex_pod_extract [OF ipv4_parse_display])+
  then show ?thesis
    by (simp add: snap_tidy_def snap_push_def ex_pods_def fun_eq_iff del: ipv4_display.simps)
qed

lemma ex_agent:
  "\<exists>s. agent_reach ex_lib ex_endpoint ex_client e kmaps s \<and> settled s \<and> ag_pods s = ex_pods
     \<and> sg_policy (ag_sigil s) = ex_policy \<and> \<not> ag_relist s"
proof -
  have "hm_get kmaps DAList.empty = Map.empty" by (simp add: fun_eq_iff lookup_empty)
  from km.reach_start [OF this] obtain s0
    where s0: "agent_reach ex_lib ex_endpoint ex_client e kmaps s0" "settled s0" "\<not> ag_relist s0"
      and "ag_sigil s0 = sg_init" "ag_pods s0 = Map.empty"
    by metis
  moreover obtain s1
    where s1: "agent_reach ex_lib ex_endpoint ex_client e kmaps s1" "settled s1" "\<not> ag_relist s1"
      and "ag_sigil s1 = ag_sigil s0"
      "ag_pods s1 = fst (watch_step (ag_pods s0) (Apply (ex_pod ''alpha'' (ipv4_display (Ipv4Addr 10 244 1 5)))))"
    using km.reach_watch [OF s0] by blast
  moreover obtain s2
    where s2: "agent_reach ex_lib ex_endpoint ex_client e kmaps s2" "settled s2" "\<not> ag_relist s2"
      and "ag_sigil s2 = ag_sigil s1"
      "ag_pods s2 = fst (watch_step (ag_pods s1) (Apply (ex_pod ''beta'' (ipv4_display (Ipv4Addr 10 244 2 7)))))"
    using km.reach_watch [OF s1] by blast
  ultimately have sel: "ag_sigil s2 = sg_init" "ag_pods s2 = ex_pods" using ex_watch by simp_all
  have "sigil_step ex_lib ex_endpoint ex_client (ag_sigil s2) (BootAttempt [] True True) =
      Some (sg_init\<lparr>sg_state := BootstrapStream\<rparr>, [DialPlain (bootstrap_url ex_client), Hello (make_hello ex_client [])])"
    by (simp add: sel sigil_step_def sg_init_def)
  from km.reach_sigil [OF s2 this] obtain s3
    where s3: "agent_reach ex_lib ex_endpoint ex_client e kmaps s3" "settled s3" "\<not> ag_relist s3"
      and sel3: "ag_sigil s3 = sg_init\<lparr>sg_state := BootstrapStream\<rparr>" "ag_pods s3 = ex_pods"
    using sel by auto
  have "sigil_step ex_lib ex_endpoint ex_client (ag_sigil s3) (Message (Some (PolicyPush ex_push))) =
      Some (on_push (ag_sigil s3) (PolicyPush ex_push), [Applied (PolicyPush ex_push), Notify])"
    by (simp add: sel3 sigil_step_def)
  from km.reach_sigil [OF s3 this] obtain s4
    where "agent_reach ex_lib ex_endpoint ex_client e kmaps s4" "settled s4" "\<not> ag_relist s4"
      and "ag_sigil s4 = on_push (ag_sigil s3) (PolicyPush ex_push)" "ag_pods s4 = ex_pods"
    using sel3 by auto
  then show ?thesis
    by (intro exI [of _ s4]) (simp add: apply_policy_bundle_def ex_push_def ex_policy_def pc_update_last)
qed

end
