(* ===== verification/Telemetry.thy ===== *)
theory Telemetry
  imports Complex_Main Mpsc_Channel Net_Io
begin

text \<open>
  \<open>conduit/src/telemetry.rs\<close> and \<open>kprobe/kprobe-userspace/src/telemetry.rs\<close>, which differ in
  the capacity of the channel only: best-effort telemetry. \<open>emit\<close> puts a record into a bounded
  channel and drops it when the channel is full; one task takes the records out and posts each
  to the Trace API over HTTP. The JSON serialisation of a record (\<open>serde_json\<close>) and the socket
  outcomes are parameters.
\<close>

section \<open>Records\<close>

record TelemetryRecord =
  source_service :: string
  destination_service :: string
  tel_cluster_id :: string
  leg :: string
  tel_verdict :: string
  latency_ms :: rat
  tls_verified :: bool
  status_code :: "u16 option"
  error_reason :: "string option"
  timestamp :: "string option"

text \<open>
  \<open>started.elapsed().as_secs_f64() * 1000.0\<close> of a duration in nanoseconds, without the
  rounding of the floating-point numbers.
\<close>

definition elapsed_ms :: "nat \<Rightarrow> rat" where
  "elapsed_ms ns = of_nat ns / 1000000"

section \<open>The handle and its task\<close>

record TelemetryTask =
  trace_url :: string
  tx :: "TelemetryRecord chan"

definition CONDUIT_TELEMETRY_CAP :: nat where "CONDUIT_TELEMETRY_CAP = 256"
definition KPROBE_TELEMETRY_CAP :: nat where "KPROBE_TELEMETRY_CAP = 512"

definition tel_start :: "string \<Rightarrow> TelemetryTask" where
  "tel_start url =
     \<lparr>trace_url = trim_end_matches (CHR ''/'') url, tx = mpsc_channel CONDUIT_TELEMETRY_CAP\<rparr>"

definition kprobe_tel_start :: "string \<Rightarrow> TelemetryTask" where
  "kprobe_tel_start url =
     \<lparr>trace_url = trim_end_matches (CHR ''/'') url, tx = mpsc_channel KPROBE_TELEMETRY_CAP\<rparr>"

definition emit :: "TelemetryRecord chan \<Rightarrow> TelemetryRecord \<Rightarrow> TelemetryRecord chan" where
  "emit c r = (case try_send c r of None \<Rightarrow> c | Some c' \<Rightarrow> c')"

text \<open>
  A run of the handle and the task: a \<open>Put\<close> is a call of \<open>emit\<close>, a \<open>Take\<close> is one round of
  the task's loop, which posts the record it received and ignores the outcome. The result is the
  channel and the records posted.
\<close>

fun tel_run :: "TelemetryRecord chan \<Rightarrow> TelemetryRecord qop list \<Rightarrow>
    TelemetryRecord chan \<times> TelemetryRecord list" where
  "tel_run c [] = (c, [])"
| "tel_run c (Put r # ops) = tel_run (emit c r) ops"
| "tel_run c (Take # ops) =
     (case recv c of
        None \<Rightarrow> tel_run c ops
      | Some (r, c') \<Rightarrow> (case tel_run c' ops of (d, out) \<Rightarrow> (d, r # out)))"

section \<open>Posting a record\<close>

definition host_port :: "string \<Rightarrow> string" where
  "host_port base_url =
     split_first (CHR ''/'') (trim_end_matches (CHR ''/'')
       (case strip_prefix ''http://'' base_url of
          Some rest \<Rightarrow> rest
        | None \<Rightarrow> (case strip_prefix ''https://'' base_url of Some rest \<Rightarrow> rest | None \<Rightarrow> base_url)))"

definition telemetry_request :: "string \<Rightarrow> nat \<Rightarrow> bytes" where
  "telemetry_request hp len =
     ''POST /api/v1/telemetry HTTP/1.1'' @ CRLF @ ''Host: '' @ hp @ CRLF
     @ ''Content-Type: application/json'' @ CRLF @ ''Content-Length: '' @ dec_string len @ CRLF
     @ ''Connection: close'' @ CRLF @ CRLF"

definition trace_accepts :: "bytes \<Rightarrow> bool" where
  "trace_accepts resp \<longleftrightarrow>
     str_contains (first_line resp) '' 200 '' \<or> str_contains (first_line resp) '' 202 ''"

definition post_record ::
  "(TelemetryRecord \<Rightarrow> anyhow + bytes) \<Rightarrow> exchange_env \<Rightarrow> string \<Rightarrow> TelemetryRecord \<Rightarrow> (net_act, unit) act" where
  "post_record to_vec env base_url r =
     (let hp = host_port base_url in
      act_bind (act_of (to_vec r)) (\<lambda>body.
      act_bind (http_exchange env None hp [telemetry_request hp (length body), body]) (\<lambda>resp.
        if \<not> trace_accepts resp
        then act_fail (Msg (''unexpected Trace response: '' @ first_line resp))
        else act_ret ())))"

section \<open>The channel is first in, first out\<close>

lemma tel_run_mpsc: "mpsc.run c ops = (d, acc, out) \<Longrightarrow> tel_run c ops = (d, out)"
proof (induction c ops arbitrary: d acc out rule: tel_run.induct)
  case (2 c r ops)
  then show ?case by (auto simp: emit_def split: option.splits prod.splits)
next
  case (3 c ops)
  show ?case
  proof (cases "recv c")
    case None
    then show ?thesis using 3 by simp
  next
    case (Some rc)
    then obtain r c' where "recv c = Some (r, c')" by (cases rc) simp
    then show ?thesis using "3.prems" "3.IH"(2) by (auto split: prod.splits)
  qed
qed simp

lemma tel_run_fifo:
  assumes "tel_run (mpsc_channel n) ops = (d, out)"
  shows "\<exists>acc. subseq acc (puts ops) \<and> acc = out @ ch_queue d"
    and "length (ch_queue d) \<le> n"
    and "length (puts ops) \<le> n \<Longrightarrow> out @ ch_queue d = puts ops"
proof -
  obtain d' acc out' where run: "mpsc.run (mpsc_channel n) ops = (d', acc, out')"
    by (cases "mpsc.run (mpsc_channel n) ops")
  with tel_run_mpsc assms have eq: "d' = d" "out' = out" by force+
  have acc: "acc = out @ ch_queue d" using mpsc.run_fifo [OF run] eq by simp
  then show "\<exists>acc. subseq acc (puts ops) \<and> acc = out @ ch_queue d"
    using mpsc.run_subseq [OF run] by blast
  show "length (puts ops) \<le> n \<Longrightarrow> out @ ch_queue d = puts ops"
    using mpsc.run_all [OF run] acc by simp
  show "length (ch_queue d) \<le> n"
    using mpsc.run_room [OF run] mpsc.run_total [OF run] eq by simp
qed

section \<open>Addresses and responses\<close>

lemma split_first_trim_end: "split_first c (trim_end_matches c s) = split_first c s"
proof -
  have "s = trim_end_matches c s @ rev (takeWhile (\<lambda>x. x = c) (rev s))"
    by (metis rev_append rev_rev_ident takeWhile_dropWhile_id trim_end_matches_def)
  then obtain t z where s: "s = t @ z" "t = trim_end_matches c s" and z: "\<forall>x \<in> set z. x = c"
    by (metis (full_types) set_rev set_takeWhileD)
  have "takeWhile (\<lambda>x. x \<noteq> c) z = []" using z by (cases z) simp_all
  then have "takeWhile (\<lambda>x. x \<noteq> c) (t @ z) = takeWhile (\<lambda>x. x \<noteq> c) t"
    by (induction t) simp_all
  then show ?thesis unfolding split_first_def s(2) [symmetric] s(1) [symmetric] by (rule sym)
qed

lemma host_port_http: "CHR ''/'' \<notin> set hp \<Longrightarrow> host_port (''http://'' @ hp @ CHR ''/'' # path) = hp"
  by (simp add: host_port_def strip_prefix_def split_first_trim_end takeWhile_split_first)

lemma host_port_http_bare: "CHR ''/'' \<notin> set hp \<Longrightarrow> host_port (''http://'' @ hp) = hp"
  by (simp add: host_port_def strip_prefix_def split_first_trim_end split_first_id)

lemma host_port_no_slash: "CHR ''/'' \<notin> set (host_port url)"
  by (simp add: host_port_def split_first_notin)

lemma post_record_Inr:
  "snd (post_record to_vec env url r) = Inr () \<longleftrightarrow>
     (\<exists>body resp. to_vec r = Inr body
        \<and> all_ok env (host_port url) [telemetry_request (host_port url) (length body), body]
        \<and> x_read_to_end env = Inr resp \<and> trace_accepts resp)"
proof (cases "to_vec r")
  case (Inl e)
  then show ?thesis by (simp add: post_record_def act_of_def)
next
  case (Inr body)
  let ?chunks = "[telemetry_request (host_port url) (length body), body]"
  have "snd (post_record to_vec env url r) = Inr () \<longleftrightarrow>
      (\<exists>resp. snd (http_exchange env None (host_port url) ?chunks) = Inr resp \<and> trace_accepts resp)"
    using Inr
    by (simp add: post_record_def act_of_def Let_def act_bind_def act_ret_def act_fail_def
        split: prod.split sum.split)
  then show ?thesis using Inr by (simp add: http_exchange_Inr)
qed

section \<open>Properties\<close>


definition ex_record :: "string \<Rightarrow> TelemetryRecord" where
  "ex_record dst = \<lparr>source_service = ''alpha'', destination_service = dst, tel_cluster_id = ''dev'',
     leg = ''intra_cluster'', tel_verdict = ''allow'', latency_ms = 0, tls_verified = True, status_code = Some 200,
     error_reason = None, timestamp = None\<rparr>"


text \<open>
  What one telemetry post does: nothing is sent but a prefix of the request and the JSON
  body, to the host and port of the configured URL, and the post counts as delivered exactly
  when the record could be serialised, every socket call succeeded and the first line of the
  response contains the status 200 or 202 between blanks.
\<close>

theorem post_record_delivers:
  "(snd (post_record to_vec env url r) = Inr () \<longleftrightarrow>
     (\<exists>body resp. to_vec r = Inr body
        \<and> all_ok env (host_port url) [telemetry_request (host_port url) (length body), body]
        \<and> x_read_to_end env = Inr resp
        \<and> (str_contains (first_line resp) '' 200 '' \<or> str_contains (first_line resp) '' 202 ''))) \<and>
   (case to_vec r of
      Inl e \<Rightarrow> fst (post_record to_vec env url r) = []
    | Inr body \<Rightarrow> prefix (fst (post_record to_vec env url r))
        [Connect (host_port url), Write (telemetry_request (host_port url) (length body)), Write body, ReadToEnd])"
proof
  show "snd (post_record to_vec env url r) = Inr () \<longleftrightarrow>
     (\<exists>body resp. to_vec r = Inr body
        \<and> all_ok env (host_port url) [telemetry_request (host_port url) (length body), body]
        \<and> x_read_to_end env = Inr resp
        \<and> (str_contains (first_line resp) '' 200 '' \<or> str_contains (first_line resp) '' 202 ''))"
    by (simp add: post_record_Inr trace_accepts_def)
  show "case to_vec r of
      Inl e \<Rightarrow> fst (post_record to_vec env url r) = []
    | Inr body \<Rightarrow> prefix (fst (post_record to_vec env url r))
        [Connect (host_port url), Write (telemetry_request (host_port url) (length body)), Write body, ReadToEnd]"
  proof (cases "to_vec r")
    case (Inr body)
    let ?chunks = "[telemetry_request (host_port url) (length body), body]"
    obtain t res where ex: "http_exchange env None (host_port url) ?chunks = (t, res)"
      by (cases "http_exchange env None (host_port url) ?chunks")
    then show ?thesis
      using Inr http_exchange_prefix [of env None "host_port url" ?chunks]
      by (cases res) (auto simp: post_record_def act_of_def act_ret_def act_fail_def Let_def)
  qed (simp add: post_record_def act_of_def)
qed

text \<open>
  The status test on the trimmed first line: a response with a reason phrase is accepted,
  but one with the empty reason phrase that HTTP permits is refused, although the status is 200,
  because trimming removes the blank the test looks for.
\<close>

theorem empty_reason_refused:
  assumes "reason \<noteq> []" and "list_all graphic reason"
  shows "trace_accepts (''HTTP/1.1 200 '' @ reason @ CRLF @ rest) \<and>
    \<not> trace_accepts (''HTTP/1.1 200 '' @ CRLF @ rest)"
proof
  have graphic_no_LF: "\<not> graphic LF" by (simp add: graphic_def byte_def)
  then have "LF \<notin> set reason" using assms(2) by (auto simp: list_all_iff)
  moreover have "graphic (last reason)" using assms by (simp add: list_all_iff)
  ultimately have "first_line ((''HTTP/1.1 200 '' @ reason) @ [CR] @ LF # rest) = ''HTTP/1.1 200 '' @ reason"
    using assms by (intro first_line_text)
      (auto simp: graphic_ascii, simp_all add: byte_def graphic_def is_ws1_def)
  moreover have "sublist '' 200 '' (''HTTP/1.1'' @ '' 200 '' @ reason)"
    by (rule sublist_appendI)
  ultimately show "trace_accepts (''HTTP/1.1 200 '' @ reason @ CRLF @ rest)"
    by (simp add: trace_accepts_def str_contains_iff)
  have "first_line (''HTTP/1.1 200'' @ [CHR '' '', CR] @ LF # rest) = ''HTTP/1.1 200''"
    by (rule first_line_text) (simp_all add: byte_def graphic_def is_ws1_def)
  then show "\<not> trace_accepts (''HTTP/1.1 200 '' @ CRLF @ rest)"
    by (simp add: trace_accepts_def str_contains_def)
qed

theorem empty_reason_refused_witness:
  "trace_accepts (''HTTP/1.1 200 OK'' @ CRLF @ []) \<and> \<not> trace_accepts (''HTTP/1.1 200 '' @ CRLF @ [])"
  using empty_reason_refused [of "''OK''" "[]"] by (simp add: graphic_def byte_def)

end
