(* ===== verification/Kprobe_Main.thy ===== *)
theory Kprobe_Main
  imports Agent Telemetry
begin

text \<open>
  The start of the agent, \<open>main\<close> of \<open>kprobe/kprobe-userspace/src/main.rs\<close>: it loads the eBPF
  object, adds the qdisc, opens the maps, sets the allow-all flag, attaches the classifier, spawns
  the tasks, opens one perf buffer for every CPU and waits for the signal. What the kernel, aya and
  tokio answer is a parameter; the steps and the errors are the code's. The panic of
  \<open>install_default().expect(..)\<close> before the first step and the log lines are left out.
\<close>

section \<open>The command line, the outcomes and the steps\<close>

record KprobeCli =
  kc_iface :: string
  kc_ebpf_path :: string
  kc_sigil_addr :: string
  kc_node_id :: string
  kc_cluster_id :: string
  kc_trace_url :: string

record ('m, 'a) boot_env =
  bt_load :: "string \<Rightarrow> io_error option"
  bt_logger :: "io_error option"
  bt_qdisc :: "string \<Rightarrow> io_error option"
  bt_has_map :: "string \<Rightarrow> bool"
  bt_verdict_map :: "io_error + 'm"
  bt_policy_flags :: "io_error + 'a"
  bt_has_program :: bool
  bt_classifier :: "io_error option"
  bt_verify :: "io_error option"
  bt_attach :: "string \<Rightarrow> io_error option"
  bt_perf :: "io_error option"
  bt_cpus :: "io_error + nat list"
  bt_open :: "nat \<Rightarrow> io_error option"
  bt_signal :: "io_error option"

datatype task = TelemetryTask | PodWatcherTask | ForwarderTask | SigilTask | VerdictSyncTask | ReaderTask nat

datatype boot_act =
    LoadObject string
  | InitLogger
  | AddQdisc string
  | TakeMap string
  | SetFlag u32
  | LoadProgram
  | Attach string
  | Spawn task
  | OpenPerf nat
  | AwaitCtrlC

definition quoted :: "string \<Rightarrow> string" where
  "quoted s = [CHR 0x27] @ s @ [CHR 0x27]"

section \<open>The operations\<close>

text \<open>An existing qdisc is recognised by the text of the error.\<close>

definition add_qdisc :: "io_error option \<Rightarrow> anyhow + unit" where
  "add_qdisc r =
     (case r of
        None \<Rightarrow> Inr ()
      | Some msg \<Rightarrow>
          (if \<not> str_contains msg ''17''
           then Inl (Context ''Failed to add clsact qdisc to interface'' (Msg msg))
           else Inr ()))"

definition take_map :: "('m, 'a) boot_env \<Rightarrow> string \<Rightarrow> (boot_act, unit) act" where
  "take_map env name =
     act_do (TakeMap name)
       (if bt_has_map env name then Inr ()
        else Inl (Msg (''Map '' @ quoted name @ '' not found in eBPF object'')))"

text \<open>Steps 1 to 4 and 3 (as the code numbers them): up to the attached classifier.\<close>

definition kprobe_attach ::
  "('m, 'a) bpf_ops \<Rightarrow> ('m, 'a) boot_env \<Rightarrow> KprobeCli \<Rightarrow> (boot_act, ('m, 'a) Agent) act" where
  "kprobe_attach B env cli =
     act_then (act_do (LoadObject (kc_ebpf_path cli))
       (with_context (''Failed to load eBPF object '' @ quoted (kc_ebpf_path cli)) (io_ok (bt_load env (kc_ebpf_path cli)))))
     (act_then (act_do InitLogger (Inr ()))
     (act_then (act_do (AddQdisc (kc_iface cli)) (add_qdisc (bt_qdisc env (kc_iface cli))))
     (act_then (take_map env ''VERDICT_MAP'')
     (act_bind (act_of (with_context ''Failed to open VERDICT_MAP as HashMap'' (io_val (bt_verdict_map env)))) (\<lambda>m.
      act_then (take_map env ''POLICY_FLAGS'')
     (act_bind (act_of (with_context ''Failed to open POLICY_FLAGS as Array'' (io_val (bt_policy_flags env)))) (\<lambda>a.
      act_bind (act_do (SetFlag 1) (agent_start B m a)) (\<lambda>s.
      act_then (act_of (if bt_has_program env then Inr ()
                        else Inl (Msg (''Program '' @ quoted ''kprobe_egress'' @ '' not found in eBPF object''))))
     (act_then (act_of (with_context (quoted ''kprobe_egress'' @ '' is not a SchedClassifier program'') (io_ok (bt_classifier env))))
     (act_then (act_do LoadProgram (with_context ''Kernel rejected the eBPF program (verifier error)'' (io_ok (bt_verify env))))
     (act_then (act_do (Attach (kc_iface cli))
                  (with_context ''Failed to attach TC classifier to egress hook'' (io_ok (bt_attach env (kc_iface cli)))))
      (act_ret s))))))))))))"

text \<open>Steps 5 to 8: the shared state is fresh (it is in the start state) and the tasks are spawned.\<close>

fun spawn_all :: "task list \<Rightarrow> (boot_act, unit) act" where
  "spawn_all [] = act_ret ()"
| "spawn_all (t # ts) = act_then (act_do (Spawn t) (Inr ())) (spawn_all ts)"

definition agent_tasks :: "task list" where
  "agent_tasks = [TelemetryTask, PodWatcherTask, ForwarderTask, SigilTask, VerdictSyncTask]"

text \<open>Step 9: one reader for every online CPU.\<close>

fun open_readers :: "('m, 'a) boot_env \<Rightarrow> nat list \<Rightarrow> (boot_act, unit) act" where
  "open_readers env [] = act_ret ()"
| "open_readers env (cpu_id # cpus) =
     act_then (act_do (OpenPerf cpu_id)
       (with_context (''Failed to open perf buffer for CPU '' @ dec_string cpu_id) (io_ok (bt_open env cpu_id))))
     (act_then (act_do (Spawn (ReaderTask cpu_id)) (Inr ())) (open_readers env cpus))"

definition online_cpus_result :: "('m, 'a) boot_env \<Rightarrow> anyhow + nat list" where
  "online_cpus_result env =
     (case bt_cpus env of
        Inl e \<Rightarrow> Inl (Msg (''Failed to enumerate online CPUs: '' @ e))
      | Inr cpus \<Rightarrow> Inr cpus)"

definition kprobe_main ::
  "('m, 'a) bpf_ops \<Rightarrow> ('m, 'a) boot_env \<Rightarrow> KprobeCli \<Rightarrow> (boot_act, ('m, 'a) Agent \<times> SigilClient \<times> TelemetryTask) act" where
  "kprobe_main B env cli =
     act_bind (kprobe_attach B env cli) (\<lambda>s.
     act_then (spawn_all agent_tasks)
     (act_then (take_map env ''PACKET_EVENTS'')
     (act_then (act_of (with_context ''Failed to open AsyncPerfEventArray'' (io_ok (bt_perf env))))
     (act_bind (act_of (online_cpus_result env)) (\<lambda>cpus.
      act_then (open_readers env cpus)
     (act_then (act_do AwaitCtrlC (io_ok (bt_signal env)))
      (act_ret (s,
         sc_new (kc_sigil_addr cli) (kc_node_id cli) (kc_cluster_id cli),
         kprobe_tel_start (kc_trace_url cli)))))))))"

section \<open>The order of the steps\<close>

definition attach_plan :: "KprobeCli \<Rightarrow> boot_act list" where
  "attach_plan cli =
     [LoadObject (kc_ebpf_path cli), InitLogger, AddQdisc (kc_iface cli), TakeMap ''VERDICT_MAP'',
      TakeMap ''POLICY_FLAGS'', SetFlag 1, LoadProgram, Attach (kc_iface cli)]"

definition reader_plan :: "nat list \<Rightarrow> boot_act list" where
  "reader_plan cpus = concat (map (\<lambda>c. [OpenPerf c, Spawn (ReaderTask c)]) cpus)"

definition boot_plan :: "('m, 'a) boot_env \<Rightarrow> KprobeCli \<Rightarrow> boot_act list" where
  "boot_plan env cli =
     attach_plan cli @ map Spawn agent_tasks @ TakeMap ''PACKET_EVENTS''
       # reader_plan (case bt_cpus env of Inl e \<Rightarrow> [] | Inr cpus \<Rightarrow> cpus) @ [AwaitCtrlC]"

lemmas plan_intros = prefix_act_do prefix_act_of prefix_act_ret

lemma with_context_Inr [simp]: "with_context s r = Inr a \<longleftrightarrow> r = Inr a"
  by (simp add: with_context_def split: sum.split)

lemma io_ok_Inr [simp]: "io_ok r = Inr u \<longleftrightarrow> r = None"
  by (simp add: io_ok_def split: option.split)

lemma kprobe_attach_prefix: "prefix (fst (kprobe_attach B env cli)) (attach_plan cli)"
  unfolding kprobe_attach_def attach_plan_def take_map_def act_then_def by (intro plan_intros)

lemma snd_act_simps [simp]:
  "snd (act_do a r) = r" "snd (act_of r) = r" "snd (act_ret v) = Inr v"
  by (simp_all add: act_do_def act_of_def act_ret_def)

lemma snd_act_then: "snd (act_then m k) = Inr b \<longleftrightarrow> (\<exists>u. snd m = Inr u) \<and> snd k = Inr b"
  by (auto simp: act_then_def snd_act_bind_Inr)

lemma spawn_all_result: "spawn_all ts = (map Spawn ts, Inr ())"
  by (induction ts) (simp_all add: act_defs)

lemma open_readers_prefix: "prefix (fst (open_readers env cpus)) (reader_plan cpus)"
proof (induction cpus)
  case Nil
  then show ?case by (simp add: act_defs)
next
  case (Cons c cpus)
  then show ?case
    by (cases "bt_open env c") (simp_all add: act_defs reader_plan_def with_context_def)
qed

lemma open_readers_Inr:
  "snd (open_readers env cpus) = Inr u \<longleftrightarrow> (\<forall>c \<in> set cpus. bt_open env c = None)"
  by (induction cpus) (simp_all add: snd_act_then)

lemma open_readers_all:
  "\<forall>c \<in> set cpus. bt_open env c = None \<Longrightarrow> fst (open_readers env cpus) = reader_plan cpus"
  by (induction cpus) (simp_all add: act_defs reader_plan_def with_context_def)

text \<open>When the classifier got attached: everything before it succeeded.\<close>

definition attachable :: "('m, 'a) bpf_ops \<Rightarrow> ('m, 'a) boot_env \<Rightarrow> KprobeCli \<Rightarrow> ('m, 'a) Agent \<Rightarrow> bool" where
  "attachable B env cli s \<longleftrightarrow>
     bt_load env (kc_ebpf_path cli) = None
     \<and> (\<forall>msg. bt_qdisc env (kc_iface cli) = Some msg \<longrightarrow> str_contains msg ''17'')
     \<and> bt_has_map env ''VERDICT_MAP'' \<and> bt_has_map env ''POLICY_FLAGS''
     \<and> (\<exists>m a. bt_verdict_map env = Inr m \<and> bt_policy_flags env = Inr a \<and> agent_start B m a = Inr s)
     \<and> bt_has_program env \<and> bt_classifier env = None \<and> bt_verify env = None"

lemma add_qdisc_Inr [simp]:
  "add_qdisc r = Inr u \<longleftrightarrow> (\<forall>msg. r = Some msg \<longrightarrow> str_contains msg ''17'')"
  by (simp add: add_qdisc_def split: option.split)

lemma if_unit_Inr [simp]: "(if c then Inr () else Inl e) = Inr u \<longleftrightarrow> c"
  by simp

lemma kprobe_attach_Inr:
  "snd (kprobe_attach B env cli) = Inr s \<longleftrightarrow> attachable B env cli s \<and> bt_attach env (kc_iface cli) = None"
  unfolding kprobe_attach_def attachable_def take_map_def snd_act_then snd_act_bind_Inr snd_act_simps
  by (simp only: with_context_Inr io_ok_Inr io_val_Inr_iff add_qdisc_Inr if_unit_Inr) blast

text \<open>What \<open>main\<close> needs after the classifier is attached.\<close>

definition readable :: "('m, 'a) boot_env \<Rightarrow> bool" where
  "readable env \<longleftrightarrow>
     bt_has_map env ''PACKET_EVENTS'' \<and> bt_perf env = None
     \<and> (\<exists>cpus. bt_cpus env = Inr cpus \<and> (\<forall>c \<in> set cpus. bt_open env c = None))"

lemma online_cpus_Inr: "online_cpus_result env = Inr cpus \<longleftrightarrow> bt_cpus env = Inr cpus"
  by (simp add: online_cpus_result_def split: sum.split)

lemma kprobe_main_Inr:
  "snd (kprobe_main B env cli) = Inr r \<longleftrightarrow>
     (\<exists>s. attachable B env cli s \<and> bt_attach env (kc_iface cli) = None \<and> readable env \<and> bt_signal env = None
       \<and> r = (s, sc_new (kc_sigil_addr cli) (kc_node_id cli) (kc_cluster_id cli),
              kprobe_tel_start (kc_trace_url cli)))"
  unfolding kprobe_main_def readable_def take_map_def snd_act_then snd_act_bind_Inr snd_act_simps kprobe_attach_Inr
  by (auto simp: spawn_all_result open_readers_Inr online_cpus_Inr)

lemma kprobe_attach_full:
  "snd (kprobe_attach B env cli) = Inr s \<Longrightarrow> fst (kprobe_attach B env cli) = attach_plan cli"
  unfolding kprobe_attach_Inr attachable_def
  by (auto simp: kprobe_attach_def attach_plan_def take_map_def act_defs add_qdisc_def split: option.split)

lemma readers_prefix:
  assumes "bt_cpus env = Inr cpus"
  shows "prefix (fst (act_bind (open_readers env cpus)
        (\<lambda>u. act_bind (act_do AwaitCtrlC (io_ok (bt_signal env))) (\<lambda>u. act_ret v))))
      (reader_plan (case bt_cpus env of Inl e \<Rightarrow> [] | Inr cpus \<Rightarrow> cpus) @ [AwaitCtrlC])"
  unfolding assms sum.case
  by (rule prefix_act_bind [OF open_readers_prefix])
    (auto simp: open_readers_Inr open_readers_all intro!: plan_intros)

lemma kprobe_main_prefix: "prefix (fst (kprobe_main B env cli)) (boot_plan env cli)"
  unfolding kprobe_main_def boot_plan_def
  apply (rule prefix_act_bind [OF kprobe_attach_prefix])
  apply (rule conjI, erule kprobe_attach_full)
  apply (simp only: act_then_def take_map_def spawn_all_result act_bind_simps fst_conv same_prefix_prefix)
  apply (intro plan_intros readers_prefix)
  apply (simp only: online_cpus_Inr)
  done

lemma attach_needs:
  assumes "Attach i \<in> set (fst (kprobe_main B env cli))"
  shows "\<exists>s. attachable B env cli s"
proof (cases "snd (kprobe_attach B env cli)")
  case (Inl err)
  then have "Attach i \<in> set (fst (kprobe_attach B env cli))"
    using assms by (simp add: kprobe_main_def fst_act_bind)
  then show ?thesis
    unfolding kprobe_attach_def take_map_def act_then_def
    by (simp only: act_mem with_context_Inr io_ok_Inr io_val_Inr_iff add_qdisc_Inr if_unit_Inr attachable_def boot_act.distinct)
      blast
next
  case (Inr s)
  then show ?thesis by (auto simp: kprobe_attach_Inr)
qed

section \<open>Properties\<close>

text \<open>
  C13. The agent never cuts the node off by starting: in whatever way its start goes, when the
  classifier is attached then it is attached to the configured interface, the allow-all flag was
  set before, no task that could change the maps had been spawned, and with the fresh map of the
  object every frame passes; the state in which the tasks then begin is a start state of the
  running agent.
\<close>

theorem attached_agent_passes_all:
  assumes "bpf_maps B cap" and "skb_reader load frame"
    and "fst (kprobe_main B env cli) = before @ Attach iface # after"
    and "\<forall>m. bt_verdict_map env = Inr m \<longrightarrow> hm_get B m = Map.empty"
  shows "iface = kc_iface cli \<and> SetFlag 1 \<in> set before \<and> (\<forall>t. Spawn t \<notin> set before) \<and>
    (\<exists>s. attachable B env cli s \<and> agent_reach L endpoint c e B s \<and>
       fst (kernel_egress e B (ag_maps s) load) = TC_ACT_OK)"
proof -
  obtain zs where plan: "before @ Attach iface # after @ zs = boot_plan env cli"
    using kprobe_main_prefix [of B env cli] unfolding assms(3) by (auto simp: prefix_def)
  have only: "Attach x \<in> set (boot_plan env cli) \<longleftrightarrow> x = kc_iface cli" for x
    by (auto simp: boot_plan_def attach_plan_def reader_plan_def)
  have "Attach iface \<in> set (boot_plan env cli)" unfolding plan [symmetric] by simp
  then have iface: "iface = kc_iface cli" by (simp only: only)
  obtain rest where rest: "boot_plan env cli = butlast (attach_plan cli) @ Attach (kc_iface cli) # rest"
    and "Attach (kc_iface cli) \<notin> set (butlast (attach_plan cli))" "Attach (kc_iface cli) \<notin> set rest"
    by (auto simp: boot_plan_def attach_plan_def reader_plan_def)
  then have "before = butlast (attach_plan cli)"
    using plan append_Cons_eq_iff [of "Attach (kc_iface cli)" "butlast (attach_plan cli)" rest before "after @ zs"]
    unfolding iface by metis
  then have "SetFlag 1 \<in> set before" "\<forall>t. Spawn t \<notin> set before"
    by (simp_all add: attach_plan_def)
  moreover have "Attach iface \<in> set (fst (kprobe_main B env cli))" unfolding assms(3) by simp
  then obtain s where s: "attachable B env cli s" using attach_needs by blast
  then obtain m a where start: "bt_verdict_map env = Inr m" "agent_start B m a = Inr s"
    by (auto simp: attachable_def)
  then have reach: "agent_reach L endpoint c e B s" using assms(4) by (blast intro: agent_reach.start)
  have "ag_last s = None" using start(2) by (auto simp: agent_start_def split: sum.splits)
  with bpf_maps.reach_inv [OF assms(1) reach]
  have "hm_get B (verdict_map (ag_maps s)) = Map.empty" "ar_get B (policy_flags (ag_maps s)) 0 = Some 1"
    by (simp_all add: maps_inv_def)
  from fresh_maps_pass [OF assms(2) this] have "fst (kernel_egress e B (ag_maps s) load) = TC_ACT_OK" .
  ultimately show ?thesis using s reach iface by blast
qed


text \<open>A start that succeeds, on the model of the kernel maps.\<close>

definition ex_boot :: "(kmap, u32) boot_env" where
  "ex_boot = \<lparr>bt_load = (\<lambda>p. None), bt_logger = Some ''no logger'', bt_qdisc = (\<lambda>i. Some ''File exists (os error 17)''),
     bt_has_map = (\<lambda>n. True), bt_verdict_map = Inr DAList.empty, bt_policy_flags = Inr 0, bt_has_program = True,
     bt_classifier = None, bt_verify = None, bt_attach = (\<lambda>i. None), bt_perf = None, bt_cpus = Inr [0, 1],
     bt_open = (\<lambda>c. None), bt_signal = None\<rparr>"

definition ex_kprobe_cli :: KprobeCli where
  "ex_kprobe_cli = \<lparr>kc_iface = ''eth0'', kc_ebpf_path = ''/app/kprobe-ebpf'', kc_sigil_addr = ''sigil:8443'',
     kc_node_id = ''node'', kc_cluster_id = ''dev'', kc_trace_url = ''http://t''\<rparr>"

lemma ex_boot_trace:
  "\<exists>after. fst (kprobe_main kmaps ex_boot ex_kprobe_cli) =
     butlast (attach_plan ex_kprobe_cli) @ Attach ''eth0'' # after"
proof -
  have "\<exists>s. attachable kmaps ex_boot ex_kprobe_cli s"
    by (simp add: attachable_def ex_boot_def agent_start_def kmaps_def flags_set_def POLICY_FLAGS_ENTRIES_def
        str_contains_def)
  then obtain s where "snd (kprobe_attach kmaps ex_boot ex_kprobe_cli) = Inr s"
    by (auto simp: kprobe_attach_Inr ex_boot_def)
  then have "fst (kprobe_attach kmaps ex_boot ex_kprobe_cli) = attach_plan ex_kprobe_cli"
    by (rule kprobe_attach_full)
  then show ?thesis
    by (simp add: kprobe_main_def fst_act_bind attach_plan_def ex_kprobe_cli_def)
qed

theorem attached_agent_passes_all_witness:
  "\<exists>s. attachable kmaps ex_boot ex_kprobe_cli s \<and>
     fst (kernel_egress Little kmaps (ag_maps s)
       (skb_load (tcp_frame (Ipv4Addr 10 244 2 7) (Ipv4Addr 10 244 1 5) 0x02))) = TC_ACT_OK"
proof -
  obtain after where trace: "fst (kprobe_main kmaps ex_boot ex_kprobe_cli) =
     butlast (attach_plan ex_kprobe_cli) @ Attach ''eth0'' # after" using ex_boot_trace by blast
  have fresh: "\<forall>m. bt_verdict_map ex_boot = Inr m \<longrightarrow> hm_get kmaps m = Map.empty"
    by (simp add: ex_boot_def fun_eq_iff lookup_empty)
  from attached_agent_passes_all [OF km.bpf_maps_axioms skb.skb_reader_axioms trace fresh]
  show ?thesis by blast
qed

end
