(* ===== verification/Kprobe_Telemetry.thy ===== *)
theory Kprobe_Telemetry
  imports Telemetry
begin

text \<open>
  \<open>kprobe/kprobe-userspace/src/telemetry.rs\<close>: the agent carries its own copy of the telemetry
  client of the gateway. The copy is transcribed on its own, so that the two can be compared: they
  differ in the capacity of the channel only.
\<close>

text \<open>The copies of the two structs have the same fields.\<close>

type_synonym KprobeTelemetryRecord = TelemetryRecord

type_synonym KprobeTelemetryTask = TelemetryTask

definition kprobe_emit :: "KprobeTelemetryRecord chan \<Rightarrow> KprobeTelemetryRecord \<Rightarrow> KprobeTelemetryRecord chan" where
  "kprobe_emit c r = (case try_send c r of None \<Rightarrow> c | Some c' \<Rightarrow> c')"

fun kprobe_tel_run :: "TelemetryRecord chan \<Rightarrow> TelemetryRecord qop list \<Rightarrow>
    TelemetryRecord chan \<times> TelemetryRecord list" where
  "kprobe_tel_run c [] = (c, [])"
| "kprobe_tel_run c (Put r # ops) = kprobe_tel_run (kprobe_emit c r) ops"
| "kprobe_tel_run c (Take # ops) =
     (case recv c of
        None \<Rightarrow> kprobe_tel_run c ops
      | Some (r, c') \<Rightarrow> (case kprobe_tel_run c' ops of (d, out) \<Rightarrow> (d, r # out)))"

definition kprobe_post_record ::
  "(TelemetryRecord \<Rightarrow> anyhow + bytes) \<Rightarrow> exchange_env \<Rightarrow> string \<Rightarrow> TelemetryRecord \<Rightarrow> (net_act, unit) act" where
  "kprobe_post_record to_vec env base_url r =
     (let addr = trim_end_matches (CHR ''/'')
            (case strip_prefix ''http://'' base_url of
               Some rest \<Rightarrow> rest
             | None \<Rightarrow> (case strip_prefix ''https://'' base_url of Some rest \<Rightarrow> rest | None \<Rightarrow> base_url));
          hp = split_first (CHR ''/'') addr in
      act_bind (act_of (to_vec r)) (\<lambda>body.
      act_bind (http_exchange env None hp
        [''POST /api/v1/telemetry HTTP/1.1'' @ CRLF @ ''Host: '' @ hp @ CRLF
         @ ''Content-Type: application/json'' @ CRLF @ ''Content-Length: '' @ dec_string (length body) @ CRLF
         @ ''Connection: close'' @ CRLF @ CRLF, body]) (\<lambda>resp.
        let status_line = first_line resp in
        if \<not> (str_contains status_line '' 200 '' \<or> str_contains status_line '' 202 '')
        then act_fail (Msg (''unexpected Trace response: '' @ status_line))
        else act_ret ())))"

lemma kprobe_emit_eq: "kprobe_emit = emit"
  by (intro ext) (simp add: kprobe_emit_def emit_def)

lemma kprobe_tel_run_eq: "kprobe_tel_run c ops = tel_run c ops"
  by (induction c ops rule: kprobe_tel_run.induct) (simp_all add: kprobe_emit_eq split: option.split)

lemma kprobe_post_record_eq: "kprobe_post_record = post_record"
  by (intro ext) (simp add: kprobe_post_record_def post_record_def host_port_def telemetry_request_def
      trace_accepts_def Let_def)

text \<open>
  The two copies of the client agree: the agent's task posts a record exactly as the gateway's does,
  on every outcome of the sockets; and the agent's channel is first in, first out like the
  gateway's, with room for 512 records.
\<close>

theorem kprobe_telemetry_agrees:
  "kprobe_post_record to_vec env url r = post_record to_vec env url r \<and>
   (case kprobe_tel_run (tx (kprobe_tel_start url)) ops of (d, out) \<Rightarrow>
      subseq (out @ ch_queue d) (puts ops) \<and> length (ch_queue d) \<le> 512
      \<and> (if length (puts ops) \<le> 512 then out @ ch_queue d = puts ops else True))"
proof
  show "kprobe_post_record to_vec env url r = post_record to_vec env url r"
    by (simp add: kprobe_post_record_eq)
  obtain d out where run: "tel_run (mpsc_channel 512) ops = (d, out)"
    by (cases "tel_run (mpsc_channel 512) ops")
  then show "case kprobe_tel_run (tx (kprobe_tel_start url)) ops of (d, out) \<Rightarrow>
      subseq (out @ ch_queue d) (puts ops) \<and> length (ch_queue d) \<le> 512
      \<and> (if length (puts ops) \<le> 512 then out @ ch_queue d = puts ops else True)"
    using tel_run_fifo [OF run]
    by (auto simp: kprobe_tel_run_eq kprobe_tel_start_def KPROBE_TELEMETRY_CAP_def)
qed

end
