(* ===== verification/Verdict_Mock.thy ===== *)
theory Verdict_Mock
  imports Enforcement
begin

text \<open>
  The reference model that the code's own tests use: \<open>compute_verdicts\<close> in the test module of
  \<open>kprobe/kprobe-userspace/src/verdict_sync.rs\<close> computes the verdicts into an ordinary hash map.
  The tests never run the real reconciliation against kernel maps; the theorem here is the link
  that is missing there: whenever the pairs fit, the reconciliation leaves exactly this map.
\<close>

section \<open>The mock\<close>

fun mock_dsts ::
  "endian \<Rightarrow> u8 \<Rightarrow> Ipv4Addr \<Rightarrow> Ipv4Addr list \<Rightarrow> (PacketKey \<rightharpoonup> u8) \<Rightarrow> (PacketKey \<rightharpoonup> u8)" where
  "mock_dsts e verdict src [] result = result"
| "mock_dsts e verdict src (dst # dsts) result =
     mock_dsts e verdict src dsts
       (result(\<lparr>pk_src_ip = to_be32 e (u32_from src), pk_dst_ip = to_be32 e (u32_from dst)\<rparr> \<mapsto> verdict))"

fun mock_srcs ::
  "endian \<Rightarrow> u8 \<Rightarrow> Ipv4Addr list \<Rightarrow> Ipv4Addr list \<Rightarrow> (PacketKey \<rightharpoonup> u8) \<Rightarrow> (PacketKey \<rightharpoonup> u8)" where
  "mock_srcs e verdict [] dsts result = result"
| "mock_srcs e verdict (src # srcs) dsts result =
     mock_srcs e verdict srcs dsts (mock_dsts e verdict src dsts result)"

fun mock_to ::
  "endian \<Rightarrow> PolicyCache \<Rightarrow> PodSnapshot \<Rightarrow> string \<Rightarrow> string list \<Rightarrow> (PacketKey \<rightharpoonup> u8) \<Rightarrow>
   (PacketKey \<rightharpoonup> u8) option" where
  "mock_to e policy pods from_svc [] result = Some result"
| "mock_to e policy pods from_svc (to_svc # tos) result =
     (if from_svc = to_svc then mock_to e policy pods from_svc tos result
      else
        (let verdict = (if is_allowed policy from_svc to_svc then 0 else 1) in
         case pods from_svc of None \<Rightarrow> None | Some from_ips \<Rightarrow>
         (case pods to_svc of None \<Rightarrow> None | Some to_ips \<Rightarrow>
          mock_to e policy pods from_svc tos (mock_srcs e verdict from_ips to_ips result))))"

fun mock_from ::
  "endian \<Rightarrow> PolicyCache \<Rightarrow> PodSnapshot \<Rightarrow> string list \<Rightarrow> string list \<Rightarrow> (PacketKey \<rightharpoonup> u8) \<Rightarrow>
   (PacketKey \<rightharpoonup> u8) option" where
  "mock_from e policy pods svc_names [] result = Some result"
| "mock_from e policy pods svc_names (from_svc # froms) result =
     (case mock_to e policy pods from_svc svc_names result of
        None \<Rightarrow> None
      | Some result' \<Rightarrow> mock_from e policy pods svc_names froms result')"

text \<open>Indexing a missing service panics (\<open>None\<close>); the names are the keys, so it never does.\<close>

definition compute_verdicts ::
  "endian \<Rightarrow> PolicyCache \<Rightarrow> PodSnapshot \<Rightarrow> string list \<Rightarrow> (PacketKey \<rightharpoonup> u8) option" where
  "compute_verdicts e policy pods svc_names = mock_from e policy pods svc_names svc_names Map.empty"

section \<open>The mock as one fold over the entries\<close>

definition put_entry :: "(PacketKey \<rightharpoonup> u8) \<Rightarrow> PacketKey \<times> u8 \<Rightarrow> (PacketKey \<rightharpoonup> u8)" where
  "put_entry r kv = r(fst kv \<mapsto> snd kv)"

lemma mock_dsts_fold:
  "mock_dsts e v s ds r = foldl put_entry r (map (\<lambda>d. (ip_key e s d, v)) ds)"
  by (induction ds arbitrary: r) (simp_all add: ip_key_def put_entry_def)

lemma mock_srcs_fold:
  "mock_srcs e v ss ds r = foldl put_entry r (concat (map (\<lambda>s. map (\<lambda>d. (ip_key e s d, v)) ds) ss))"
  by (induction ss arbitrary: r) (simp_all add: mock_dsts_fold)

lemma mock_to_fold:
  assumes "set ts \<subseteq> dom pods" "f \<in> dom pods"
  shows "mock_to e policy pods f ts r =
    Some (foldl put_entry r (concat (map (pair_entries e policy pods f) ts)))"
  using assms
proof (induction ts arbitrary: r)
  case Nil
  then show ?case by simp
next
  case (Cons t ts)
  from Cons.prems obtain fips tips where "pods f = Some fips" "pods t = Some tips" by auto
  then have "mock_to e policy pods f (t # ts) r =
      mock_to e policy pods f ts (foldl put_entry r (pair_entries e policy pods f t))"
    by (simp add: mock_srcs_fold pair_entries_def verdict_of_def)
  then show ?case using Cons by simp
qed

lemma mock_from_fold:
  assumes "set ks \<subseteq> dom pods" "set fs \<subseteq> dom pods"
  shows "mock_from e policy pods ks fs r =
    Some (foldl put_entry r (concat (map (\<lambda>f. concat (map (pair_entries e policy pods f) ks)) fs)))"
  using assms(2)
proof (induction fs arbitrary: r)
  case Nil
  then show ?case by simp
next
  case (Cons f fs)
  then show ?case using assms(1) by (simp add: mock_to_fold)
qed

lemma put_entries_map_of: "foldl put_entry r kvs = r ++ map_of (rev kvs)"
proof (induction kvs arbitrary: r)
  case Nil
  then show ?case by simp
next
  case (Cons kv kvs)
  then show ?case by (cases kv) (simp add: put_entry_def map_add_def fun_eq_iff split: option.splits)
qed

lemma compute_verdicts_eq:
  assumes "iter_order pods ks"
  shows "compute_verdicts e policy pods ks = Some (map_of (rev (entries e policy pods ks)))"
  using assms
  by (simp add: compute_verdicts_def mock_from_fold iter_order_def entries_def put_entries_map_of)

section \<open>The reconciliation against the mock\<close>

context bpf_maps
begin

text \<open>As long as all keys fit, every insert is counted.\<close>

lemma insert_entry_counts:
  assumes "fst kv \<in> dom (hm_get B m) \<or> card (dom (hm_get B m)) < cap"
  shows "\<exists>m'. insert_entry B (m, n) kv = (m', Suc n) \<and> hm_get B m' = (hm_get B m)(fst kv \<mapsto> snd kv)"
  using insert_room [OF assms, of "snd kv"] by (auto simp: insert_entry_def)

lemma fold_counts:
  assumes "card (dom (hm_get B m) \<union> fst ` set kvs) \<le> cap"
  shows "snd (foldl (insert_entry B) (m, n) kvs) = n + length kvs"
  using assms
proof (induction kvs arbitrary: m n)
  case Nil
  then show ?case by simp
next
  case (Cons kv kvs)
  obtain m' where m': "insert_entry B (m, n) kv = (m', Suc n)"
    and get: "hm_get B m' = (hm_get B m)(fst kv \<mapsto> snd kv)"
    using insert_entry_counts [OF room_for_next [OF Cons.prems]] by blast
  have "dom (hm_get B m') \<union> fst ` set kvs = dom (hm_get B m) \<union> fst ` set (kv # kvs)"
    by (auto simp: get)
  then show ?case using Cons.IH [of m' "Suc n"] Cons.prems m' by simp
qed

lemma sync_is_mock:
  assumes "iter_order pods ks" "pair_count pods ks \<le> cap"
  shows "\<exists>st' r. sync e B policy pods ks st = Some (st', pair_count pods ks)
    \<and> compute_verdicts e policy pods ks = Some r \<and> hm_get B (verdict_map st') = r"
proof -
  have fits: "card (dom (hm_get B (clear_map B (verdict_map st))) \<union> fst ` set (entries e policy pods ks)) \<le> cap"
    using card_entry_keys [of e policy pods ks] assms(2) by (simp add: clear_map_get)
  show ?thesis
    using fold_complete [OF fits] fold_counts [OF fits, of 0]
    by (simp add: sync_fold [OF assms(1)] compute_verdicts_eq [OF assms(1)] Let_def clear_map_get length_entries)
qed

end

section \<open>Property\<close>

text \<open>
  C12. The reconciliation against the reference model of the code's tests: when the pairs fit into
  the verdict map, the real reconciliation of any policy and snapshot, addresses shared between
  services included, leaves in the kernel exactly the map that \<open>compute_verdicts\<close> computes, and
  the number of entries it logs is the number of pairs, so no insert failed.
\<close>

theorem sync_equals_test_model:
  assumes "bpf_maps B cap" and "iter_order pods ks" and "pair_count pods ks \<le> cap"
  shows "\<exists>st' r. sync e B policy pods ks st = Some (st', pair_count pods ks)
    \<and> compute_verdicts e policy pods ks = Some r \<and> hm_get B (verdict_map st') = r"
  by (rule bpf_maps.sync_is_mock [OF assms])

theorem sync_equals_test_model_witness:
  "\<exists>st' r. sync Little kmaps ex_policy ex_pods [''alpha'', ''beta''] ex_state = Some (st', 2)
    \<and> compute_verdicts Little ex_policy ex_pods [''alpha'', ''beta''] = Some r
    \<and> hm_get kmaps (verdict_map st') = r
    \<and> r (ip_key Little (Ipv4Addr 10 244 1 5) (Ipv4Addr 10 244 2 7)) = Some 0
    \<and> r (ip_key Little (Ipv4Addr 10 244 2 7) (Ipv4Addr 10 244 1 5)) = Some 1"
proof -
  obtain st' r where s: "sync Little kmaps ex_policy ex_pods [''alpha'', ''beta''] ex_state = Some (st', 2)"
    and r: "compute_verdicts Little ex_policy ex_pods [''alpha'', ''beta''] = Some r"
    and eq: "hm_get kmaps (verdict_map st') = r"
    using sync_equals_test_model [OF km.bpf_maps_axioms ex_order ex_count_any [OF ex_order],
        of Little ex_policy ex_state] by (auto simp: ex_count)
  have "r = map_of (rev (entries Little ex_policy ex_pods [''alpha'', ''beta'']))"
    using r compute_verdicts_eq [OF ex_order, of Little ex_policy] by simp
  then have "r (ip_key Little (Ipv4Addr 10 244 1 5) (Ipv4Addr 10 244 2 7)) = Some 0"
    and "r (ip_key Little (Ipv4Addr 10 244 2 7) (Ipv4Addr 10 244 1 5)) = Some 1"
    by (simp_all add: entries_def pair_entries_def ex_pods_sel verdict_of_def ex_allowed)
  with s r eq show ?thesis by blast
qed

end
