(* ===== verification/Http_Header.thy ===== *)
theory Http_Header
  imports Net_Io
begin

text \<open>
  The two readers of raw HTTP bytes of the Conduit proxies: \<open>extract_host\<close>
  (\<open>conduit/src/egress.rs\<close>; \<open>conduit/src/ingress.rs\<close> has a copy) and
  \<open>extract_status_code\<close> (\<open>egress.rs\<close>). The slice \<open>line["host:".len()..]\<close> panics when the
  index is not a character boundary; that it never does is proved, so \<open>drop\<close> models it.
\<close>

section \<open>The Host header\<close>

fun host_in_lines :: "string list \<Rightarrow> string option" where
  "host_in_lines [] = None"
| "host_in_lines (line # rest) =
     (if starts_with (to_ascii_lowercase line) ''host:''
      then (let host = split_first (CHR '':'') (trim (drop (length ''host:'') line)) in
            if host \<noteq> [] then Some host else host_in_lines rest)
      else host_in_lines rest)"

definition extract_host :: "bytes \<Rightarrow> string option" where
  "extract_host raw = (case from_utf8 raw of None \<Rightarrow> None | Some text \<Rightarrow> host_in_lines (str_lines text))"

section \<open>The status code\<close>

definition extract_status_code :: "bytes \<Rightarrow> u16 option" where
  "extract_status_code raw =
     (case from_utf8 raw of None \<Rightarrow> None | Some text \<Rightarrow>
      (case str_lines text of [] \<Rightarrow> None | status_line # _ \<Rightarrow>
       (case split_whitespace status_line of
          _ # code # _ \<Rightarrow> parse_u16 code
        | _ \<Rightarrow> None)))"

section \<open>The slice is at a character boundary\<close>

lemma utf8_valid_split: "byte c < 128 \<Longrightarrow> utf8_valid (a @ c # b) \<Longrightarrow> utf8_valid a \<and> utf8_valid b"
proof (induction "length a" arbitrary: a rule: less_induct)
  case less
  show ?case
  proof (cases a)
    case Nil
    then show ?thesis using less.prems by (simp add: utf8_valid.simps(2))
  next
    case (Cons x s)
    have nc: "\<not> is_cont c" using less.prems(1) by (simp add: is_cont_def)
    have IH: "length s' < length a \<Longrightarrow> utf8_valid (s' @ c # b) \<Longrightarrow> utf8_valid s' \<and> utf8_valid b" for s'
      using less.hyps less.prems(1) by blast
    from less.prems(2) Cons have v: "utf8_valid (x # s @ c # b)" by simp
    consider "byte x < 128" | "194 \<le> byte x" "byte x \<le> 223" | "224 \<le> byte x" "byte x \<le> 239"
      | "240 \<le> byte x" "byte x \<le> 244"
      using v by (auto simp: utf8_valid.simps(2) split: if_splits)
    then show ?thesis
    proof cases
      case 1
      then show ?thesis using v IH [of s] Cons by (simp add: utf8_valid.simps(2))
    next
      case 2
      then show ?thesis using v nc IH [of "tl s"] Cons
        by (cases s) (auto simp: utf8_valid.simps(2) split: if_splits)
    next
      case 3
      then show ?thesis using v nc IH [of "tl (tl s)"] Cons
        by (cases s; cases "tl s") (auto simp: utf8_valid.simps(2) split: if_splits list.splits)
    next
      case 4
      then show ?thesis using v nc IH [of "tl (tl (tl s))"] Cons
        by (cases s; cases "tl s"; cases "tl (tl s)")
          (auto simp: utf8_valid.simps(2) split: if_splits list.splits)
    qed
  qed
qed

lemma utf8_valid_append: "utf8_valid a \<Longrightarrow> utf8_valid b \<Longrightarrow> utf8_valid (a @ b)"
proof (induction "length a" arbitrary: a rule: less_induct)
  case less
  show ?case
  proof (cases a)
    case Nil
    then show ?thesis using less.prems(2) by simp
  next
    case (Cons x s)
    have IH: "length s' < length a \<Longrightarrow> utf8_valid s' \<Longrightarrow> utf8_valid (s' @ b)" for s'
      using less.hyps less.prems(2) by blast
    then show ?thesis using less.prems(1) Cons
      by (auto simp: utf8_valid.simps(2) split: if_splits list.splits)
  qed
qed

lemma byte_CR_LF [simp]: "byte CR = 13" "byte LF = 10"
  by (simp_all add: byte_def)

lemma utf8_valid_strip_cr: "utf8_valid l \<Longrightarrow> utf8_valid (strip_cr l)"
  using utf8_valid_split [of CR "butlast l" "[]"] by (auto simp: strip_cr_def) (metis append_butlast_last_id)

lemma utf8_valid_lines: "utf8_valid s \<Longrightarrow> l \<in> set (str_lines s) \<Longrightarrow> utf8_valid l"
proof (induction s rule: str_lines.induct)
  case (1 s)
  show ?case
  proof (cases "LF \<in> set s")
    case False
    then show ?thesis using 1 by (subst (asm) str_lines.simps) (simp split: if_splits)
  next
    case True
    let ?a = "takeWhile (\<lambda>c. c \<noteq> LF) s" and ?b = "tl (dropWhile (\<lambda>c. c \<noteq> LF) s)"
    have "dropWhile (\<lambda>c. c \<noteq> LF) s \<noteq> []" using True by (simp add: dropWhile_eq_Nil_conv)
    moreover from this have "hd (dropWhile (\<lambda>c. c \<noteq> LF) s) = LF" using hd_dropWhile by blast
    ultimately have "s = ?a @ LF # ?b" by (metis list.collapse takeWhile_dropWhile_id)
    then have v: "utf8_valid ?a \<and> utf8_valid ?b"
      using "1.prems"(1) utf8_valid_split [of LF ?a ?b] by simp
    have ne: "s \<noteq> []" using True by auto
    have "l \<in> set (strip_cr ?a # str_lines ?b)"
      using "1.prems"(2) True ne by (subst (asm) str_lines.simps) simp
    then show ?thesis
      using v "1.IH" [OF ne True] utf8_valid_strip_cr by auto
  qed
qed

lemma utf8_valid_hd: "utf8_valid (c # r) \<Longrightarrow> \<not> is_cont c"
  by (auto simp: utf8_valid.simps(2) is_cont_def split: if_splits)

lemma ascii_prefix_boundary:
  assumes "utf8_valid line" "n \<le> length line" "is_ascii (take n line)"
  shows "is_char_boundary line n"
proof (cases "n = length line")
  case False
  then have n: "n < length line" using assms(2) by simp
  then have line: "line = take n line @ line ! n # drop (Suc n) line"
    by (simp add: id_take_nth_drop)
  then have "utf8_valid (line ! n # drop (Suc n) line)"
    using assms utf8_valid_ascii_append by metis
  then show ?thesis using n utf8_valid_hd by (simp add: is_char_boundary_def)
qed (simp add: is_char_boundary_def)

lemma is_ascii_lowercase: "is_ascii (to_ascii_lowercase s) \<longleftrightarrow> is_ascii s"
  by (auto simp: is_ascii_def to_ascii_lowercase_def lower_char_ascii)

lemma host_line_boundary:
  assumes "utf8_valid line" "starts_with (to_ascii_lowercase line) ''host:''"
  shows "is_char_boundary line (length ''host:'')"
proof (rule ascii_prefix_boundary [OF assms(1)])
  from assms(2) obtain z where z: "to_ascii_lowercase line = ''host:'' @ z"
    by (auto simp: starts_with_def prefix_def)
  have "length line = length (''host:'' @ z)"
    using arg_cong [OF z, of length] by (simp only: length_to_ascii_lowercase)
  then have p: "take 5 (to_ascii_lowercase line) = ''host:''" "5 \<le> length line"
    by (simp_all add: z)
  have five: "length ''host:'' = 5" by simp
  show "length ''host:'' \<le> length line" using p by simp
  have "is_ascii (take 5 (to_ascii_lowercase line))" by (simp add: p byte_def)
  then have "is_ascii (to_ascii_lowercase (take 5 line))" by (simp add: to_ascii_lowercase_def take_map)
  then show "is_ascii (take (length ''host:'') line)"
    unfolding five by (simp only: is_ascii_lowercase)
qed

section \<open>What is extracted\<close>

lemma host_in_lines_Some: "host_in_lines ls = Some h \<Longrightarrow> h \<noteq> [] \<and> CHR '':'' \<notin> set h"
  by (induction ls) (auto simp: Let_def split_first_notin split: if_splits)

lemma host_in_lines_skip:
  "list_all (\<lambda>l. \<not> starts_with (to_ascii_lowercase l) ''host:'') hs \<Longrightarrow> host_in_lines (hs @ ls) = host_in_lines ls"
  by (induction hs) auto

lemma str_lines_headers:
  "list_all (\<lambda>l. LF \<notin> set l) hs \<Longrightarrow> str_lines (concat (map (\<lambda>l. l @ CRLF) hs) @ t) = hs @ str_lines t"
proof (induction hs)
  case (Cons h hs)
  then show ?case using str_lines_CRLF [of h "concat (map (\<lambda>l. l @ CRLF) hs) @ t"] by simp
qed simp

lemma split_first_append: "c \<notin> set h \<Longrightarrow> p = [] \<or> hd p = c \<Longrightarrow> split_first c (h @ p) = h"
  by (cases p) (auto simp: split_first_id takeWhile_split_first)

lemma lowercase_append: "to_ascii_lowercase (a @ b) = to_ascii_lowercase a @ to_ascii_lowercase b"
  by (simp add: to_ascii_lowercase_def)

lemma host_line:
  assumes "to_ascii_lowercase name = ''host:''" and "list_all is_ws1 sp" "list_all is_ws1 sp'"
    and "host \<noteq> []" "list_all graphic (host @ port)" "CHR '':'' \<notin> set host" "port = [] \<or> hd port = CHR '':''"
  shows "host_in_lines ((name @ sp @ (host @ port) @ sp') # ls) = Some host"
proof -
  have len: "length name = length ''host:''"
    using arg_cong [OF assms(1), of length] by (simp only: length_to_ascii_lowercase)
  then have "drop (length ''host:'') (name @ sp @ (host @ port) @ sp') = sp @ (host @ port) @ sp'"
    by simp
  moreover have "trim (sp @ (host @ port) @ sp') = host @ port"
  proof (rule trim_text [OF assms(2,3)])
    show "host @ port \<noteq> []" using assms(4) by simp
    then show "graphic (hd (host @ port))" "graphic (last (host @ port))"
      using assms(5) unfolding list_all_iff by (blast intro: hd_in_set last_in_set)+
  qed
  moreover have "split_first (CHR '':'') (host @ port) = host"
    using assms(6,7) by (rule split_first_append)
  moreover have "starts_with (to_ascii_lowercase (name @ sp @ (host @ port) @ sp')) ''host:''"
    by (simp add: lowercase_append starts_with_def assms(1))
  ultimately show ?thesis using assms(4) by (simp add: Let_def)
qed

section \<open>Properties\<close>

text \<open>
  Slicing a header line after \<open>host:\<close> never panics: for every line of a valid UTF-8 text
  whose lower-case form starts with \<open>host:\<close>, the index is a character boundary of the line.
\<close>

theorem host_slice_never_panics:
  assumes "from_utf8 raw = Some text" and "line \<in> set (str_lines text)"
    and "starts_with (to_ascii_lowercase line) ''host:''"
  shows "is_char_boundary line (length ''host:'')"
proof (rule host_line_boundary [OF _ assms(3)])
  have "utf8_valid text" using assms(1) by (auto simp: from_utf8_def split: if_splits)
  then show "utf8_valid line" using assms(2) by (rule utf8_valid_lines)
qed

theorem host_slice_never_panics_witness:
  "is_char_boundary (''HOST:'' @ [CHR 0xC3, CHR 0xA9]) (length ''host:'')"
proof (rule host_slice_never_panics)
  show "from_utf8 (''HOST:'' @ [CHR 0xC3, CHR 0xA9]) = Some (''HOST:'' @ [CHR 0xC3, CHR 0xA9])"
    by (simp add: from_utf8_def utf8_valid.simps(2) byte_def is_cont_def)
  show "''HOST:'' @ [CHR 0xC3, CHR 0xA9] \<in> set (str_lines (''HOST:'' @ [CHR 0xC3, CHR 0xA9]))"
    by (simp add: str_lines_last)
  show "starts_with (to_ascii_lowercase (''HOST:'' @ [CHR 0xC3, CHR 0xA9])) ''host:''"
    by (simp add: starts_with_def to_ascii_lowercase_def lower_char_def byte_def char_of_def bit_0)
qed

lemma extract_host_head:
  assumes "raw = concat (map (\<lambda>l. l @ CRLF) hs) @ (name @ sp @ (host @ port) @ sp') @ CRLF @ rest"
    and "utf8_valid raw"
    and "list_all (\<lambda>l. LF \<notin> set l \<and> \<not> starts_with (to_ascii_lowercase l) ''host:'') hs"
    and "to_ascii_lowercase name = ''host:''" and "LF \<notin> set (name @ sp @ sp')"
    and "list_all is_ws1 sp" and "list_all is_ws1 sp'"
    and "host \<noteq> []" and "list_all graphic (host @ port)" and "CHR '':'' \<notin> set host"
    and "port = [] \<or> hd port = CHR '':''"
  shows "extract_host raw = Some host"
proof -
  let ?line = "name @ sp @ (host @ port) @ sp'"
  have "\<not> graphic LF" by (simp add: graphic_def)
  then have "LF \<notin> set ?line" using assms(5,9) by (auto simp: list_all_iff)
  then have "str_lines raw = hs @ ?line # str_lines rest"
    using assms(3) str_lines_CRLF [of ?line rest]
    by (subst assms(1), subst str_lines_headers) (auto simp: list_all_iff)
  moreover have "host_in_lines (hs @ ?line # str_lines rest) = Some host"
    using assms(3) host_line [OF assms(4,6-11)]
    by (subst host_in_lines_skip) (auto simp: list_all_iff)
  ultimately show ?thesis by (simp add: extract_host_def from_utf8_def assms(2))
qed

text \<open>
  The destination of a request is the host of its first Host header: whatever the case of
  the header name, the blanks around the value and the port after it, and whatever follows, the
  result is the bare host, provided no earlier line starts with the header name.
\<close>

theorem extract_host_first_header:
  assumes "raw = concat (map (\<lambda>l. l @ CRLF) hs) @ (name @ sp @ (host @ port) @ sp') @ CRLF @ rest"
    and "utf8_valid raw"
    and "list_all (\<lambda>l. LF \<notin> set l \<and> \<not> starts_with (to_ascii_lowercase l) ''host:'') hs"
    and "to_ascii_lowercase name = ''host:''" and "LF \<notin> set (name @ sp @ sp')"
    and "list_all is_ws1 sp" and "list_all is_ws1 sp'"
    and "host \<noteq> []" and "list_all graphic (host @ port)" and "CHR '':'' \<notin> set host"
    and "port = [] \<or> hd port = CHR '':''"
  shows "extract_host raw = Some host"
  by (rule extract_host_head [OF assms])

theorem extract_host_first_header_witness:
  "extract_host (''GET / HTTP/1.1'' @ CRLF @ ''hOsT:  service-beta:8080 '' @ CRLF @ CRLF) = Some ''service-beta''"
  by (rule extract_host_first_header [where hs = "[''GET / HTTP/1.1'']" and name = "''hOsT:''" and sp = "''  ''"
        and port = "'':8080''" and sp' = "'' ''" and rest = CRLF])
    (simp_all add: utf8_valid.simps(2) byte_def starts_with_def to_ascii_lowercase_def lower_char_def char_of_def bit_0
      is_ws1_def graphic_def)

text \<open>
  A host that is extracted is never empty and never contains a colon, so an address in
  brackets is not one: a request for the IPv6 host \<open>[::1]:8080\<close> is routed to the host \<open>[\<close>.
\<close>

theorem extract_host_shape:
  "(case extract_host raw of None \<Rightarrow> True | Some h \<Rightarrow> h \<noteq> [] \<and> CHR '':'' \<notin> set h) \<and>
   extract_host (''Host: [::1]:8080'' @ CRLF) = Some ''[''"
proof
  show "case extract_host raw of None \<Rightarrow> True | Some h \<Rightarrow> h \<noteq> [] \<and> CHR '':'' \<notin> set h"
    by (auto simp: extract_host_def split: option.splits dest: host_in_lines_Some)
  have "str_lines (''Host: [::1]:8080'' @ CRLF) = [''Host: [::1]:8080'']"
    using str_lines_CRLF [of "''Host: [::1]:8080''" "[]"] by simp
  moreover have "host_in_lines [''Host:'' @ '' '' @ (''['' @ '':'' @ '':1]:8080'') @ []] = Some ''[''"
    by (rule host_line)
      (simp_all add: to_ascii_lowercase_def lower_char_def byte_def char_of_def bit_0 is_ws1_def graphic_def)
  moreover have "from_utf8 (''Host: [::1]:8080'' @ CRLF) = Some (''Host: [::1]:8080'' @ CRLF)"
    by (rule from_utf8_ascii) (simp add: byte_def)
  ultimately show "extract_host (''Host: [::1]:8080'' @ CRLF) = Some ''[''"
    by (simp add: extract_host_def)
qed

text \<open>
  The status code of a response is the number of its status line, for every number that fits
  into 16 bits.
\<close>

theorem extract_status_code_reads_number:
  assumes "version \<noteq> []" and "list_all graphic version" and "n < 65536"
    and "is_ascii reason" and "LF \<notin> set reason" and "utf8_valid rest"
  shows "extract_status_code (version @ '' '' @ dec_string n @ '' '' @ reason @ CRLF @ rest) = Some (of_nat n)"
proof -
  let ?l = "version @ '' '' @ dec_string n @ '' '' @ reason"
  have digits: "list_all graphic (dec_string n)" by (rule digits_graphic [OF dec_string_digits])
  have gLF: "\<not> graphic LF" by (simp add: graphic_def)
  have noLF: "LF \<notin> set ?l" using assms(2,5) digits gLF by (auto simp: list_all_iff)
  have "is_ascii (?l @ CRLF)" using assms(2,4) digits by (simp add: graphic_ascii byte_def)
  then have valid: "utf8_valid (?l @ CRLF @ rest)"
    using assms(6) utf8_valid_ascii_append [of "?l @ CRLF" rest] by simp
  define raw where "raw = ?l @ CRLF @ rest"
  have lines: "str_lines raw = ?l # str_lines rest"
    unfolding raw_def using noLF by (rule str_lines_CRLF)
  have words: "split_whitespace ?l = version # dec_string n # split_ws [] reason"
    using assms(1,2) digits
    by (simp add: split_whitespace_def split_ws_word split_ws_blank is_ws1_def byte_def)
  have "from_utf8 raw = Some raw" using valid by (simp only: raw_def from_utf8_def if_True)
  then have "extract_status_code raw = parse_u16 (dec_string n)"
    by (simp only: extract_status_code_def option.case lines list.case words)
  then show ?thesis using assms(3) by (simp add: parse_u16_dec_string raw_def)
qed

theorem extract_status_code_reads_number_witness:
  "extract_status_code (''HTTP/1.1'' @ '' '' @ dec_string 503 @ '' '' @ ''Unavailable'' @ CRLF @ []) = Some 503"
  using extract_status_code_reads_number [where version = "''HTTP/1.1''" and n = 503 and reason = "''Unavailable''"
      and rest = "[]"]
  by (simp add: graphic_def byte_def)

text \<open>
  Both proxies read the request head with a single read. When the read ends inside the value
  of the Host header, the part that arrived is taken for the host: every non-empty prefix of a
  host name is returned as if it were the destination.
\<close>

theorem partial_read_truncates_host:
  assumes "utf8_valid (concat (map (\<lambda>l. l @ CRLF) hs))"
    and "list_all (\<lambda>l. LF \<notin> set l \<and> \<not> starts_with (to_ascii_lowercase l) ''host:'') hs"
    and "host = part @ missing" and "part \<noteq> []" and "list_all graphic host" and "CHR '':'' \<notin> set host"
  shows "\<exists>n. extract_host (take n (concat (map (\<lambda>l. l @ CRLF) hs) @ ''Host: '' @ host @ CRLF @ rest)) = Some part"
proof
  let ?head = "concat (map (\<lambda>l. l @ CRLF) hs)"
  let ?line = "''Host:'' @ '' '' @ (part @ []) @ []"
  have part: "list_all graphic part" "CHR '':'' \<notin> set part" using assms(3,5,6) by simp_all
  have "\<not> graphic LF" by (simp add: graphic_def)
  then have noLF: "LF \<notin> set ?line" using part(1) by (auto simp: list_all_iff)
  have "is_ascii ?line" using graphic_ascii [OF part(1)] by (simp add: byte_def)
  then have "utf8_valid (?head @ ?line)"
    by (rule utf8_valid_append [OF assms(1) utf8_valid_ascii])
  moreover have "str_lines (?head @ ?line) = hs @ [?line]"
    using assms(2) str_lines_last [OF noLF] by (subst str_lines_headers) (auto simp: list_all_iff)
  moreover have "host_in_lines (hs @ [?line]) = Some part"
    using assms(2) part assms(4)
    by (subst host_in_lines_skip, simp add: list_all_iff, intro host_line)
      (simp_all add: to_ascii_lowercase_def lower_char_def byte_def char_of_def bit_0 is_ws1_def)
  ultimately have "extract_host (?head @ ?line) = Some part"
    by (simp only: extract_host_def from_utf8_def if_True option.case)
  moreover have "take (length (?head @ ?line)) (?head @ ''Host: '' @ host @ CRLF @ rest) = ?head @ ?line"
  proof -
    have "?head @ ''Host: '' @ host @ CRLF @ rest = (?head @ ?line) @ (missing @ CRLF @ rest)"
      by (simp add: assms(3))
    then show ?thesis by (simp only: take_length_append)
  qed
  ultimately show "extract_host (take (length (?head @ ?line)) (?head @ ''Host: '' @ host @ CRLF @ rest)) = Some part"
    by (simp only:)
qed

theorem partial_read_truncates_host_witness:
  "\<exists>n. extract_host (take n (concat (map (\<lambda>l. l @ CRLF) [''GET / HTTP/1.1'']) @ ''Host: '' @ ''beta'' @ CRLF @ []))
     = Some ''be''"
  by (rule partial_read_truncates_host [where missing = "''ta''"])
    (simp_all add: utf8_valid.simps(2) byte_def starts_with_def to_ascii_lowercase_def lower_char_def char_of_def bit_0
      graphic_def)

end
