(* ===== verification/Unit_Tests.thy ===== *)
theory Unit_Tests
  imports Verdict_Mock Sigil_Client Http_Header
begin

text \<open>
  The unit tests of the repository, transcribed: each test is the conjunction of its assertions on
  the model's definitions (an \<open>unwrap\<close> of a missing value is a failed test). That they all hold
  ties the model to the behaviour that the authors of the code checked.
\<close>

section \<open>\<open>policy_cache.rs\<close>\<close>

definition make_cache_one_way :: PolicyCache where
  "make_cache_one_way =
     pc_update pc_new [\<lparr>from_service = ''alpha'', to_services = [''beta'']\<rparr>] False ''enforce''"

definition allow_rule_matches :: bool where
  "allow_rule_matches = is_allowed make_cache_one_way ''alpha'' ''beta''"

definition reverse_direction_denied :: bool where
  "reverse_direction_denied = (\<not> is_allowed make_cache_one_way ''beta'' ''alpha'')"

definition default_deny_blocks_unknown :: bool where
  "default_deny_blocks_unknown = (\<not> is_allowed make_cache_one_way ''gamma'' ''alpha'')"

definition destination_check_allows_beta :: bool where
  "destination_check_allows_beta = is_allowed_destination make_cache_one_way ''beta''"

definition destination_check_denies_alpha :: bool where
  "destination_check_denies_alpha = (\<not> is_allowed_destination make_cache_one_way ''alpha'')"

definition default_allow_permits_everyone :: bool where
  "default_allow_permits_everyone =
     (let c = pc_update pc_new [] True ''off''
      in is_allowed c ''anyone'' ''anything'' \<and> is_allowed_destination c ''anything'')"

lemma policy_cache_tests:
  "allow_rule_matches" "reverse_direction_denied" "default_deny_blocks_unknown"
  "destination_check_allows_beta" "destination_check_denies_alpha" "default_allow_permits_everyone"
  by (simp_all add: allow_rule_matches_def reverse_direction_denied_def default_deny_blocks_unknown_def
      destination_check_allows_beta_def destination_check_denies_alpha_def default_allow_permits_everyone_def
      make_cache_one_way_def pc_update_last is_allowed_def is_allowed_destination_def)

section \<open>\<open>cert_store.rs\<close>\<close>

text \<open>The argument is the order in which the map of the store is visited; with one key there is one.\<close>

definition empty_store_has_no_any :: "string list \<Rightarrow> bool" where
  "empty_store_has_no_any ks =
     (let store = cs_new
      in \<not> cs_has_any store \<and> cs_root_ca_pem store ks = None \<and> cs_leaf_cert_pem store ''svc-a'' = None)"

definition update_and_read_back :: "string list \<Rightarrow> bool" where
  "update_and_read_back ks =
     (let store = cs_update cs_new ''svc-a'' ''leaf-pem'' ''root-pem'' ''key-pem''
      in cs_has_any store \<and> cs_root_ca_pem store ks = Some ''root-pem''
       \<and> cs_leaf_cert_pem store ''svc-a'' = Some ''leaf-pem'' \<and> cs_leaf_cert_pem store ''svc-b'' = None)"

definition first_cert_contains_sigil_key :: "string list \<Rightarrow> bool" where
  "first_cert_contains_sigil_key ks =
     (let store = cs_update cs_new ''svc-a'' ''leaf'' ''root'' ''sigil-issued-key''
      in (case cs_first_cert store ks of None \<Rightarrow> False | Some cert \<Rightarrow> private_key_pem cert = ''sigil-issued-key''))"

definition update_overwrites_existing :: bool where
  "update_overwrites_existing =
     (let store = cs_update (cs_update cs_new ''svc-a'' ''leaf-v1'' ''root'' ''key-v1'')
                    ''svc-a'' ''leaf-v2'' ''root'' ''key-v2''
      in cs_leaf_cert_pem store ''svc-a'' = Some ''leaf-v2'')"

lemma cert_store_tests:
  "empty_store_has_no_any []" "update_and_read_back [''svc-a'']" "first_cert_contains_sigil_key [''svc-a'']"
  "update_overwrites_existing"
  by (simp_all add: empty_store_has_no_any_def update_and_read_back_def first_cert_contains_sigil_key_def
      update_overwrites_existing_def cs_defs first_value_def fun_eq_iff)

section \<open>\<open>pod_watcher.rs\<close>\<close>

definition make_pod :: "string \<Rightarrow> string \<Rightarrow> Pod" where
  "make_pod app ip = \<lparr>labels = Some [''app'' \<mapsto> app], status = Some \<lparr>pod_ip = Some ip\<rparr>\<rparr>"

definition extract_service_and_ip_ok :: bool where
  "extract_service_and_ip_ok =
     (case ipv4_parse ''10.244.1.5'' of
        None \<Rightarrow> False
      | Some ip \<Rightarrow> extract_service_and_ip (make_pod ''service-alpha'' ''10.244.1.5'') = Some (''service-alpha'', ip))"

definition extract_service_and_ip_no_label :: bool where
  "extract_service_and_ip_no_label =
     (extract_service_and_ip \<lparr>labels = None, status = Some \<lparr>pod_ip = Some ''10.244.1.5''\<rparr>\<rparr> = None)"

definition extract_service_and_ip_no_ip :: bool where
  "extract_service_and_ip_no_ip =
     (extract_service_and_ip \<lparr>labels = Some [''app'' \<mapsto> ''service-alpha''], status = None\<rparr> = None)"

definition snapshot_starts_empty :: bool where
  "snapshot_starts_empty = (snapshot (pw_new ''node-1'') = Map.empty)"

definition snapshot_accumulates_pods :: bool where
  "snapshot_accumulates_pods =
     (case (ipv4_parse ''10.244.1.5'', ipv4_parse ''10.244.2.7'') of
        (Some a, Some b) \<Rightarrow>
          (let snap = snap_push (snap_push (snapshot (pw_new ''node-1'')) ''service-alpha'' a) ''service-beta'' b
           in snap ''service-alpha'' = Some [a] \<and> snap ''service-beta'' = Some [b])
      | _ \<Rightarrow> False)"

lemma ex_parse:
  "ipv4_parse ''10.244.1.5'' = Some (Ipv4Addr 10 244 1 5)" "ipv4_parse ''10.244.2.7'' = Some (Ipv4Addr 10 244 2 7)"
  by code_simp+

lemma pod_watcher_tests:
  "extract_service_and_ip_ok" "extract_service_and_ip_no_label" "extract_service_and_ip_no_ip"
  "snapshot_starts_empty" "snapshot_accumulates_pods"
  by (simp_all add: extract_service_and_ip_ok_def extract_service_and_ip_no_label_def
      extract_service_and_ip_no_ip_def snapshot_starts_empty_def snapshot_accumulates_pods_def ex_parse
      extract_service_and_ip_def make_pod_def pw_new_def snap_push_def)

section \<open>\<open>verdict_sync.rs\<close>\<close>

text \<open>The argument is the order in which the services are visited.\<close>

definition test_key :: "endian \<Rightarrow> Ipv4Addr \<Rightarrow> Ipv4Addr \<Rightarrow> PacketKey" where
  "test_key e s d = \<lparr>pk_src_ip = to_be32 e (u32_from s), pk_dst_ip = to_be32 e (u32_from d)\<rparr>"

definition test_pods :: "PodSnapshot option" where
  "test_pods =
     (case (ipv4_parse ''10.244.1.5'', ipv4_parse ''10.244.2.7'') of
        (Some a, Some b) \<Rightarrow> Some [''alpha'' \<mapsto> [a], ''beta'' \<mapsto> [b]]
      | _ \<Rightarrow> None)"

definition one_way_policy :: PolicyCache where
  "one_way_policy =
     pc_update pc_new [\<lparr>from_service = ''alpha'', to_services = [''beta'']\<rparr>] False ''enforce''"

definition both_ways_policy :: PolicyCache where
  "both_ways_policy =
     pc_update pc_new [\<lparr>from_service = ''alpha'', to_services = [''beta'']\<rparr>,
                       \<lparr>from_service = ''beta'', to_services = [''alpha'']\<rparr>] False ''enforce''"

definition pair_test :: "endian \<Rightarrow> string list \<Rightarrow> PolicyCache \<Rightarrow> u8 \<Rightarrow> u8 \<Rightarrow> bool" where
  "pair_test e ks policy v w =
     (case test_pods of None \<Rightarrow> False | Some pods \<Rightarrow>
      (case compute_verdicts e policy pods ks of None \<Rightarrow> False | Some verdicts \<Rightarrow>
        verdicts (test_key e (Ipv4Addr 10 244 1 5) (Ipv4Addr 10 244 2 7)) = Some v
        \<and> verdicts (test_key e (Ipv4Addr 10 244 2 7) (Ipv4Addr 10 244 1 5)) = Some w))"

definition one_way_allow_generates_correct_verdicts :: "endian \<Rightarrow> string list \<Rightarrow> bool" where
  "one_way_allow_generates_correct_verdicts e ks = pair_test e ks one_way_policy 0 1"

definition bidirectional_policy_both_allowed :: "endian \<Rightarrow> string list \<Rightarrow> bool" where
  "bidirectional_policy_both_allowed e ks = pair_test e ks both_ways_policy 0 0"

definition no_pods_produces_empty_verdict_map :: "endian \<Rightarrow> bool" where
  "no_pods_produces_empty_verdict_map e = (compute_verdicts e one_way_policy Map.empty [] = Some Map.empty)"

lemma test_key_ip_key: "test_key e s d = ip_key e s d"
  by (simp add: test_key_def ip_key_def)

lemma test_pods_ex: "test_pods = Some ex_pods"
  by (simp add: test_pods_def ex_parse ex_pods_def)

lemma test_policies:
  "verdict_of one_way_policy ''alpha'' ''beta'' = 0" "verdict_of one_way_policy ''beta'' ''alpha'' = 1"
  "verdict_of both_ways_policy ''alpha'' ''beta'' = 0" "verdict_of both_ways_policy ''beta'' ''alpha'' = 0"
  by (simp_all add: verdict_of_def one_way_policy_def both_ways_policy_def pc_update_last is_allowed_def)

lemma verdict_sync_tests:
  assumes "ks = [''alpha'', ''beta''] \<or> ks = [''beta'', ''alpha'']"
  shows "one_way_allow_generates_correct_verdicts e ks" "bidirectional_policy_both_allowed e ks"
    "no_pods_produces_empty_verdict_map e"
proof -
  have "iter_order ex_pods [''beta'', ''alpha'']" by (auto simp: iter_order_def ex_pods_def)
  with assms ex_order have order: "iter_order ex_pods ks" by (elim disjE) simp_all
  have keys: "ip_key e (Ipv4Addr 10 244 1 5) (Ipv4Addr 10 244 2 7) \<noteq> ip_key e (Ipv4Addr 10 244 2 7) (Ipv4Addr 10 244 1 5)"
    by (simp add: ip_key_inject)
  have pair: "pair_test e ks policy (verdict_of policy ''alpha'' ''beta'') (verdict_of policy ''beta'' ''alpha'')" for policy
  proof -
    let ?k = "ip_key e (Ipv4Addr 10 244 1 5) (Ipv4Addr 10 244 2 7)"
    let ?k' = "ip_key e (Ipv4Addr 10 244 2 7) (Ipv4Addr 10 244 1 5)"
    let ?v = "verdict_of policy ''alpha'' ''beta''" and ?v' = "verdict_of policy ''beta'' ''alpha''"
    have "entries e policy ex_pods ks = [(?k, ?v), (?k', ?v')] \<or> entries e policy ex_pods ks = [(?k', ?v'), (?k, ?v)]"
      using assms by (elim disjE) (simp_all add: entries_def pair_entries_def ex_pods_sel)
    then have "map_of (rev (entries e policy ex_pods ks)) ?k = Some ?v \<and> map_of (rev (entries e policy ex_pods ks)) ?k' = Some ?v'"
      using keys by (elim disjE) simp_all
    then show ?thesis
      unfolding pair_test_def test_pods_ex option.case compute_verdicts_eq [OF order] test_key_ip_key .
  qed
  show "one_way_allow_generates_correct_verdicts e ks"
    using pair [of one_way_policy] by (simp only: one_way_allow_generates_correct_verdicts_def test_policies)
  show "bidirectional_policy_both_allowed e ks"
    using pair [of both_ways_policy] by (simp only: bidirectional_policy_both_allowed_def test_policies)
  show "no_pods_produces_empty_verdict_map e"
    by (simp add: no_pods_produces_empty_verdict_map_def compute_verdicts_def)
qed

section \<open>\<open>sigil_client.rs\<close>\<close>

definition apply_policy_bundle_updates_cache :: bool where
  "apply_policy_bundle_updates_cache =
     (let c = apply_policy_bundle
                \<lparr>pb_rules = [\<lparr>pr_from_service = ''alpha'', pr_to_services = [''beta'']\<rparr>],
                 pb_default_allow = False, pb_mtls_mode = ''enforce''\<rparr> pc_new
      in is_allowed c ''alpha'' ''beta'' \<and> \<not> is_allowed c ''beta'' ''alpha'')"

definition client_constructs_hello :: bool where
  "client_constructs_hello =
     (let hello = make_hello (sc_new ''sigil:8443'' ''node-1'' ''dev'') [''service-alpha'']
      in ah_node_id hello = ''node-1'' \<and> ah_cluster_id hello = ''dev''
       \<and> ''node-1'' \<in> set (ah_pod_service_ids hello) \<and> ''service-alpha'' \<in> set (ah_pod_service_ids hello))"

definition build_tls_channel_fails_on_empty_store ::
  "('c, 'k, 'r, 'v, 'cc, 'sc) tls_lib \<Rightarrow> (string \<Rightarrow> bytes \<Rightarrow> bytes \<Rightarrow> bytes \<Rightarrow> io_error + 'chan) \<Rightarrow> bool" where
  "build_tls_channel_fails_on_empty_store L endpoint =
     (case build_tls_channel L endpoint ''sigil:8443'' cs_new [] of
        Inr chan \<Rightarrow> False
      | Inl e \<Rightarrow> str_contains e ''empty'')"

lemma sigil_client_tests:
  "apply_policy_bundle_updates_cache" "client_constructs_hello" "build_tls_channel_fails_on_empty_store L endpoint"
  by (simp_all add: apply_policy_bundle_updates_cache_def client_constructs_hello_def
      build_tls_channel_fails_on_empty_store_def apply_policy_bundle_def pc_update_last is_allowed_def make_hello_def
      sc_new_def build_tls_channel_def cs_defs first_value_def str_contains_def)

section \<open>\<open>egress.rs\<close>\<close>

definition host_extraction_basic :: bool where
  "host_extraction_basic =
     (extract_host (''GET / HTTP/1.1'' @ CRLF @ ''Host: service-beta'' @ CRLF @ ''Accept: */*'' @ CRLF @ CRLF)
      = Some ''service-beta'')"

definition host_extraction_with_port :: bool where
  "host_extraction_with_port =
     (extract_host (''GET / HTTP/1.1'' @ CRLF @ ''Host: service-beta:8080'' @ CRLF @ CRLF) = Some ''service-beta'')"

definition host_extraction_missing :: bool where
  "host_extraction_missing =
     (extract_host (''GET / HTTP/1.1'' @ CRLF @ ''Accept: */*'' @ CRLF @ CRLF) = None)"

definition status_extraction_basic :: bool where
  "status_extraction_basic =
     (extract_status_code (''HTTP/1.1 200 OK'' @ CRLF @ ''Content-Length: 2'' @ CRLF @ CRLF @ ''OK'') = Some 200)"

lemmas text_defs = utf8_valid_ascii byte_def graphic_def is_ws1_def starts_with_def to_ascii_lowercase_def
  lower_char_def char_of_def bit_0

lemma egress_tests:
  "host_extraction_basic" "host_extraction_with_port" "host_extraction_missing" "status_extraction_basic"
proof -
  have "extract_host (concat (map (\<lambda>l. l @ CRLF) [''GET / HTTP/1.1'']) @ (''Host:'' @ '' '' @ (''service-beta'' @ []) @ [])
      @ CRLF @ ''Accept: */*'' @ CRLF @ CRLF) = Some ''service-beta''"
    by (rule extract_host_head [OF refl])
      (simp_all add: text_defs)
  then show "host_extraction_basic" by (simp add: host_extraction_basic_def)
  have "extract_host (concat (map (\<lambda>l. l @ CRLF) [''GET / HTTP/1.1'']) @ (''Host:'' @ '' '' @ (''service-beta'' @ '':8080'') @ [])
      @ CRLF @ CRLF) = Some ''service-beta''"
    by (rule extract_host_head [OF refl])
      (simp_all add: text_defs)
  then show "host_extraction_with_port" by (simp add: host_extraction_with_port_def)
  have "str_lines (''GET / HTTP/1.1'' @ CRLF @ ''Accept: */*'' @ CRLF @ CRLF) = [''GET / HTTP/1.1'', ''Accept: */*'', []]"
    using str_lines_CRLF [of "''GET / HTTP/1.1''" "''Accept: */*'' @ CRLF @ CRLF"]
      str_lines_CRLF [of "''Accept: */*''" CRLF] str_lines_CRLF [of "[]" "[]"] by simp
  moreover have "from_utf8 (''GET / HTTP/1.1'' @ CRLF @ ''Accept: */*'' @ CRLF @ CRLF) =
      Some (''GET / HTTP/1.1'' @ CRLF @ ''Accept: */*'' @ CRLF @ CRLF)"
    by (rule from_utf8_ascii) (simp add: byte_def)
  ultimately show "host_extraction_missing"
    by (simp add: host_extraction_missing_def extract_host_def text_defs)
  have "extract_status_code (''HTTP/1.1'' @ '' '' @ dec_string 200 @ '' '' @ ''OK'' @ CRLF
      @ ''Content-Length: 2'' @ CRLF @ CRLF @ ''OK'') = Some (of_nat 200)"
    by (rule extract_status_code_reads_number) (simp_all add: text_defs)
  moreover have "dec_string 200 = ''200''" by code_simp
  ultimately show "status_extraction_basic" by (simp add: status_extraction_basic_def)
qed

end
