(* ===== verification/Float64.thy ===== *)
theory Float64
  imports Main
begin

text \<open>
  The rounding of \<open>float64\<close> as the Go code uses it: integers and products of an integer with a
  constant, which are integers times a power of two, rounded to 53 significant bits, to the nearest
  and ties to even.
\<close>

fun bit_count :: "nat \<Rightarrow> nat" where
  "bit_count n = (if n = 0 then 0 else Suc (bit_count (n div 2)))"

definition round_half_even :: "nat \<Rightarrow> nat \<Rightarrow> nat" where
  "round_half_even p d =
     (if 2 * (p mod d) < d \<or> 2 * (p mod d) = d \<and> even (p div d) then p div d else p div d + 1)"

definition round53 :: "nat \<Rightarrow> nat" where
  "round53 p = (let d = 2 ^ (bit_count p - 53) in round_half_even p d * d)"

declare bit_count.simps [simp del]

lemma bit_count_bounds: "0 < p \<Longrightarrow> 2 ^ (bit_count p - 1) \<le> p \<and> p < 2 ^ bit_count p \<and> 0 < bit_count p"
proof (induction p rule: bit_count.induct)
  case (1 p)
  show ?case
  proof (cases "p div 2 = 0")
    case True
    with "1.prems" have "p = 1" by simp
    then show ?thesis by (simp add: bit_count.simps)
  next
    case False
    let ?h = "p div 2"
    have ih: "2 ^ (bit_count ?h - 1) \<le> ?h \<and> ?h < 2 ^ bit_count ?h \<and> 0 < bit_count ?h"
      using "1.IH" "1.prems" False by simp
    have s: "bit_count p = Suc (bit_count ?h)" using "1.prems" by (subst bit_count.simps) simp
    have pw: "(2::nat) ^ bit_count ?h = 2 * 2 ^ (bit_count ?h - 1)"
      using ih by (metis Suc_diff_1 power_Suc)
    have "p < 2 * 2 ^ bit_count ?h" using ih by linarith
    moreover have "2 ^ bit_count ?h \<le> p" using ih pw by linarith
    ultimately show ?thesis by (simp add: s)
  qed
qed

lemma round_half_even_le: "0 < d \<Longrightarrow> 2 * (round_half_even p d * d) \<le> 2 * p + d"
proof -
  assume d: "0 < d"
  define q where "q = p div d * d"
  have p: "p = q + p mod d" by (simp add: q_def)
  show ?thesis
  proof (cases "2 * (p mod d) < d \<or> 2 * (p mod d) = d \<and> even (p div d)")
    case True
    then have "round_half_even p d * d = q" by (simp add: round_half_even_def q_def)
    then show ?thesis using p by linarith
  next
    case False
    then have "d \<le> 2 * (p mod d)" by linarith
    moreover have "round_half_even p d * d = q + d" unfolding round_half_even_def if_not_P [OF False] by (simp add: q_def)
    ultimately show ?thesis using p by linarith
  qed
qed

text \<open>Rounding to 53 bits moves a number by at most half a unit in the last place.\<close>

lemma round53_le: "2 ^ 53 * round53 p \<le> (2 ^ 53 + 1) * p"
proof (cases "p = 0")
  case True
  then show ?thesis by (simp add: round53_def round_half_even_def bit_count.simps)
next
  case False
  let ?e = "bit_count p - 53"
  show ?thesis
  proof (cases "?e = 0")
    case True
    then show ?thesis by (simp add: round53_def round_half_even_def)
  next
    case big: False
    have "2 ^ (bit_count p - 1) \<le> p" using bit_count_bounds [of p] False by simp
    moreover have "bit_count p - 1 = 52 + ?e" using big by simp
    ultimately have "2 ^ 52 * 2 ^ ?e \<le> p" by (simp only: power_add)
    moreover have "2 * round53 p \<le> 2 * p + 2 ^ ?e"
      using round_half_even_le [of "2 ^ ?e" p] by (simp add: round53_def Let_def)
    ultimately show ?thesis by simp
  qed
qed

text \<open>The other bound, and what both give: a product with a larger factor is not rounded below.\<close>

lemma round_half_even_ge: "0 < d \<Longrightarrow> 2 * p \<le> 2 * (round_half_even p d * d) + d"
proof -
  assume d: "0 < d"
  define q where "q = p div d * d"
  have p: "p = q + p mod d" by (simp add: q_def)
  have m: "p mod d < d" using d by simp
  show ?thesis
  proof (cases "2 * (p mod d) < d \<or> 2 * (p mod d) = d \<and> even (p div d)")
    case True
    then have "round_half_even p d * d = q" by (simp add: round_half_even_def q_def)
    then show ?thesis using p True by linarith
  next
    case False
    have "round_half_even p d * d = q + d" unfolding round_half_even_def if_not_P [OF False] by (simp add: q_def)
    then show ?thesis using p m by linarith
  qed
qed

lemma round53_ge: "2 ^ 53 * p \<le> 2 ^ 53 * round53 p + p"
proof (cases "bit_count p - 53 = 0")
  case True
  then show ?thesis by (simp add: round53_def round_half_even_def)
next
  case big: False
  let ?e = "bit_count p - 53"
  have "bit_count 0 = 0" by (subst bit_count.simps) simp
  then have "p \<noteq> 0" using big by (intro notI) simp
  then have "2 ^ (bit_count p - 1) \<le> p" using bit_count_bounds [of p] by simp
  moreover have "bit_count p - 1 = 52 + ?e" using big by simp
  ultimately have "2 ^ 52 * 2 ^ ?e \<le> p" by (simp only: power_add)
  moreover have "2 * p \<le> 2 * round53 p + 2 ^ ?e"
    using round_half_even_ge [of "2 ^ ?e" p] by (simp add: round53_def Let_def)
  ultimately show ?thesis by simp
qed

lemma round53_mono_factor:
  assumes "(2 ^ 53 + 1) * a \<le> (2 ^ 53 - 1) * b"
  shows "round53 (n * a) \<le> round53 (n * b)"
proof -
  have "2 ^ 53 * round53 (n * a) \<le> (2 ^ 53 + 1) * (n * a)" by (rule round53_le)
  also have "\<dots> = n * ((2 ^ 53 + 1) * a)" by (simp only: ac_simps)
  also have "\<dots> \<le> n * ((2 ^ 53 - 1) * b)" using assms by (rule mult_le_mono2)
  also have "\<dots> \<le> 2 ^ 53 * round53 (n * b)" using round53_ge [of "n * b"] by (simp add: algebra_simps)
  finally show ?thesis by simp
qed

end
