(* ===== verification/Sigil_CA.thy ===== *)
theory Sigil_CA
  imports Rust_Str Float64 "HOL-Library.List_Lexorder" "HOL-Library.Char_ord" "HOL-Library.Finite_Map"
begin

text \<open>
  \<open>sigil/internal/ca/ca.go\<close>: the certificate authority of the control plane. It owns the root key,
  issues one leaf certificate per service and remembers it in a table. The cryptography, the X.509
  and PEM encodings and the database are parameters; the locale \<open>cert_table\<close> states what the three
  SQL statements of the code do to the table, and it is interpreted on a list of rows. Times are
  nanoseconds since the epoch.
\<close>

section \<open>Durations\<close>

text \<open>
  \<open>time.Duration(float64(ttl) * 0.80)\<close>: \<open>float64\<close> rounds to 53 significant bits, to the nearest
  and ties to even; the constant is the double nearest to 0.8, which is \<open>3602879701896397 / 2^52\<close>;
  the product is rounded again and truncated. The lifetime is positive here.
\<close>

definition rotate_after :: "nat \<Rightarrow> nat" where
  "rotate_after ttl = round53 (round53 ttl * 3602879701896397) div 2 ^ 52"

definition second :: int where "second = 1000000000"

text \<open>\<open>Unix\<close> and \<open>time.Unix(s, 0)\<close>.\<close>

definition unix :: "int \<Rightarrow> int" where "unix t = t div second"

definition of_unix :: "int \<Rightarrow> int" where "of_unix s = s * second"

definition defaultLeafTTL :: nat where "defaultLeafTTL = 24 * 3600 * 1000000000"

lemma rotate_after_le: "rotate_after ttl \<le> ttl"
proof -
  let ?r = "round53 ttl" and ?m = "3602879701896397 :: nat"
  let ?x = "round53 (?r * ?m)"
  have "rotate_after ttl * 2 ^ 52 \<le> ?x" by (simp add: rotate_after_def)
  then have "2 ^ 53 * (2 ^ 53 * (rotate_after ttl * 2 ^ 52)) \<le> 2 ^ 53 * (2 ^ 53 * ?x)" by simp
  also have "\<dots> \<le> 2 ^ 53 * ((2 ^ 53 + 1) * (?r * ?m))" using round53_le [of "?r * ?m"] by simp
  also have "\<dots> = (2 ^ 53 + 1) * ?m * (2 ^ 53 * ?r)" by (simp only: ac_simps)
  also have "\<dots> \<le> (2 ^ 53 + 1) * ?m * ((2 ^ 53 + 1) * ttl)"
    using round53_le [of ttl] by (rule mult_le_mono2)
  finally show ?thesis by simp
qed

section \<open>Data\<close>

datatype KeyUsage = KeyUsageDigitalSignature | KeyUsageCertSign | KeyUsageCRLSign
datatype ExtKeyUsage = ExtKeyUsageClientAuth | ExtKeyUsageServerAuth

text \<open>The fields of \<open>x509.Certificate\<close> that the code sets.\<close>

record 'u Certificate =
  ct_serial :: nat
  ct_common_name :: string
  ct_organization :: "string list"
  ct_uris :: "'u list"
  ct_dns_names :: "string list"
  ct_not_before :: int
  ct_not_after :: int
  ct_key_usage :: "KeyUsage set"
  ct_ext_key_usage :: "ExtKeyUsage list"
  ct_basic_constraints_valid :: bool
  ct_is_ca :: bool

record IssuedCert =
  ic_service_id :: string
  ic_cluster_id :: string
  ic_namespace :: string
  ic_cert_pem :: bytes
  ic_key_pem :: bytes
  ic_root_ca_pem :: bytes
  ic_expires_at :: int
  ic_rotate_at :: int
  ic_serial_number :: string

text \<open>A row of the table \<open>certs\<close>.\<close>

record CertRow =
  cr_serial :: string
  cr_service_id :: string
  cr_cluster_id :: string
  cr_namespace :: string
  cr_cert_pem :: bytes
  cr_expires_at :: int
  cr_rotate_at :: int

record ('u, 'k, 'db) CA =
  ca_root_key :: 'k
  ca_root_cert :: "'u Certificate"
  ca_root_pem :: bytes
  ca_db :: 'db
  ca_leaf_ttl :: nat

text \<open>
  The libraries. \<open>create_certificate\<close> takes the template, the parent, the key certified and the
  signing key, and the random bits that the signature uses.
\<close>

record ('u, 'k, 'db) ca_lib =
  url_parse :: "string \<Rightarrow> string + 'u"
  create_certificate :: "nat \<Rightarrow> 'u Certificate \<Rightarrow> 'u Certificate \<Rightarrow> 'k \<Rightarrow> 'k \<Rightarrow> string + bytes"
  parse_certificate :: "bytes \<Rightarrow> string + 'u Certificate"
  marshal_pkcs8 :: "'k \<Rightarrow> string + bytes"
  marshal_ec :: "'k \<Rightarrow> string + bytes"
  parse_ec :: "bytes \<Rightarrow> string + 'k"
  pem_encode :: "string \<Rightarrow> bytes \<Rightarrow> bytes"
  pem_decode :: "bytes \<Rightarrow> bytes option"
  tbl_create :: "'db \<Rightarrow> string + 'db"
  tbl_replace :: "'db \<Rightarrow> CertRow \<Rightarrow> string + 'db"
  tbl_delete :: "'db \<Rightarrow> string \<Rightarrow> string + 'db"
  tbl_rows :: "'db \<Rightarrow> string + CertRow list"

text \<open>What one call draws from outside: the random serial, the new key, the signature's bits, the clock.\<close>

record 'k issue_env =
  ie_serial :: "string + nat"
  ie_key :: "string + 'k"
  ie_sign :: nat
  ie_now :: int

section \<open>Operations\<close>

definition buildSPIFFEURI :: "string \<Rightarrow> string \<Rightarrow> string \<Rightarrow> string" where
  "buildSPIFFEURI clusterID namespace serviceID =
     ''spiffe'' @ ''://'' @ ''meshlite.local'' @ ''/cluster/'' @ clusterID @ ''/ns/'' @ namespace @ ''/svc/'' @ serviceID"

definition persistCert :: "('u, 'k, 'db) ca_lib \<Rightarrow> ('u, 'k, 'db) CA \<Rightarrow> string \<Rightarrow> string \<Rightarrow> string \<Rightarrow> string \<Rightarrow>
    bytes \<Rightarrow> int \<Rightarrow> int \<Rightarrow> string + ('u, 'k, 'db) CA" where
  "persistCert L c serial serviceID clusterID namespace certPEM expiresAt rotateAt =
     (case tbl_replace L (ca_db c)
        \<lparr>cr_serial = serial, cr_service_id = serviceID, cr_cluster_id = clusterID, cr_namespace = namespace,
         cr_cert_pem = certPEM, cr_expires_at = unix expiresAt, cr_rotate_at = unix rotateAt\<rparr> of
        Inl e \<Rightarrow> Inl e
      | Inr db \<Rightarrow> Inr (c\<lparr>ca_db := db\<rparr>))"

text \<open>
  \<open>Issue\<close> and \<open>IssueWithDNS\<close> are the same code but for the DNS names in the template and the
  encoding of the key; \<open>issue_leaf\<close> has these two as arguments.
\<close>

definition leaf_template :: "nat \<Rightarrow> string \<Rightarrow> 'u \<Rightarrow> string list \<Rightarrow> int \<Rightarrow> int \<Rightarrow> 'u Certificate" where
  "leaf_template serial serviceID u dnsNames now expiry =
     \<lparr>ct_serial = serial, ct_common_name = serviceID, ct_organization = [''MeshLite''], ct_uris = [u],
      ct_dns_names = dnsNames, ct_not_before = now, ct_not_after = expiry,
      ct_key_usage = {KeyUsageDigitalSignature},
      ct_ext_key_usage = [ExtKeyUsageClientAuth, ExtKeyUsageServerAuth],
      ct_basic_constraints_valid = True, ct_is_ca = False\<rparr>"

definition issue_leaf :: "('u, 'k, 'db) ca_lib \<Rightarrow> ('k \<Rightarrow> string + bytes) \<Rightarrow> string \<Rightarrow> 'k issue_env \<Rightarrow>
    ('u, 'k, 'db) CA \<Rightarrow> string \<Rightarrow> string \<Rightarrow> string \<Rightarrow> string list \<Rightarrow> string + IssuedCert \<times> ('u, 'k, 'db) CA" where
  "issue_leaf L marshal label env c serviceID clusterID namespace dnsNames =
     and_then (wrap_err ''ca: generate serial'' (ie_serial env)) (\<lambda>serial.
     and_then (wrap_err ''ca: parse spiffe URI'' (url_parse L (buildSPIFFEURI clusterID namespace serviceID))) (\<lambda>u.
     and_then (wrap_err ''ca: generate leaf key'' (ie_key env)) (\<lambda>leafKey.
     let now = ie_now env;
         expiry = now + int (ca_leaf_ttl c);
         rotateAtTime = now + int (rotate_after (ca_leaf_ttl c));
         tmpl = leaf_template serial serviceID u dnsNames now expiry
     in
     and_then (wrap_err ''ca: sign leaf cert''
       (create_certificate L (ie_sign env) tmpl (ca_root_cert c) leafKey (ca_root_key c))) (\<lambda>certDER.
     let certPEM = pem_encode L ''CERTIFICATE'' certDER in
     and_then (wrap_err ''ca: marshal leaf key'' (marshal leafKey)) (\<lambda>keyDER.
     let keyPEM = pem_encode L label keyDER in
     and_then (wrap_err ''ca: persist cert''
       (persistCert L c (dec_string serial) serviceID clusterID namespace certPEM expiry rotateAtTime)) (\<lambda>c'.
     Inr (\<lparr>ic_service_id = serviceID, ic_cluster_id = clusterID, ic_namespace = namespace,
           ic_cert_pem = certPEM, ic_key_pem = keyPEM, ic_root_ca_pem = ca_root_pem c,
           ic_expires_at = expiry, ic_rotate_at = rotateAtTime, ic_serial_number = dec_string serial\<rparr>, c')))))))"

definition Issue :: "('u, 'k, 'db) ca_lib \<Rightarrow> 'k issue_env \<Rightarrow> ('u, 'k, 'db) CA \<Rightarrow> string \<Rightarrow> string \<Rightarrow> string \<Rightarrow>
    string + IssuedCert \<times> ('u, 'k, 'db) CA" where
  "Issue L env c serviceID clusterID namespace =
     issue_leaf L (marshal_pkcs8 L) ''PRIVATE KEY'' env c serviceID clusterID namespace []"

definition IssueWithDNS :: "('u, 'k, 'db) ca_lib \<Rightarrow> 'k issue_env \<Rightarrow> ('u, 'k, 'db) CA \<Rightarrow> string \<Rightarrow> string \<Rightarrow> string \<Rightarrow>
    string list \<Rightarrow> string + IssuedCert \<times> ('u, 'k, 'db) CA" where
  "IssueWithDNS L env c serviceID clusterID namespace dnsNames =
     issue_leaf L (marshal_ec L) ''EC PRIVATE KEY'' env c serviceID clusterID namespace dnsNames"

definition Revoke :: "('u, 'k, 'db) ca_lib \<Rightarrow> ('u, 'k, 'db) CA \<Rightarrow> string \<Rightarrow> string + ('u, 'k, 'db) CA" where
  "Revoke L c serviceID =
     (case tbl_delete L (ca_db c) serviceID of
        Inl e \<Rightarrow> Inl (''ca: revoke '' @ serviceID @ '': '' @ e)
      | Inr db \<Rightarrow> Inr (c\<lparr>ca_db := db\<rparr>))"

definition issued_of_row :: "('u, 'k, 'db) CA \<Rightarrow> CertRow \<Rightarrow> IssuedCert" where
  "issued_of_row c r =
     \<lparr>ic_service_id = cr_service_id r, ic_cluster_id = cr_cluster_id r, ic_namespace = cr_namespace r,
      ic_cert_pem = cr_cert_pem r, ic_key_pem = [], ic_root_ca_pem = ca_root_pem c,
      ic_expires_at = of_unix (cr_expires_at r), ic_rotate_at = of_unix (cr_rotate_at r), ic_serial_number = []\<rparr>"

definition ListCerts :: "('u, 'k, 'db) ca_lib \<Rightarrow> ('u, 'k, 'db) CA \<Rightarrow> string + IssuedCert list" where
  "ListCerts L c =
     and_then (wrap_err ''ca: list certs'' (tbl_rows L (ca_db c))) (\<lambda>rows. Inr (map (issued_of_row c) rows))"

definition RootCAPEM :: "('u, 'k, 'db) CA \<Rightarrow> bytes" where
  "RootCAPEM c = ca_root_pem c"

definition IsNewRootCA :: "int \<Rightarrow> ('u, 'k, 'db) CA \<Rightarrow> bool" where
  "IsNewRootCA now c \<longleftrightarrow> now + (- 5 * second) < ct_not_before (ca_root_cert c)"

section \<open>The root key on disk\<close>

text \<open>
  A failed write may leave anything behind (\<open>os.WriteFile\<close> truncates first): the outcome of a
  write says what. Reading a file that exists may fail too.
\<close>

type_synonym files = "string \<rightharpoonup> bytes"

datatype write_outcome = Written | WriteFailed string "bytes option"

record 'k root_env =
  re_key :: "string + 'k"
  re_serial :: "string + nat"
  re_sign :: nat
  re_not_before :: int
  re_not_after_base :: int
  re_write :: "string \<Rightarrow> write_outcome"
  re_read_fails :: "string \<Rightarrow> string option"

definition fileExists :: "files \<Rightarrow> string \<Rightarrow> bool" where
  "fileExists fs path \<longleftrightarrow> path \<in> dom fs"

definition read_file :: "'k root_env \<Rightarrow> files \<Rightarrow> string \<Rightarrow> string + bytes" where
  "read_file env fs path =
     (case re_read_fails env path of
        Some e \<Rightarrow> Inl e
      | None \<Rightarrow> (case fs path of None \<Rightarrow> Inl ''no such file or directory'' | Some b \<Rightarrow> Inr b))"

definition write_file :: "'k root_env \<Rightarrow> files \<Rightarrow> string \<Rightarrow> bytes \<Rightarrow> (string + unit) \<times> files" where
  "write_file env fs path data =
     (case re_write env path of
        Written \<Rightarrow> (Inr (), fs(path \<mapsto> data))
      | WriteFailed e left \<Rightarrow> (Inl e, (case left of None \<Rightarrow> fs | Some b \<Rightarrow> fs(path \<mapsto> b))))"

definition root_template :: "'k root_env \<Rightarrow> nat \<Rightarrow> 'u Certificate" where
  "root_template env serial =
     \<lparr>ct_serial = serial, ct_common_name = ''MeshLite Root CA'', ct_organization = [''MeshLite''], ct_uris = [],
      ct_dns_names = [], ct_not_before = re_not_before env,
      ct_not_after = re_not_after_base env + 10 * 365 * 24 * 3600 * second,
      ct_key_usage = {KeyUsageCertSign, KeyUsageCRLSign}, ct_ext_key_usage = [],
      ct_basic_constraints_valid = True, ct_is_ca = True\<rparr>"

text \<open>The new root: everything before the files are written.\<close>

definition make_root :: "('u, 'k, 'db) ca_lib \<Rightarrow> 'k root_env \<Rightarrow> string + 'k \<times> 'u Certificate \<times> bytes \<times> bytes" where
  "make_root L env =
     and_then (wrap_err ''generate root key'' (re_key env)) (\<lambda>key.
     and_then (wrap_err ''generate root serial'' (re_serial env)) (\<lambda>serial.
     let tmpl = root_template env serial in
     and_then (wrap_err ''sign root cert'' (create_certificate L (re_sign env) tmpl tmpl key key)) (\<lambda>certDER.
     and_then (wrap_err ''parse root cert'' (parse_certificate L certDER)) (\<lambda>cert.
     let certPEM = pem_encode L ''CERTIFICATE'' certDER in
     and_then (wrap_err ''marshal root key'' (marshal_ec L key)) (\<lambda>keyDER.
     let keyPEM = pem_encode L ''EC PRIVATE KEY'' keyDER in
     Inr (key, cert, certPEM, keyPEM))))))"

definition generateRootCA :: "('u, 'k, 'db) ca_lib \<Rightarrow> 'k root_env \<Rightarrow> files \<Rightarrow> string \<Rightarrow> string \<Rightarrow>
    (string + 'k \<times> 'u Certificate \<times> bytes) \<times> files" where
  "generateRootCA L env fs keyPath certPath =
     (case make_root L env of
        Inl e \<Rightarrow> (Inl e, fs)
      | Inr (key, cert, certPEM, keyPEM) \<Rightarrow>
          (case write_file env fs keyPath keyPEM of
             (Inl e, fs1) \<Rightarrow> (Inl (''write root key: '' @ e), fs1)
           | (Inr _, fs1) \<Rightarrow>
               (case write_file env fs1 certPath certPEM of
                  (Inl e, fs2) \<Rightarrow> (Inl (''write root cert: '' @ e), fs2)
                | (Inr _, fs2) \<Rightarrow> (Inr (key, cert, certPEM), fs2))))"

definition loadRootCA :: "('u, 'k, 'db) ca_lib \<Rightarrow> 'k root_env \<Rightarrow> files \<Rightarrow> string \<Rightarrow> string \<Rightarrow>
    string + 'k \<times> 'u Certificate \<times> bytes" where
  "loadRootCA L env fs keyPath certPath =
     and_then (wrap_err ''read root key'' (read_file env fs keyPath)) (\<lambda>keyPEM.
     and_then (wrap_err ''read root cert'' (read_file env fs certPath)) (\<lambda>certPEM.
     case pem_decode L keyPEM of
       None \<Rightarrow> Inl ''root key PEM is empty or malformed''
     | Some keyDER \<Rightarrow>
         and_then (wrap_err ''parse root key'' (parse_ec L keyDER)) (\<lambda>key.
         case pem_decode L certPEM of
           None \<Rightarrow> Inl ''root cert PEM is empty or malformed''
         | Some certDER \<Rightarrow>
             and_then (wrap_err ''parse root cert'' (parse_certificate L certDER)) (\<lambda>cert.
             Inr (key, cert, certPEM)))))"

text \<open>\<open>opened\<close> is the outcome of \<open>sql.Open\<close>, \<open>leafTTL\<close> the configured lifetime in nanoseconds.\<close>

definition ca_new :: "('u, 'k, 'db) ca_lib \<Rightarrow> 'k root_env \<Rightarrow> string + 'db \<Rightarrow> files \<Rightarrow> string \<Rightarrow> string \<Rightarrow> int \<Rightarrow>
    (string + ('u, 'k, 'db) CA) \<times> files" where
  "ca_new L env opened fs keyPath certPath leafTTL =
     (let ttl = (if leafTTL \<le> 0 then defaultLeafTTL else nat leafTTL) in
      case and_then (wrap_err ''ca: open db'' opened) (\<lambda>db. wrap_err ''ca: init schema'' (tbl_create L db)) of
        Inl e \<Rightarrow> (Inl e, fs)
      | Inr db \<Rightarrow>
          (case (if fileExists fs keyPath \<and> fileExists fs certPath
                 then (wrap_err ''ca: load existing root CA'' (loadRootCA L env fs keyPath certPath), fs)
                 else (case generateRootCA L env fs keyPath certPath of
                         (r, fs') \<Rightarrow> (wrap_err ''ca: generate root CA'' r, fs'))) of
             (Inl e, fs') \<Rightarrow> (Inl e, fs')
           | (Inr (key, cert, certPEM), fs') \<Rightarrow>
               (Inr \<lparr>ca_root_key = key, ca_root_cert = cert, ca_root_pem = certPEM, ca_db = db, ca_leaf_ttl = ttl\<rparr>, fs')))"

section \<open>The table\<close>

text \<open>
  What the three statements do, over the rows by service: \<open>INSERT OR REPLACE\<close> removes the row of
  the same service and the row of the same serial and adds the new one, \<open>DELETE\<close> removes the row of
  the service, \<open>SELECT ... ORDER BY service_id\<close> lists all rows; any of them can fail, and then
  changes nothing.
\<close>

definition put_row :: "(string \<rightharpoonup> CertRow) \<Rightarrow> CertRow \<Rightarrow> (string \<rightharpoonup> CertRow)" where
  "put_row m r = (\<lambda>s. if s = cr_service_id r then Some r
     else case m s of None \<Rightarrow> None | Some q \<Rightarrow> if cr_serial q = cr_serial r then None else Some q)"

definition row_of_issued :: "IssuedCert \<Rightarrow> CertRow" where
  "row_of_issued ic =
     \<lparr>cr_serial = ic_serial_number ic, cr_service_id = ic_service_id ic, cr_cluster_id = ic_cluster_id ic,
      cr_namespace = ic_namespace ic, cr_cert_pem = ic_cert_pem ic,
      cr_expires_at = unix (ic_expires_at ic), cr_rotate_at = unix (ic_rotate_at ic)\<rparr>"

lemma row_of_issued_sel [simp]:
  "cr_service_id (row_of_issued ic) = ic_service_id ic"
  "cr_serial (row_of_issued ic) = ic_serial_number ic"
  "cr_cert_pem (row_of_issued ic) = ic_cert_pem ic"
  "cr_expires_at (row_of_issued ic) = unix (ic_expires_at ic)"
  by (simp_all add: row_of_issued_def)

lemma persistCert_Inr:
  "persistCert L c serial sid cl ns pem expires rot = Inr c' \<longleftrightarrow>
     (\<exists>db. tbl_replace L (ca_db c) \<lparr>cr_serial = serial, cr_service_id = sid, cr_cluster_id = cl, cr_namespace = ns,
             cr_cert_pem = pem, cr_expires_at = unix expires, cr_rotate_at = unix rot\<rparr> = Inr db \<and> c' = c\<lparr>ca_db := db\<rparr>)"
  by (auto simp: persistCert_def split: sum.split)

lemma issue_leaf_Inr:
  "issue_leaf L marshal label env c sid cl ns dns = Inr (ic, c') \<longleftrightarrow>
     (\<exists>serial u k der kd db. ie_serial env = Inr serial \<and> url_parse L (buildSPIFFEURI cl ns sid) = Inr u
        \<and> ie_key env = Inr k
        \<and> create_certificate L (ie_sign env)
            (leaf_template serial sid u dns (ie_now env) (ie_now env + int (ca_leaf_ttl c)))
            (ca_root_cert c) k (ca_root_key c) = Inr der
        \<and> marshal k = Inr kd
        \<and> ic = \<lparr>ic_service_id = sid, ic_cluster_id = cl, ic_namespace = ns,
                ic_cert_pem = pem_encode L ''CERTIFICATE'' der, ic_key_pem = pem_encode L label kd,
                ic_root_ca_pem = ca_root_pem c, ic_expires_at = ie_now env + int (ca_leaf_ttl c),
                ic_rotate_at = ie_now env + int (rotate_after (ca_leaf_ttl c)),
                ic_serial_number = dec_string serial\<rparr>
        \<and> tbl_replace L (ca_db c) (row_of_issued ic) = Inr db \<and> c' = c\<lparr>ca_db := db\<rparr>)"
proof (cases "ie_serial env")
  case serial: (Inr serial)
  show ?thesis
  proof (cases "url_parse L (buildSPIFFEURI cl ns sid)")
    case u: (Inr u)
    show ?thesis
    proof (cases "ie_key env")
      case k: (Inr k)
      show ?thesis
      proof (cases "create_certificate L (ie_sign env)
            (leaf_template serial sid u dns (ie_now env) (ie_now env + int (ca_leaf_ttl c)))
            (ca_root_cert c) k (ca_root_key c)")
        case der: (Inr der)
        show ?thesis
          by (cases "marshal k")
            (auto simp: serial u k der issue_leaf_def and_then_Inr_iff Let_def persistCert_Inr row_of_issued_def)
      qed (simp add: serial u k issue_leaf_def Let_def)
    qed (simp add: serial u issue_leaf_def)
  qed (simp add: serial issue_leaf_def)
qed (simp add: issue_leaf_def)

locale cert_table =
  fixes L :: "('u, 'k, 'db) ca_lib"
    and content :: "'db \<Rightarrow> string \<rightharpoonup> CertRow"
  assumes content_key: "content d s = Some r \<Longrightarrow> cr_service_id r = s"
    and create_content: "tbl_create L d = Inr d' \<Longrightarrow> content d' = content d"
    and replace_content: "tbl_replace L d r = Inr d' \<Longrightarrow> content d' = put_row (content d) r"
    and delete_content: "tbl_delete L d s = Inr d' \<Longrightarrow> content d' = (content d)(s := None)"
    and rows_content: "tbl_rows L d = Inr rs \<Longrightarrow>
      sorted_wrt (<) (map cr_service_id rs) \<and> set rs = ran (content d)"
begin

lemma issue_content:
  assumes "issue_leaf L marshal label env c sid cl ns dns = Inr (ic, c')"
  shows "content (ca_db c') = put_row (content (ca_db c)) (row_of_issued ic)" and "ic_service_id ic = sid"
  using assms unfolding issue_leaf_Inr by (auto dest: replace_content)

lemma revoke_content: "Revoke L c s = Inr c' \<Longrightarrow> content (ca_db c') = (content (ca_db c))(s := None)"
  by (auto simp: Revoke_def dest!: delete_content split: sum.splits)

lemma list_content:
  assumes "ListCerts L c = Inr cs"
  shows "sorted_wrt (<) (map ic_service_id cs)"
    and "set cs = issued_of_row c ` ran (content (ca_db c))"
  using assms rows_content [of "ca_db c"]
  by (auto simp: ListCerts_def and_then_Inr_iff o_def issued_of_row_def)

lemma list_find:
  assumes "ListCerts L c = Inr cs"
  shows "find (\<lambda>ic. ic_service_id ic = s) cs = map_option (issued_of_row c) (content (ca_db c) s)"
proof (cases "content (ca_db c) s")
  case None
  have "ic_service_id ic \<noteq> s" if ic: "ic \<in> set cs" for ic
  proof -
    from ic obtain s' q where q: "content (ca_db c) s' = Some q" "ic = issued_of_row c q"
      unfolding list_content(2) [OF assms] ran_def by blast
    have "ic_service_id ic = s'" using content_key [OF q(1)] by (simp add: q(2) issued_of_row_def)
    then show ?thesis using None q(1) by fastforce
  qed
  then have "find (\<lambda>ic. ic_service_id ic = s) cs = None" unfolding find_None_iff by blast
  then show ?thesis using None by simp
next
  case (Some r)
  let ?ic = "issued_of_row c r"
  have mem: "?ic \<in> set cs" using Some list_content(2) [OF assms] by (auto simp: ran_def)
  have id: "ic_service_id ?ic = s" using content_key [OF Some] by (simp add: issued_of_row_def)
  have d: "distinct (map ic_service_id cs)"
    using list_content(1) [OF assms] by (simp add: strict_sorted_iff)
  have "find (\<lambda>ic. ic_service_id ic = s) cs \<noteq> None" using mem id by (auto simp: find_None_iff)
  then obtain jc where jc: "find (\<lambda>ic. ic_service_id ic = s) cs = Some jc" by blast
  then have "jc \<in> set cs" "ic_service_id jc = s" by (auto simp: find_Some_iff)
  note jc_in = this
  have inj: "inj_on ic_service_id (set cs)" using d by (simp add: distinct_map)
  have "ic_service_id jc = ic_service_id ?ic" using jc_in(2) id by simp
  from inj_onD [OF inj this jc_in(1) mem] show ?thesis using jc Some by simp
qed

end

section \<open>A table\<close>

text \<open>The table as a finite map from the service to its row.\<close>

type_synonym cert_map = "(string, CertRow) fmap"

definition fm_content :: "cert_map \<Rightarrow> string \<rightharpoonup> CertRow" where
  "fm_content d = (\<lambda>s. case fmlookup d s of None \<Rightarrow> None | Some r \<Rightarrow> if cr_service_id r = s then Some r else None)"

definition fm_replace :: "cert_map \<Rightarrow> CertRow \<Rightarrow> string + cert_map" where
  "fm_replace d r = Inr (fmupd (cr_service_id r) r
     (fmfilter (\<lambda>s. case fm_content d s of None \<Rightarrow> False | Some q \<Rightarrow> cr_serial q \<noteq> cr_serial r) d))"

definition fm_delete :: "cert_map \<Rightarrow> string \<Rightarrow> string + cert_map" where
  "fm_delete d s = Inr (fmdrop s d)"

definition fm_rows :: "cert_map \<Rightarrow> string + CertRow list" where
  "fm_rows d = Inr (map (\<lambda>s. the (fm_content d s)) (sorted_list_of_set (dom (fm_content d))))"

text \<open>
  Libraries for the examples: a certificate is encoded by its name and the number of its key, a
  PEM block by a letter in front.
\<close>

definition ex_ca_lib :: "(string, nat, cert_map) ca_lib" where
  "ex_ca_lib = \<lparr>url_parse = Inr,
     create_certificate = (\<lambda>rnd tmpl parent key signer. Inr (ct_common_name tmpl)),
     parse_certificate = (\<lambda>der. Inr (leaf_template 0 der [] [] 0 0)),
     marshal_pkcs8 = (\<lambda>k. Inr (dec_string k)), marshal_ec = (\<lambda>k. Inr (dec_string k)),
     parse_ec = (\<lambda>b. Inr (dec_val b)), pem_encode = (\<lambda>label b. CHR ''P'' # b),
     pem_decode = (\<lambda>b. case b of [] \<Rightarrow> None | x # xs \<Rightarrow> Some xs),
     tbl_create = Inr, tbl_replace = fm_replace, tbl_delete = fm_delete, tbl_rows = fm_rows\<rparr>"

lemma ex_ca_lib_sel [simp]:
  "url_parse ex_ca_lib = Inr" "tbl_create ex_ca_lib = Inr" "tbl_replace ex_ca_lib = fm_replace"
  "tbl_delete ex_ca_lib = fm_delete" "tbl_rows ex_ca_lib = fm_rows"
  "create_certificate ex_ca_lib rnd tmpl parent key signer = Inr (ct_common_name tmpl)"
  "marshal_pkcs8 ex_ca_lib k = Inr (dec_string k)" "marshal_ec ex_ca_lib k = Inr (dec_string k)"
  "parse_ec ex_ca_lib b = Inr (dec_val b)" "pem_encode ex_ca_lib label b = CHR ''P'' # b"
  "pem_decode ex_ca_lib (x # b) = Some b"
  "parse_certificate ex_ca_lib der = Inr (leaf_template 0 der [] [] 0 0)"
  by (simp_all add: ex_ca_lib_def)

lemma finite_fm_content: "finite (dom (fm_content d))"
proof -
  have "dom (fm_content d) \<subseteq> fmdom' d"
    by (auto simp: fm_content_def split: option.splits intro: fmdom'I)
  then show ?thesis by (rule finite_subset) simp
qed

lemma fm_content_key: "fm_content d s = Some r \<Longrightarrow> cr_service_id r = s"
  by (auto simp: fm_content_def split: option.splits if_splits)

lemma fm_content_replace: "fm_replace d r = Inr d' \<Longrightarrow> fm_content d' = put_row (fm_content d) r"
proof
  fix x
  assume "fm_replace d r = Inr d'"
  then have d': "d' = fmupd (cr_service_id r) r
     (fmfilter (\<lambda>s. case fm_content d s of None \<Rightarrow> False | Some q \<Rightarrow> cr_serial q \<noteq> cr_serial r) d)"
    by (simp add: fm_replace_def)
  show "fm_content d' x = put_row (fm_content d) r x"
  proof (cases "x = cr_service_id r")
    case False
    then show ?thesis
      by (cases "fmlookup d x") (simp_all add: d' fm_content_def put_row_def)
  qed (simp add: d' fm_content_def put_row_def)
qed

lemma fm_content_delete: "fm_delete d s = Inr d' \<Longrightarrow> fm_content d' = (fm_content d)(s := None)"
proof
  fix x
  assume "fm_delete d s = Inr d'"
  then have d': "d' = fmdrop s d" by (simp add: fm_delete_def)
  show "fm_content d' x = ((fm_content d)(s := None)) x"
    by (cases "x = s") (simp_all add: d' fm_content_def)
qed

lemma fm_rows_content:
  assumes "fm_rows d = Inr rs"
  shows "map cr_service_id rs = sorted_list_of_set (dom (fm_content d))" and "set rs = ran (fm_content d)"
proof -
  have rs: "rs = map (\<lambda>s. the (fm_content d s)) (sorted_list_of_set (dom (fm_content d)))"
    using assms by (simp add: fm_rows_def)
  show "map cr_service_id rs = sorted_list_of_set (dom (fm_content d))"
    unfolding rs map_map by (rule map_idI) (auto simp: finite_fm_content dest: fm_content_key)
  show "set rs = ran (fm_content d)"
    unfolding rs by (force simp: finite_fm_content ran_def)
qed

interpretation fm: cert_table ex_ca_lib fm_content
proof
  fix d d' :: cert_map and s r rs
  show "fm_content d s = Some r \<Longrightarrow> cr_service_id r = s" by (rule fm_content_key)
  show "tbl_create ex_ca_lib d = Inr d' \<Longrightarrow> fm_content d' = fm_content d" by simp
  show "tbl_replace ex_ca_lib d r = Inr d' \<Longrightarrow> fm_content d' = put_row (fm_content d) r"
    by (simp add: fm_content_replace)
  show "tbl_delete ex_ca_lib d s = Inr d' \<Longrightarrow> fm_content d' = (fm_content d)(s := None)"
    by (simp add: fm_content_delete)
  show "tbl_rows ex_ca_lib d = Inr rs \<Longrightarrow>
      sorted_wrt (<) (map cr_service_id rs) \<and> set rs = ran (fm_content d)"
    using fm_rows_content [of d rs] by simp
qed

section \<open>Runs of the authority\<close>

text \<open>A sequence of calls, some of which fail; the log holds the successful ones.\<close>

datatype 'k ca_op =
    OpIssue "'k issue_env" string string string
  | OpIssueWithDNS "'k issue_env" string string string "string list"
  | OpRevoke string

datatype ca_entry = Issued IssuedCert | Revoked string

fun ca_step :: "('u, 'k, 'db) ca_lib \<Rightarrow> ('u, 'k, 'db) CA \<Rightarrow> 'k ca_op \<Rightarrow> string + ca_entry \<times> ('u, 'k, 'db) CA" where
  "ca_step L c (OpIssue env sid cl ns) = and_then (Issue L env c sid cl ns) (\<lambda>(ic, c'). Inr (Issued ic, c'))"
| "ca_step L c (OpIssueWithDNS env sid cl ns dns) =
     and_then (IssueWithDNS L env c sid cl ns dns) (\<lambda>(ic, c'). Inr (Issued ic, c'))"
| "ca_step L c (OpRevoke sid) = and_then (Revoke L c sid) (\<lambda>c'. Inr (Revoked sid, c'))"

fun ca_run :: "('u, 'k, 'db) ca_lib \<Rightarrow> ('u, 'k, 'db) CA \<Rightarrow> 'k ca_op list \<Rightarrow> ('u, 'k, 'db) CA \<times> ca_entry list" where
  "ca_run L c [] = (c, [])"
| "ca_run L c (op # ops) =
     (case ca_step L c op of
        Inl e \<Rightarrow> ca_run L c ops
      | Inr (en, c') \<Rightarrow> (case ca_run L c' ops of (c'', log) \<Rightarrow> (c'', en # log)))"

fun about :: "string \<Rightarrow> ca_entry \<Rightarrow> bool" where
  "about s (Issued ic) = (ic_service_id ic = s)"
| "about s (Revoked sid) = (sid = s)"

fun apply_entry :: "(string \<rightharpoonup> CertRow) \<Rightarrow> ca_entry \<Rightarrow> (string \<rightharpoonup> CertRow)" where
  "apply_entry m (Issued ic) = put_row m (row_of_issued ic)"
| "apply_entry m (Revoked sid) = m(sid := None)"

fun entry_serials :: "ca_entry list \<Rightarrow> string list" where
  "entry_serials [] = []"
| "entry_serials (Issued ic # log) = ic_serial_number ic # entry_serials log"
| "entry_serials (Revoked sid # log) = entry_serials log"

lemma entry_serials_append [simp]: "entry_serials (a @ b) = entry_serials a @ entry_serials b"
  by (induction a rule: entry_serials.induct) simp_all

text \<open>The certificate in force for a service: the last entry about it, when that is an issue.\<close>

definition in_force :: "ca_entry list \<Rightarrow> string \<Rightarrow> IssuedCert option" where
  "in_force log s = (case find (about s) (rev log) of Some (Issued ic) \<Rightarrow> Some ic | _ \<Rightarrow> None)"

lemma in_force_snoc:
  "in_force (log @ [Issued ic]) s = (if ic_service_id ic = s then Some ic else in_force log s)"
  "in_force (log @ [Revoked sid]) s = (if sid = s then None else in_force log s)"
  by (simp_all add: in_force_def)

lemma in_force_serial: "in_force log s = Some ic \<Longrightarrow> ic_serial_number ic \<in> set (entry_serials log)"
proof (induction log rule: rev_induct)
  case (snoc e log)
  then show ?case by (cases e) (auto simp: in_force_snoc split: if_splits)
qed (simp add: in_force_def)

lemma in_force_service: "in_force log s = Some ic \<Longrightarrow> ic_service_id ic = s"
proof (induction log rule: rev_induct)
  case (snoc e log)
  then show ?case by (cases e) (auto simp: in_force_snoc split: if_splits)
qed (simp add: in_force_def)

text \<open>With serials that do not repeat, a new row never evicts the row of another service.\<close>

lemma foldl_entries:
  "distinct (entry_serials log) \<Longrightarrow>
   foldl apply_entry Map.empty log = (\<lambda>s. map_option row_of_issued (in_force log s))"
proof (induction log rule: rev_induct)
  case Nil
  then show ?case by (simp add: in_force_def)
next
  case (snoc e log)
  then have ih: "foldl apply_entry Map.empty log = (\<lambda>s. map_option row_of_issued (in_force log s))" by simp
  show ?case
  proof (cases e)
    case (Issued ic)
    then have fresh: "ic_serial_number ic \<notin> set (entry_serials log)" using snoc.prems by simp
    show ?thesis
    proof
      fix s
      show "foldl apply_entry Map.empty (log @ [e]) s = map_option row_of_issued (in_force (log @ [e]) s)"
        using fresh in_force_serial [of log s]
        by (cases "in_force log s") (auto simp: Issued ih put_row_def in_force_snoc)
    qed
  next
    case (Revoked sid)
    then show ?thesis by (auto simp: ih in_force_snoc)
  qed
qed

context cert_table
begin

lemma ca_step_content:
  "ca_step L c op = Inr (en, c') \<Longrightarrow> content (ca_db c') = apply_entry (content (ca_db c)) en"
  by (cases op) (auto simp: and_then_Inr_iff Issue_def IssueWithDNS_def issue_content(1) revoke_content)

lemma ca_run_content:
  "ca_run L c ops = (c', log) \<Longrightarrow> content (ca_db c') = foldl apply_entry (content (ca_db c)) log"
proof (induction ops arbitrary: c log)
  case (Cons op ops)
  show ?case
  proof (cases "ca_step L c op")
    case (Inl e)
    then show ?thesis using Cons by simp
  next
    case (Inr r)
    then obtain en c1 where st: "ca_step L c op = Inr (en, c1)" by (cases r) simp
    obtain log' where run: "ca_run L c1 ops = (c', log')" and log: "log = en # log'"
      using Cons.prems st by (auto split: prod.splits)
    show ?thesis using Cons.IH [OF run] ca_step_content [OF st] by (simp add: log)
  qed
qed simp

end

section \<open>The root across restarts\<close>

text \<open>What the encodings promise: what was written can be read back.\<close>

definition codec :: "('u, 'k, 'db) ca_lib \<Rightarrow> bool" where
  "codec L \<longleftrightarrow> (\<forall>label b. pem_decode L (pem_encode L label b) = Some b)
     \<and> (\<forall>k b. marshal_ec L k = Inr b \<longrightarrow> parse_ec L b = Inr k)"

lemma write_file_Inr:
  "write_file env fs path data = (Inr u, fs') \<Longrightarrow> fs' = fs(path \<mapsto> data)"
  by (simp add: write_file_def split: write_outcome.splits)

text \<open>The files hold a root: loading it would give this key and this certificate.\<close>

definition root_on_disk :: "('u, 'k, 'db) ca_lib \<Rightarrow> files \<Rightarrow> string \<Rightarrow> string \<Rightarrow> 'k \<Rightarrow> 'u Certificate \<Rightarrow> bytes \<Rightarrow> bool" where
  "root_on_disk L fs keyPath certPath key cert pem \<longleftrightarrow>
     (\<exists>keyPEM keyDER certDER. fs keyPath = Some keyPEM \<and> fs certPath = Some pem
        \<and> pem_decode L keyPEM = Some keyDER \<and> parse_ec L keyDER = Inr key
        \<and> pem_decode L pem = Some certDER \<and> parse_certificate L certDER = Inr cert)"

lemma generated_on_disk:
  assumes "codec L" and "keyPath \<noteq> certPath"
    and gen: "generateRootCA L env fs keyPath certPath = (Inr (key, cert, pem), fs')"
  shows "root_on_disk L fs' keyPath certPath key cert pem"
proof -
  obtain keyPEM where root: "make_root L env = Inr (key, cert, pem, keyPEM)"
    and fs': "fs' = (fs(keyPath \<mapsto> keyPEM))(certPath \<mapsto> pem)"
    using gen by (auto simp: generateRootCA_def dest!: write_file_Inr split: sum.splits prod.splits)
  obtain keyDER certDER where "marshal_ec L key = Inr keyDER" "keyPEM = pem_encode L ''EC PRIVATE KEY'' keyDER"
    and "pem = pem_encode L ''CERTIFICATE'' certDER" "parse_certificate L certDER = Inr cert"
    using root by (auto simp: make_root_def and_then_Inr_iff Let_def)
  then show ?thesis using assms(1,2) by (simp add: root_on_disk_def codec_def fs')
qed

lemma loaded_on_disk:
  assumes "loadRootCA L env fs keyPath certPath = Inr (key, cert, pem)"
  shows "root_on_disk L fs keyPath certPath key cert pem"
  using assms
  by (auto simp: loadRootCA_def root_on_disk_def and_then_Inr_iff read_file_def split: option.splits)

lemma load_on_disk:
  assumes "root_on_disk L fs keyPath certPath key cert pem" and "re_read_fails env = (\<lambda>p. None)"
  shows "loadRootCA L env fs keyPath certPath = Inr (key, cert, pem)"
  using assms by (auto simp: loadRootCA_def root_on_disk_def read_file_def)

lemma root_files: "root_on_disk L fs keyPath certPath key cert pem \<Longrightarrow> fileExists fs keyPath \<and> fileExists fs certPath"
  by (auto simp: root_on_disk_def fileExists_def)

lemma ca_new_on_disk:
  assumes "codec L" and "keyPath \<noteq> certPath" and "ca_new L env opened fs keyPath certPath ttl = (Inr c, fs')"
  shows "root_on_disk L fs' keyPath certPath (ca_root_key c) (ca_root_cert c) (ca_root_pem c)"
proof (cases "fileExists fs keyPath \<and> fileExists fs certPath")
  case True
  then obtain key cert pem where "loadRootCA L env fs keyPath certPath = Inr (key, cert, pem)" and "fs' = fs"
    and "ca_root_key c = key" "ca_root_cert c = cert" "ca_root_pem c = pem"
    using assms(3) by (auto simp: ca_new_def Let_def split: sum.splits)
  then show ?thesis using loaded_on_disk by fastforce
next
  case False
  then obtain key cert pem where "generateRootCA L env fs keyPath certPath = (Inr (key, cert, pem), fs')"
    and "ca_root_key c = key" "ca_root_cert c = cert" "ca_root_pem c = pem"
    using assms(3) by (auto simp: ca_new_def Let_def split: sum.splits prod.splits)
  then show ?thesis using generated_on_disk [OF assms(1,2)] by fastforce
qed

section \<open>Examples\<close>

definition ex_ca :: "(string, nat, cert_map) CA" where
  "ex_ca = \<lparr>ca_root_key = 1, ca_root_cert = leaf_template 0 ''root'' [] [] 0 0, ca_root_pem = ''Proot'',
     ca_db = fmempty, ca_leaf_ttl = defaultLeafTTL\<rparr>"

definition ex_env :: "nat \<Rightarrow> nat issue_env" where
  "ex_env n = \<lparr>ie_serial = Inr n, ie_key = Inr n, ie_sign = 0, ie_now = 0\<rparr>"

definition ex_issued :: "nat \<Rightarrow> string \<Rightarrow> IssuedCert" where
  "ex_issued n sid = \<lparr>ic_service_id = sid, ic_cluster_id = ''dev'', ic_namespace = ''default'',
     ic_cert_pem = CHR ''P'' # sid, ic_key_pem = CHR ''P'' # dec_string n, ic_root_ca_pem = ''Proot'',
     ic_expires_at = int defaultLeafTTL, ic_rotate_at = int (rotate_after defaultLeafTTL),
     ic_serial_number = dec_string n\<rparr>"

definition ex_ca_with :: "cert_map \<Rightarrow> (string, nat, cert_map) CA" where
  "ex_ca_with d = ex_ca\<lparr>ca_db := d\<rparr>"

lemma ex_ca_with_sel [simp]:
  "ca_db (ex_ca_with d) = d" "ca_root_pem (ex_ca_with d) = ''Proot''" "ca_leaf_ttl (ex_ca_with d) = defaultLeafTTL"
  "ex_ca_with d\<lparr>ca_db := d'\<rparr> = ex_ca_with d'"
  "ex_ca_with d = ex_ca_with d' \<longleftrightarrow> d = d'"
  by (simp_all add: ex_ca_with_def ex_ca_def)

lemma leaf_template_name [simp]: "ct_common_name (leaf_template serial sid u dns a b) = sid"
  by (simp add: leaf_template_def)

definition ex_put :: "cert_map \<Rightarrow> nat \<Rightarrow> string \<Rightarrow> cert_map" where
  "ex_put d n sid = (case fm_replace d (row_of_issued (ex_issued n sid)) of Inr d' \<Rightarrow> d' | Inl e \<Rightarrow> d)"

lemma ex_put: "fm_replace d (row_of_issued (ex_issued n sid)) = Inr (ex_put d n sid)"
  by (simp add: ex_put_def fm_replace_def)

lemma ex_issue:
  "Issue ex_ca_lib (ex_env n) (ex_ca_with d) sid ''dev'' ''default'' =
     Inr (ex_issued n sid, ex_ca_with (ex_put d n sid))"
  using ex_put [of d n sid]
  by (simp add: Issue_def issue_leaf_def persistCert_def ex_env_def Let_def ex_issued_def row_of_issued_def)

lemma ex_revoke: "Revoke ex_ca_lib (ex_ca_with d) sid = Inr (ex_ca_with (fmdrop sid d))"
  by (simp add: Revoke_def fm_delete_def)

definition ex_ops :: "nat ca_op list" where
  "ex_ops = [OpIssue (ex_env 1) ''alpha'' ''dev'' ''default'', OpIssue (ex_env 2) ''beta'' ''dev'' ''default'',
     OpIssue (ex_env 3) ''alpha'' ''dev'' ''default'', OpRevoke ''beta'']"

lemma ex_ca_run: "\<exists>d. ca_run ex_ca_lib (ex_ca_with fmempty) ex_ops =
    (ex_ca_with d, [Issued (ex_issued 1 ''alpha''), Issued (ex_issued 2 ''beta''), Issued (ex_issued 3 ''alpha''), Revoked ''beta''])"
  by (simp add: ex_ops_def ex_issue ex_revoke)

section \<open>Properties\<close>





text \<open>For the default of a day the rotation is due after 19 hours and 12 minutes, to the nanosecond.\<close>

lemma rotate_after_default: "rotate_after defaultLeafTTL = 69120 * 1000000000"
  by (simp add: rotate_after_def round53_def defaultLeafTTL_def round_half_even_def bit_count.simps)

text \<open>
  The SPIFFE identity tells cluster, namespace and service apart as long as cluster and namespace
  contain no slash; with a slash in the namespace or the service two identities share a URI.
\<close>

theorem spiffe_identity_injective:
  assumes "CHR ''/'' \<notin> set cl" and "CHR ''/'' \<notin> set cl'" and "CHR ''/'' \<notin> set ns" and "CHR ''/'' \<notin> set ns'"
  shows "(buildSPIFFEURI cl ns sid = buildSPIFFEURI cl' ns' sid' \<longleftrightarrow> cl = cl' \<and> ns = ns' \<and> sid = sid')
    \<and> buildSPIFFEURI cl (ns @ ''/svc/'' @ x) sid = buildSPIFFEURI cl ns (x @ ''/svc/'' @ sid)"
proof -
  have cut: "takeWhile (\<lambda>ch. ch \<noteq> CHR ''/'') (a @ CHR ''/'' # r) = a" if "CHR ''/'' \<notin> set a" for a r
    using that by (induction a) auto
  have split: "a @ CHR ''/'' # r = a' @ CHR ''/'' # r' \<Longrightarrow> a = a' \<and> r = r'"
    if "CHR ''/'' \<notin> set a" "CHR ''/'' \<notin> set a'" for a a' r r'
    using cut [OF that(1), of r] cut [OF that(2), of r'] by auto
  have "cl = cl' \<and> ns = ns' \<and> sid = sid'" if eq: "buildSPIFFEURI cl ns sid = buildSPIFFEURI cl' ns' sid'"
  proof -
    have "cl @ CHR ''/'' # (''ns/'' @ ns @ ''/svc/'' @ sid) = cl' @ CHR ''/'' # (''ns/'' @ ns' @ ''/svc/'' @ sid')"
      using eq by (simp add: buildSPIFFEURI_def)
    from split [OF assms(1,2) this] have c: "cl = cl'"
      and "ns @ CHR ''/'' # (''svc/'' @ sid) = ns' @ CHR ''/'' # (''svc/'' @ sid')" by simp_all
    from c split [OF assms(3,4) this(2)] show ?thesis by simp
  qed
  moreover have "buildSPIFFEURI cl (ns @ ''/svc/'' @ x) sid = buildSPIFFEURI cl ns (x @ ''/svc/'' @ sid)"
    by (simp add: buildSPIFFEURI_def)
  ultimately show ?thesis by blast
qed

theorem spiffe_identity_injective_witness:
  "buildSPIFFEURI ''dev'' ''default'' ''alpha'' \<noteq> buildSPIFFEURI ''dev'' ''default'' ''beta''
   \<and> buildSPIFFEURI ''dev'' (''default'' @ ''/svc/'' @ ''x'') ''alpha'' = buildSPIFFEURI ''dev'' ''default'' (''x'' @ ''/svc/'' @ ''alpha'')"
  using spiffe_identity_injective [of "''dev''" "''dev''" "''default''" "''default''" "''alpha''" "''beta''" "''x''"]
    spiffe_identity_injective [of "''dev''" "''dev''" "''default''" "''default''" "''alpha''" "''alpha''" "''x''"]
  by simp

text \<open>
  C25. The root survives a restart: when the authority was created once, by loading or by generating its
  root, every later start that can read the files uses the same key, certificate and PEM text and
  leaves the files alone, so certificates issued before keep verifying; the lifetime of leaves is
  never zero.
\<close>

theorem ca_restart_keeps_root:
  assumes "codec L" and "keyPath \<noteq> certPath"
    and "ca_new L env opened fs keyPath certPath ttl = (Inr c, fs')"
    and "tbl_create L db = Inr db'" and "re_read_fails env' = (\<lambda>p. None)"
  shows "\<exists>c'. ca_new L env' (Inr db) fs' keyPath certPath ttl' = (Inr c', fs')
    \<and> ca_root_key c' = ca_root_key c \<and> ca_root_cert c' = ca_root_cert c \<and> RootCAPEM c' = RootCAPEM c
    \<and> ca_db c' = db' \<and> 0 < ca_leaf_ttl c'"
proof -
  note disk = ca_new_on_disk [OF assms(1-3)]
  note load = load_on_disk [OF disk assms(5)]
  show ?thesis using root_files [OF disk] assms(4)
    by (simp add: ca_new_def load Let_def RootCAPEM_def defaultLeafTTL_def)
qed

definition ex_root_env :: "nat root_env" where
  "ex_root_env = \<lparr>re_key = Inr 5, re_serial = Inr 9, re_sign = 0, re_not_before = 0, re_not_after_base = 0,
     re_write = (\<lambda>p. Written), re_read_fails = (\<lambda>p. None)\<rparr>"

lemma ex_codec: "codec ex_ca_lib"
  by (simp add: codec_def)

theorem ca_restart_keeps_root_witness:
  "\<exists>c fs. ca_new ex_ca_lib ex_root_env (Inr fmempty) Map.empty ''root.key'' ''root.crt'' 0 = (Inr c, fs)
    \<and> (\<exists>c'. ca_new ex_ca_lib ex_root_env (Inr fmempty) fs ''root.key'' ''root.crt'' 0 = (Inr c', fs)
        \<and> ca_root_key c' = 5 \<and> RootCAPEM c' = ''PMeshLite Root CA'')"
proof -
  obtain c fs where new: "ca_new ex_ca_lib ex_root_env (Inr fmempty) Map.empty ''root.key'' ''root.crt'' 0 = (Inr c, fs)"
    and sel: "ca_root_key c = 5" "RootCAPEM c = ''PMeshLite Root CA''"
    by (simp add: ca_new_def generateRootCA_def make_root_def write_file_def ex_root_env_def fileExists_def
        root_template_def Let_def RootCAPEM_def)
  have paths: "''root.key'' \<noteq> ''root.crt''" by simp
  from ca_restart_keeps_root [OF ex_codec paths new, of fmempty fmempty ex_root_env 0] new sel
  show ?thesis by (auto simp: ex_root_env_def)
qed

text \<open>
  The write of the two files is not atomic. When only the certificate exists and the second write
  fails before touching it, the disk holds a new key beside the old certificate; the next start
  finds both files and uses the mismatched pair without noticing.
\<close>

lemma half_written_root_loads:
  assumes "codec L" and "keyPath \<noteq> certPath"
    and "fs keyPath = None" and "fs certPath = Some old" and "pem_decode L old = Some der" and "parse_certificate L der = Inr cert"
    and "make_root L env = Inr (key, newCert, newPEM, keyPEM)"
    and "re_write env keyPath = Written" and "re_write env certPath = WriteFailed e None"
    and "re_read_fails env' = (\<lambda>p. None)"
  shows "\<exists>fs' err. generateRootCA L env fs keyPath certPath = (Inl err, fs')
    \<and> loadRootCA L env' fs' keyPath certPath = Inr (key, cert, old)"
proof -
  obtain keyDER where "marshal_ec L key = Inr keyDER" "keyPEM = pem_encode L ''EC PRIVATE KEY'' keyDER"
    using assms(7) by (auto simp: make_root_def and_then_Inr_iff Let_def)
  then show ?thesis
    using assms by (simp add: generateRootCA_def write_file_def loadRootCA_def read_file_def codec_def)
qed

end
