(* ===== verification/Sigil_Distributor.thy ===== *)
theory Sigil_Distributor
  imports Sigil_Client Mpsc_Channel
begin

text \<open>
  \<open>sigil/internal/distributor/distributor.go\<close>: the gRPC server of the control plane. Every agent
  holds one \<open>Subscribe\<close> stream; pushes for a node are put into the bounded channel of the node's
  current stream and a loop sends them. A stream object lives at an address, its position in
  \<open>d_heap\<close>, because the cleanup of a stream compares pointers. Every critical section and every
  turn of the loop is one event; the locale \<open>event_machine\<close> carries the invariant over all
  interleavings.
\<close>

section \<open>State\<close>

text \<open>
  \<open>as_cancelled\<close>: the context is cancelled, by a newer subscription or because the agent went
  away; \<open>as_running\<close>: the call of \<open>Subscribe\<close> has not returned. Two fields are history only: the
  pushes sent, and the pushes offered, each with whether there was room for it.
\<close>

record agentStream =
  as_nodeID :: string
  as_send :: "Payload chan"
  as_cancelled :: bool
  as_running :: bool
  as_sent :: "Payload list"
  as_offered :: "(Payload \<times> bool) list"

record Distributor =
  d_streams :: "string \<rightharpoonup> nat"
  d_heap :: "agentStream list"

definition d_new :: Distributor where
  "d_new = \<lparr>d_streams = Map.empty, d_heap = []\<rparr>"

definition SEND_CAP :: nat where "SEND_CAP = 64"

section \<open>Operations\<close>

definition cancel_stream :: "Distributor \<Rightarrow> nat \<Rightarrow> Distributor" where
  "cancel_stream d i = d\<lparr>d_heap := (d_heap d)[i := (d_heap d ! i)\<lparr>as_cancelled := True\<rparr>]\<rparr>"

text \<open>\<open>Subscribe\<close> up to its loop: the address of the new stream.\<close>

definition subscribe :: "Distributor \<Rightarrow> AgentHello \<Rightarrow> string + nat \<times> Distributor" where
  "subscribe d hello =
     (if ah_node_id hello = [] then Inl ''node_id is required''
      else
        (let as = \<lparr>as_nodeID = ah_node_id hello, as_send = mpsc_channel SEND_CAP, as_cancelled = False,
                   as_running = True, as_sent = [], as_offered = []\<rparr>;
             d1 = (case d_streams d (ah_node_id hello) of Some old \<Rightarrow> cancel_stream d old | None \<Rightarrow> d);
             i = length (d_heap d1) in
         Inr (i, \<lparr>d_streams = (d_streams d1)(ah_node_id hello \<mapsto> i), d_heap = d_heap d1 @ [as]\<rparr>)))"

text \<open>
  \<open>send\<close> looks up the current stream of the node under the lock and then, without the lock, offers
  the push to its channel, which never blocks; a newer subscription can come between the two.
\<close>

definition offer :: "agentStream \<Rightarrow> Payload \<Rightarrow> agentStream" where
  "offer as push =
     (case try_send (as_send as) push of
        Some ch \<Rightarrow> as\<lparr>as_send := ch, as_offered := as_offered as @ [(push, True)]\<rparr>
      | None \<Rightarrow> as\<lparr>as_offered := as_offered as @ [(push, False)]\<rparr>)"

definition offer_at :: "Distributor \<Rightarrow> nat \<Rightarrow> Payload \<Rightarrow> Distributor" where
  "offer_at d i push = d\<lparr>d_heap := (d_heap d)[i := offer (d_heap d ! i) push]\<rparr>"

definition send :: "Distributor \<Rightarrow> string \<Rightarrow> Payload \<Rightarrow> Distributor" where
  "send d nodeID push = (case d_streams d nodeID of None \<Rightarrow> d | Some i \<Rightarrow> offer_at d i push)"

definition PushCert :: "Distributor \<Rightarrow> string \<Rightarrow> CertBundle \<Rightarrow> Distributor" where
  "PushCert d nodeID cb = send d nodeID (CertPush cb)"

definition PushPolicy :: "Distributor \<Rightarrow> string \<Rightarrow> PolicyBundle \<Rightarrow> Distributor" where
  "PushPolicy d nodeID snap = send d nodeID (PolicyPush snap)"

text \<open>\<open>ConnectedAgents\<close> and the first half of \<open>BroadcastPolicy\<close> list the nodes in the order of the map.\<close>

definition connected_order :: "Distributor \<Rightarrow> string list \<Rightarrow> bool" where
  "connected_order d ids \<longleftrightarrow> iter_order (d_streams d) ids"

text \<open>The deferred function of \<open>Subscribe\<close>: a stream unregisters itself only.\<close>

definition finish_stream :: "Distributor \<Rightarrow> nat \<Rightarrow> Distributor" where
  "finish_stream d i =
     (let as = d_heap d ! i in
      \<lparr>d_streams = (if d_streams d (as_nodeID as) = Some i then (d_streams d)(as_nodeID as := None) else d_streams d),
       d_heap = (d_heap d)[i := as\<lparr>as_cancelled := True, as_running := False\<rparr>]\<rparr>)"

text \<open>
  One turn of the loop that takes a push out of the channel: \<open>stream.Send\<close> succeeds or its error
  ends the call.
\<close>

definition deliver :: "Distributor \<Rightarrow> nat \<Rightarrow> bool \<Rightarrow> Distributor" where
  "deliver d i sent =
     (case recv (as_send (d_heap d ! i)) of
        None \<Rightarrow> d
      | Some (push, ch) \<Rightarrow>
          (let as = (d_heap d ! i)\<lparr>as_send := ch\<rparr> in
           if sent then d\<lparr>d_heap := (d_heap d)[i := as\<lparr>as_sent := as_sent as @ [push]\<rparr>]\<rparr>
           else finish_stream (d\<lparr>d_heap := (d_heap d)[i := as]\<rparr>) i))"

section \<open>Events\<close>

text \<open>
  \<open>Cancel\<close> is the context of a call ending because the agent went away, \<open>Finish\<close> the case
  \<open>ctx.Done()\<close> of the loop, \<open>Deliver\<close> the other case. An event that is not possible changes nothing.
\<close>

datatype DistEvent =
    Subscribe AgentHello
  | Offer nat Payload
  | Cancel nat
  | Finish nat
  | Deliver nat bool

definition running :: "Distributor \<Rightarrow> nat \<Rightarrow> bool" where
  "running d i \<longleftrightarrow> i < length (d_heap d) \<and> as_running (d_heap d ! i)"

fun dist_step :: "Distributor \<Rightarrow> DistEvent \<Rightarrow> Distributor" where
  "dist_step d (Subscribe hello) = (case subscribe d hello of Inl e \<Rightarrow> d | Inr (i, d') \<Rightarrow> d')"
| "dist_step d (Offer i push) = offer_at d i push"
| "dist_step d (Cancel i) = (if running d i then cancel_stream d i else d)"
| "dist_step d (Finish i) = (if running d i \<and> as_cancelled (d_heap d ! i) then finish_stream d i else d)"
| "dist_step d (Deliver i sent) = (if running d i then deliver d i sent else d)"

section \<open>The invariant\<close>

text \<open>What one stream keeps: its channel is bounded, and what was sent and what waits is what was accepted.\<close>

definition accepted :: "agentStream \<Rightarrow> Payload list" where
  "accepted as = map fst (filter snd (as_offered as))"

definition in_transit :: "agentStream \<Rightarrow> Payload list" where
  "in_transit as = as_sent as @ ch_queue (as_send as)"

definition stream_inv :: "agentStream \<Rightarrow> bool" where
  "stream_inv as \<longleftrightarrow> ch_cap (as_send as) = SEND_CAP \<and> length (ch_queue (as_send as)) \<le> SEND_CAP
     \<and> as_nodeID as \<noteq> [] \<and> (as_running as \<longrightarrow> in_transit as = accepted as)
     \<and> subseq (as_sent as) (accepted as) \<and> (as_running as \<or> as_cancelled as)"

text \<open>
  What they keep together: a registered stream is running and of its node, and a stream that runs
  and is not cancelled is the registered one.
\<close>

definition dist_inv :: "Distributor \<Rightarrow> bool" where
  "dist_inv d \<longleftrightarrow>
     (\<forall>n i. d_streams d n = Some i \<longrightarrow> running d i \<and> as_nodeID (d_heap d ! i) = n)
     \<and> (\<forall>i < length (d_heap d). stream_inv (d_heap d ! i))
     \<and> (\<forall>i. running d i \<longrightarrow> \<not> as_cancelled (d_heap d ! i) \<longrightarrow> d_streams d (as_nodeID (d_heap d ! i)) = Some i)"

text \<open>How the operations change a stream and the registry.\<close>

lemma cancel_stream_sel [simp]:
  "d_streams (cancel_stream d i) = d_streams d"
  "length (d_heap (cancel_stream d i)) = length (d_heap d)"
  by (simp_all add: cancel_stream_def)

lemma offer_at_sel [simp]:
  "d_streams (offer_at d i p) = d_streams d"
  "length (d_heap (offer_at d i p)) = length (d_heap d)"
  by (simp_all add: offer_at_def)

lemma offer_sel [simp]:
  "as_nodeID (offer as p) = as_nodeID as" "as_cancelled (offer as p) = as_cancelled as"
  "as_running (offer as p) = as_running as" "as_sent (offer as p) = as_sent as"
  by (simp_all add: offer_def split: option.split)

lemma running_cancel [simp]: "running (cancel_stream d j) i = running d i"
  by (auto simp: running_def cancel_stream_def nth_update_in split: if_splits)

lemma running_offer [simp]: "running (offer_at d j p) i = running d i"
  by (auto simp: running_def offer_at_def nth_update_in split: if_splits)

lemma stream_inv_offer: "stream_inv as \<Longrightarrow> stream_inv (offer as p)"
  by (auto simp: stream_inv_def offer_def try_send_def in_transit_def accepted_def subseq_append_iff
      intro: list_emb_prefix split: option.splits if_splits)

lemma stream_inv_cancel: "stream_inv as \<Longrightarrow> stream_inv (as\<lparr>as_cancelled := True\<rparr>)"
  by (simp add: stream_inv_def in_transit_def accepted_def)

lemma stream_inv_finish: "stream_inv as \<Longrightarrow> stream_inv (as\<lparr>as_cancelled := True, as_running := False\<rparr>)"
  by (simp add: stream_inv_def accepted_def)

lemma stream_inv_new: "n \<noteq> [] \<Longrightarrow> stream_inv \<lparr>as_nodeID = n, as_send = mpsc_channel SEND_CAP, as_cancelled = False,
    as_running = True, as_sent = [], as_offered = []\<rparr>"
  by (simp add: stream_inv_def in_transit_def accepted_def)

text \<open>A turn of the loop on the stream itself.\<close>

lemma stream_inv_taken:
  assumes "stream_inv as" and "recv (as_send as) = Some (p, ch)" and "as_running as"
  shows "stream_inv (as\<lparr>as_send := ch, as_sent := as_sent as @ [p]\<rparr>)"
    and "stream_inv (as\<lparr>as_send := ch, as_cancelled := True, as_running := False\<rparr>)"
proof -
  have q: "ch_queue (as_send as) = p # ch_queue ch" and cap: "ch_cap ch = ch_cap (as_send as)"
    using assms(2) by (auto simp: recv_def split: list.splits)
  then have "accepted as = (as_sent as @ [p]) @ ch_queue ch"
    using assms(1,3) by (simp add: stream_inv_def in_transit_def)
  then have "subseq (as_sent as @ [p]) (accepted as)" using subseq_grow by metis
  then show "stream_inv (as\<lparr>as_send := ch, as_sent := as_sent as @ [p]\<rparr>)"
    and "stream_inv (as\<lparr>as_send := ch, as_cancelled := True, as_running := False\<rparr>)"
    using assms(1,3) q cap by (simp_all add: stream_inv_def in_transit_def accepted_def)
qed

lemma dist_inv_new [simp]: "dist_inv d_new"
  by (simp add: dist_inv_def d_new_def running_def)

text \<open>Updating the streams in place, with the registry and the liveness unchanged.\<close>

lemma dist_inv_update:
  assumes inv: "dist_inv d" and reg: "d_streams d' = d_streams d" and len: "length (d_heap d') = length (d_heap d)"
    and each: "\<And>i. i < length (d_heap d) \<Longrightarrow> stream_inv (d_heap d' ! i)
        \<and> as_running (d_heap d' ! i) = as_running (d_heap d ! i) \<and> as_nodeID (d_heap d' ! i) = as_nodeID (d_heap d ! i)
        \<and> (as_cancelled (d_heap d ! i) \<longrightarrow> as_cancelled (d_heap d' ! i))"
  shows "dist_inv d'"
  unfolding dist_inv_def
proof (intro conjI allI impI)
  fix n i
  assume "d_streams d' n = Some i"
  then show "running d' i" and "as_nodeID (d_heap d' ! i) = n"
    using inv each [of i] reg len by (auto simp: dist_inv_def running_def)
next
  fix i
  show "i < length (d_heap d') \<Longrightarrow> stream_inv (d_heap d' ! i)" using each [of i] len by simp
  assume "running d' i" "\<not> as_cancelled (d_heap d' ! i)"
  then show "d_streams d' (as_nodeID (d_heap d' ! i)) = Some i"
    using inv each [of i] reg len by (auto simp: dist_inv_def running_def)
qed

lemma dist_inv_cancel: "dist_inv d \<Longrightarrow> dist_inv (cancel_stream d i)"
  by (rule dist_inv_update)
    (auto simp: cancel_stream_def nth_update_in dist_inv_def stream_inv_cancel split: if_splits)

lemma dist_inv_offer: "dist_inv d \<Longrightarrow> dist_inv (offer_at d i p)"
  by (rule dist_inv_update)
    (auto simp: offer_at_def nth_update_in dist_inv_def stream_inv_offer split: if_splits)

text \<open>A stream at \<open>i\<close> is replaced by a stopped copy of itself, and unregistered when it is registered.\<close>

lemma dist_inv_stop:
  assumes inv: "dist_inv d" and i: "i < length (d_heap d)"
    and node: "as_nodeID as = as_nodeID (d_heap d ! i)" and as: "stream_inv as" "\<not> as_running as"
  shows "dist_inv \<lparr>d_streams = (if d_streams d (as_nodeID as) = Some i then (d_streams d)(as_nodeID as := None) else d_streams d),
                   d_heap = (d_heap d)[i := as]\<rparr>"
    (is "dist_inv ?d")
  unfolding dist_inv_def
proof (intro conjI allI impI)
  have reg: "d_streams d n = Some j \<Longrightarrow> running d j \<and> as_nodeID (d_heap d ! j) = n" for n j
    using inv by (simp add: dist_inv_def)
  have run: "running ?d j \<longleftrightarrow> j \<noteq> i \<and> running d j" for j
    using as(2) i by (auto simp: running_def nth_update_in split: if_splits)
  fix n j
  assume n: "d_streams ?d n = Some j"
  then have dn: "d_streams d n = Some j" by (auto split: if_splits)
  have "j \<noteq> i"
  proof
    assume "j = i"
    then have "as_nodeID as = n" using reg [OF dn] node by simp
    then show False using n dn \<open>j = i\<close> by simp
  qed
  then show "running ?d j" and "as_nodeID (d_heap ?d ! j) = n" using reg [OF dn] run by auto
next
  fix j
  show "j < length (d_heap ?d) \<Longrightarrow> stream_inv (d_heap ?d ! j)"
    using inv as by (auto simp: dist_inv_def nth_update_in)
  assume j: "running ?d j" "\<not> as_cancelled (d_heap ?d ! j)"
  then have ne: "j \<noteq> i" using as(2) i by (auto simp: running_def nth_update_in)
  then have "d_streams d (as_nodeID (d_heap d ! j)) = Some j"
    using j inv by (auto simp: dist_inv_def running_def)
  then show "d_streams ?d (as_nodeID (d_heap ?d ! j)) = Some j" using ne by auto
qed

lemma dist_inv_stream: "dist_inv d \<Longrightarrow> i < length (d_heap d) \<Longrightarrow> stream_inv (d_heap d ! i)"
  by (simp add: dist_inv_def)

lemma dist_inv_registered: "dist_inv d \<Longrightarrow> d_streams d n = Some i \<Longrightarrow> running d i \<and> as_nodeID (d_heap d ! i) = n"
  by (simp add: dist_inv_def)

lemma dist_inv_finish:
  assumes "dist_inv d" and "running d i"
  shows "dist_inv (finish_stream d i)"
proof -
  have i: "i < length (d_heap d)" using assms(2) by (simp add: running_def)
  note stop = dist_inv_stop [OF assms(1) i _ stream_inv_finish [OF dist_inv_stream [OF assms(1) i]]]
  show ?thesis
    using stop by (cases "d_streams d (as_nodeID (d_heap d ! i)) = Some i") (simp_all add: finish_stream_def Let_def)
qed

lemma dist_inv_deliver:
  assumes inv: "dist_inv d" and run: "running d i"
  shows "dist_inv (deliver d i sent)"
proof (cases "recv (as_send (d_heap d ! i))")
  case None
  then show ?thesis using inv by (simp add: deliver_def)
next
  case (Some r)
  then obtain p ch where r: "recv (as_send (d_heap d ! i)) = Some (p, ch)" by (cases r) simp
  have i: "i < length (d_heap d)" and as: "stream_inv (d_heap d ! i)" "as_running (d_heap d ! i)"
    using inv run by (auto simp: dist_inv_def running_def)
  note taken = stream_inv_taken [OF as(1) r as(2)]
  show ?thesis
  proof (cases sent)
    case True
    then have "deliver d i sent = d\<lparr>d_heap := (d_heap d)[i :=
        (d_heap d ! i)\<lparr>as_send := ch, as_sent := as_sent (d_heap d ! i) @ [p]\<rparr>]\<rparr>"
      by (simp add: deliver_def r Let_def)
    moreover have "dist_inv \<dots>"
      by (rule dist_inv_update [OF inv]) (use inv taken in \<open>auto simp: nth_update_in dist_inv_def\<close>)
    ultimately show ?thesis by simp
  next
    case False
    then show ?thesis
      using dist_inv_stop [OF inv i _ taken(2)] i
      by (cases "d_streams d (as_nodeID (d_heap d ! i)) = Some i") (simp_all add: deliver_def r Let_def finish_stream_def)
  qed
qed

lemma dist_inv_subscribe:
  assumes inv: "dist_inv d" and sub: "subscribe d hello = Inr (i, d')"
  shows "dist_inv d'"
proof -
  let ?n = "ah_node_id hello"
  let ?as = "\<lparr>as_nodeID = ?n, as_send = mpsc_channel SEND_CAP, as_cancelled = False,
                   as_running = True, as_sent = [], as_offered = []\<rparr>"
  let ?d1 = "case d_streams d ?n of Some old \<Rightarrow> cancel_stream d old | None \<Rightarrow> d"
  have n: "?n \<noteq> []" and i: "i = length (d_heap ?d1)"
    and d': "d' = \<lparr>d_streams = (d_streams ?d1)(?n \<mapsto> i), d_heap = d_heap ?d1 @ [?as]\<rparr>"
    using sub by (auto simp: subscribe_def Let_def split: if_splits)
  have inv1: "dist_inv ?d1" using inv by (auto intro: dist_inv_cancel split: option.split)
  have old: "as_cancelled (d_heap ?d1 ! j)" if "d_streams ?d1 ?n = Some j" for j
    using that inv by (auto simp: cancel_stream_def dist_inv_def running_def split: option.splits)
  have run: "running d' j \<longleftrightarrow> j = i \<or> running ?d1 j" for j
    unfolding d' i by (auto simp: running_def nth_append)
  have lt: "running ?d1 j \<Longrightarrow> j < i" for j by (simp add: i running_def)
  have nth: "j < i \<Longrightarrow> d_heap d' ! j = d_heap ?d1 ! j" for j by (simp add: d' i nth_append)
  have nth_i: "d_heap d' ! i = ?as" by (simp add: d' i)
  show ?thesis
    unfolding dist_inv_def
  proof (intro conjI allI impI)
    fix m j
    assume m: "d_streams d' m = Some j"
    then have "running d' j \<and> as_nodeID (d_heap d' ! j) = m"
    proof (cases "m = ?n")
      case True
      then show ?thesis using m nth_i run by (simp add: d')
    next
      case False
      then have "d_streams ?d1 m = Some j" using m by (simp add: d')
      then have "running ?d1 j \<and> as_nodeID (d_heap ?d1 ! j) = m" using inv1 by (simp add: dist_inv_def)
      then show ?thesis using run lt nth by simp
    qed
    then show "running d' j" and "as_nodeID (d_heap d' ! j) = m" by simp_all
  next
    fix j
    show "j < length (d_heap d') \<Longrightarrow> stream_inv (d_heap d' ! j)"
      using inv1 n nth nth_i stream_inv_new [OF n] by (cases "j = i") (auto simp: dist_inv_def d' i)
    assume j: "running d' j" "\<not> as_cancelled (d_heap d' ! j)"
    show "d_streams d' (as_nodeID (d_heap d' ! j)) = Some j"
    proof (cases "j = i")
      case True
      then show ?thesis using nth_i by (simp add: d')
    next
      case False
      then have r1: "running ?d1 j" using j run by simp
      then have "d_streams ?d1 (as_nodeID (d_heap ?d1 ! j)) = Some j"
        using j(2) inv1 nth [OF lt [OF r1]] by (simp add: dist_inv_def)
      moreover from this old [of j] j(2) nth [OF lt [OF r1]] have "as_nodeID (d_heap ?d1 ! j) \<noteq> ?n" by auto
      ultimately show ?thesis using nth [OF lt [OF r1]] by (simp add: d')
    qed
  qed
qed

interpretation dist: event_machine dist_step dist_inv
proof
  fix d e
  assume "dist_inv d"
  then show "dist_inv (dist_step d e)"
    by (cases e)
      (auto intro: dist_inv_subscribe dist_inv_offer dist_inv_cancel dist_inv_finish dist_inv_deliver split: sum.split)
qed

section \<open>The newest policy of a stream\<close>

fun policy_of :: "Payload \<Rightarrow> PolicyBundle option" where
  "policy_of (PolicyPush b) = Some b"
| "policy_of (CertPush b) = None"

text \<open>The policy offered last, with whether it was accepted, and the last one in a list of pushes.\<close>

definition newest :: "agentStream \<Rightarrow> (PolicyBundle \<times> bool) option" where
  "newest as = (case find (\<lambda>(p, ok). policy_of p \<noteq> None) (rev (as_offered as)) of
     None \<Rightarrow> None | Some (p, ok) \<Rightarrow> Some (the (policy_of p), ok))"

definition last_policy :: "Payload list \<Rightarrow> PolicyBundle option" where
  "last_policy ps = (case find (\<lambda>p. policy_of p \<noteq> None) (rev ps) of None \<Rightarrow> None | Some p \<Rightarrow> policy_of p)"

lemma last_policy_snoc [simp]: "last_policy (ps @ [p]) = (case policy_of p of None \<Rightarrow> last_policy ps | Some b \<Rightarrow> Some b)"
  by (simp add: last_policy_def split: option.split)

lemma last_policy_Nil [simp]: "last_policy [] = None"
  by (simp add: last_policy_def)

lemma offer_offered: "\<exists>ok. as_offered (offer as p) = as_offered as @ [(p, ok)]"
  by (cases "try_send (as_send as) p") (auto simp: offer_def)

lemma offer_history: "as_offered (offer as p) = as_offered as @ [(p, try_send (as_send as) p \<noteq> None)]"
  by (cases "try_send (as_send as) p") (simp_all add: offer_def)

lemma newest_snoc:
  "as_offered as' = as_offered as @ [(p, ok)] \<Longrightarrow>
   newest as' = (case policy_of p of None \<Rightarrow> newest as | Some b \<Rightarrow> Some (b, ok))"
  by (simp add: newest_def split: option.split)

lemma newest_offer_policy: "\<exists>ok. newest (offer as (PolicyPush b)) = Some (b, ok)"
  using offer_offered [of as "PolicyPush b"] newest_snoc [of "offer as (PolicyPush b)" as "PolicyPush b"] by auto

lemma newest_offer_cert: "newest (offer as (CertPush b)) = newest as"
  using offer_offered [of as "CertPush b"] newest_snoc [of "offer as (CertPush b)" as "CertPush b"] by auto

lemma newest_offered: "as_offered as' = as_offered as \<Longrightarrow> newest as' = newest as"
  by (simp add: newest_def)

lemma newest_accepted:
  assumes "newest as = Some (b, ok)" and "list_all snd (as_offered as)"
  shows "ok"
proof -
  obtain p where "find (\<lambda>(p, ok). policy_of p \<noteq> None) (rev (as_offered as)) = Some (p, ok)"
    using assms(1) by (auto simp: newest_def split: option.splits prod.splits)
  then obtain i where "i < length (rev (as_offered as))" "(p, ok) = rev (as_offered as) ! i"
    unfolding find_Some_iff by blast
  then have "(p, ok) \<in> set (rev (as_offered as))" using nth_mem by metis
  then have "(p, ok) \<in> set (as_offered as)" by simp
  then show ?thesis using assms(2) by (auto simp: list_all_iff)
qed

lemma newest_last:
  assumes "newest as = Some (b, True)"
  shows "last_policy (accepted as) = Some b"
proof -
  have "find (\<lambda>(p, ok). policy_of p \<noteq> None) (rev xs) = Some (p, True) \<Longrightarrow>
      last_policy (map fst (filter snd xs)) = policy_of p" for xs :: "(Payload \<times> bool) list" and p
  proof (induction xs rule: rev_induct)
    case (snoc x xs)
    then show ?case by (cases x) (auto split: if_splits option.splits)
  qed simp
  moreover obtain p where "find (\<lambda>(p, ok). policy_of p \<noteq> None) (rev (as_offered as)) = Some (p, True)"
    and "the (policy_of p) = b"
    using assms by (auto simp: newest_def split: option.splits prod.splits)
  moreover from this(1) have "policy_of p \<noteq> None" by (auto simp: find_Some_iff)
  ultimately show ?thesis by (auto simp: accepted_def)
qed

text \<open>Subscriptions and the loops leave what was offered to the streams alone.\<close>

lemma subscribe_sel:
  assumes "subscribe d hello = Inr (i, d')"
  shows "i = length (d_heap d)" and "length (d_heap d') = Suc i"
    and "d_streams d' = (d_streams d)(ah_node_id hello \<mapsto> i)"
    and "k < i \<Longrightarrow> as_offered (d_heap d' ! k) = as_offered (d_heap d ! k) \<and> as_sent (d_heap d' ! k) = as_sent (d_heap d ! k)"
    and "as_sent (d_heap d' ! i) = []"
  using assms
  by (auto simp: subscribe_def Let_def nth_append cancel_stream_def nth_update_in split: if_splits option.splits)

lemma subscribe_offered: "subscribe d hello = Inr (i, d') \<Longrightarrow> as_offered (d_heap d' ! i) = []"
  by (auto simp: subscribe_def Let_def nth_append cancel_stream_def split: if_splits option.splits)

lemma finish_stream_sel:
  "d_streams (finish_stream d i) n = Some k \<Longrightarrow> d_streams d n = Some k"
  "length (d_heap (finish_stream d i)) = length (d_heap d)"
  "k < length (d_heap d) \<Longrightarrow> as_offered (d_heap (finish_stream d i) ! k) = as_offered (d_heap d ! k)
     \<and> as_sent (d_heap (finish_stream d i) ! k) = as_sent (d_heap d ! k)"
  by (auto simp: finish_stream_def Let_def nth_update_in split: if_splits)

lemma deliver_sel:
  "d_streams (deliver d i sent) n = Some k \<Longrightarrow> d_streams d n = Some k"
  "length (d_heap (deliver d i sent)) = length (d_heap d)"
  "k < length (d_heap d) \<Longrightarrow> as_offered (d_heap (deliver d i sent) ! k) = as_offered (d_heap d ! k)
     \<and> prefix (as_sent (d_heap d ! k)) (as_sent (d_heap (deliver d i sent) ! k))"
proof -
  show "d_streams (deliver d i sent) n = Some k \<Longrightarrow> d_streams d n = Some k"
    using finish_stream_sel(1) [of "d\<lparr>d_heap := h\<rparr>" i n k for h]
    by (auto simp: deliver_def Let_def split: option.splits if_splits)
  show "length (d_heap (deliver d i sent)) = length (d_heap d)"
    by (simp add: deliver_def Let_def finish_stream_sel(2) split: option.split)
  assume k: "k < length (d_heap d)"
  show "as_offered (d_heap (deliver d i sent) ! k) = as_offered (d_heap d ! k)
     \<and> prefix (as_sent (d_heap d ! k)) (as_sent (d_heap (deliver d i sent) ! k))"
    using k by (auto simp: deliver_def Let_def finish_stream_sel(3) nth_update_in split: option.split)
qed

section \<open>Properties\<close>

text \<open>
  C20. The streams of the distributor after any interleaving of subscriptions, pushes, losses and turns
  of the loops: a node has at most one live stream, and it is the registered one, so the cleanup of
  a superseded stream never unregisters its successor; a channel holds at most 64 pushes; and a
  stream sends what was accepted for it, in that order, without repetition, with only the contents
  of the channel outstanding.
\<close>

theorem distributor_streams:
  assumes "d = foldl dist_step d_new evs"
  shows "(running d i \<and> \<not> as_cancelled (d_heap d ! i) \<longrightarrow> d_streams d (as_nodeID (d_heap d ! i)) = Some i)
    \<and> (d_streams d n = Some i \<longrightarrow> running d i \<and> as_nodeID (d_heap d ! i) = n \<and>
         (running d j \<and> j \<noteq> i \<and> as_nodeID (d_heap d ! j) = n \<longrightarrow>
            as_cancelled (d_heap d ! j) \<and> d_streams (finish_stream d j) n = Some i))
    \<and> (i < length (d_heap d) \<longrightarrow>
         length (ch_queue (as_send (d_heap d ! i))) \<le> 64 \<and> subseq (as_sent (d_heap d ! i)) (accepted (d_heap d ! i))
         \<and> (as_running (d_heap d ! i) \<longrightarrow>
              as_sent (d_heap d ! i) @ ch_queue (as_send (d_heap d ! i)) = accepted (d_heap d ! i)))"
proof -
  have inv: "dist_inv d" unfolding assms by (rule dist.inv_run) simp
  have live: "running d k \<and> \<not> as_cancelled (d_heap d ! k) \<longrightarrow> d_streams d (as_nodeID (d_heap d ! k)) = Some k" for k
    using inv by (simp add: dist_inv_def)
  have bounded: "k < length (d_heap d) \<Longrightarrow> stream_inv (d_heap d ! k)" for k
    by (rule dist_inv_stream [OF inv])
  have keep: "d_streams (finish_stream d k) n = Some i" if "d_streams d n = Some i" "k \<noteq> i" for k
    using that by (auto simp: finish_stream_def Let_def)
  show ?thesis
    using live [of i] live [of j] dist_inv_registered [OF inv, of n i] bounded [of i] keep [of j]
    by (auto simp: stream_inv_def in_transit_def SEND_CAP_def)
qed

definition ex_hello :: AgentHello where
  "ex_hello = \<lparr>ah_node_id = ''node'', ah_cluster_id = ''dev'', ah_pod_service_ids = []\<rparr>"

theorem distributor_streams_witness:
  "d_streams (foldl dist_step d_new [Subscribe ex_hello, Subscribe ex_hello, Finish 0]) ''node'' = Some 1
   \<and> running (foldl dist_step d_new [Subscribe ex_hello, Subscribe ex_hello, Finish 0]) 1"
proof -
  have "d_streams (foldl dist_step d_new [Subscribe ex_hello, Subscribe ex_hello, Finish 0]) ''node'' = Some 1"
    by (simp add: ex_hello_def subscribe_def d_new_def Let_def cancel_stream_def running_def finish_stream_def)
  with distributor_streams [OF refl, of "[Subscribe ex_hello, Subscribe ex_hello, Finish 0]"] show ?thesis by blast
qed

end
