(* ===== verification/Policy_Push.thy ===== *)
theory Policy_Push
  imports Policy_Engine Sigil_Client
begin

text \<open>
  The bundle that Sigil pushes (\<open>sigil/cmd/server/main.go\<close>, on connect and after a reload): the
  rules, the default and the mode that the server read from its engine, in the order in which Go
  visits the engine's maps, copied into the protocol's messages. The agent copies them back into
  its own rules.
\<close>

definition bundle_of :: "AllowRule list \<Rightarrow> bool \<Rightarrow> string \<Rightarrow> PolicyBundle" where
  "bundle_of rs d m =
     \<lparr>pb_rules = map (\<lambda>r. \<lparr>pr_from_service = from_service r, pr_to_services = to_services r\<rparr>) rs,
      pb_default_allow = d, pb_mtls_mode = m\<rparr>"

definition engine_bundle :: "Engine \<Rightarrow> string list \<Rightarrow> (string \<Rightarrow> string list) \<Rightarrow> PolicyBundle" where
  "engine_bundle eng ks dord = bundle_of (Rules eng ks dord) (defaultAllow eng) (mtlsMode eng)"

text \<open>The bundles that stand for an engine: one for every order of its maps.\<close>

definition is_snapshot :: "Engine \<Rightarrow> PolicyBundle \<Rightarrow> bool" where
  "is_snapshot eng b \<longleftrightarrow> (\<exists>ks dord. visits eng ks dord \<and> b = engine_bundle eng ks dord)"

lemma copied_rule [simp]: "\<lparr>from_service = from_service r, to_services = to_services r\<rparr> = r"
  by (cases r) simp

text \<open>The two translations are inverse: the agent's cache holds the engine's rules.\<close>

lemma apply_engine_bundle:
  "apply_policy_bundle (engine_bundle eng ks dord) c = pc_update c (Rules eng ks dord) (defaultAllow eng) (mtlsMode eng)"
  by (simp add: apply_policy_bundle_def engine_bundle_def bundle_of_def o_def)

text \<open>The exception: a destination that the rules of its source do not list, when the default allows.\<close>

definition overridden :: "Engine \<Rightarrow> string \<Rightarrow> string \<Rightarrow> bool" where
  "overridden eng f t \<longleftrightarrow> defaultAllow eng \<and> (\<exists>ds. allow eng f = Some ds \<and> t \<notin> ds)"

lemma pushed_is_allowed:
  assumes "visits eng ks dord"
  shows "is_allowed (apply_policy_bundle (engine_bundle eng ks dord) c) f t \<longleftrightarrow>
    Evaluate eng f t = Allow \<and> \<not> overridden eng f t"
  unfolding apply_engine_bundle is_allowed_Rules [OF assms]
  by (auto simp: Evaluate_Allow overridden_def split: option.split)

lemma snapshot_is_allowed:
  "is_snapshot eng b \<Longrightarrow> is_allowed (apply_policy_bundle b c) f t \<longleftrightarrow> Evaluate eng f t = Allow \<and> \<not> overridden eng f t"
  unfolding is_snapshot_def using pushed_is_allowed by blast

end
