(* ===== verification/Sigil_Server.thy ===== *)
theory Sigil_Server
  imports Sigil_CA Sigil_Distributor Policy_Push
begin

text \<open>
  \<open>sigil/cmd/server/main.go\<close> and \<open>sigil/internal/registry/registry.go\<close>: the control plane as a
  whole. Everything that runs concurrently in the server (the callback of a new agent, a reload, a
  pod event, the rotation loop, the REST handlers) is a job: a goroutine at the point it has
  reached. One step runs one job up to its next access to shared state, so every interleaving of
  the accesses is a run. The policy engine is read field by field, as the code does.
\<close>

section \<open>Pod events\<close>

record ServiceEvent =
  se_service_id :: string
  se_node_name :: string
  se_namespace :: string
  se_cluster_id :: string
  se_deleted :: bool

text \<open>What the Kubernetes client answers: the pod, that there is none, or another error.\<close>

record Pod =
  pod_app_label :: string
  pod_running :: bool
  pod_node_name :: string
  pod_namespace :: string

datatype get_result = PodFound Pod | PodNotFound | GetError string

definition Reconcile :: "string \<Rightarrow> string \<Rightarrow> string \<Rightarrow> get_result \<Rightarrow> string + ServiceEvent option" where
  "Reconcile cid namespace name result =
     (case result of
        PodNotFound \<Rightarrow>
          Inr (Some \<lparr>se_service_id = name, se_node_name = [], se_namespace = namespace, se_cluster_id = cid,
                     se_deleted = True\<rparr>)
      | GetError e \<Rightarrow> Inl (''registry: get pod: '' @ e)
      | PodFound pod \<Rightarrow>
          (if pod_app_label pod = [] then Inr None
           else if \<not> pod_running pod \<or> pod_node_name pod = [] then Inr None
           else Inr (Some \<lparr>se_service_id = pod_app_label pod, se_node_name = pod_node_name pod,
                           se_namespace = pod_namespace pod, se_cluster_id = cid, se_deleted = False\<rparr>)))"

section \<open>State\<close>

text \<open>The replies of the REST handlers that change state: the status and what the body says.\<close>

datatype Reply =
    Accepted
  | Rotated string int
  | Enrolled bytes bytes bytes int
  | HttpError nat string

text \<open>
  A goroutine. \<open>SendTo\<close> and \<open>OfferTo\<close> are the two halves of the distributor's \<open>send\<close>; the last
  argument of a constructor is what the goroutine does next.
\<close>

datatype Job =
    ConnectRules AgentHello
  | ConnectDefault AgentHello "AllowRule list"
  | ConnectMode AgentHello "AllowRule list" bool
  | ConnectIssue AgentHello "string list"
  | ReloadSwap Engine
  | ReloadRules
  | ReloadDefault "AllowRule list"
  | ReloadMode "AllowRule list" bool
  | Broadcast PolicyBundle
  | HandleEvent ServiceEvent
  | RotateScan "IssuedCert list"
  | RotatePush CertBundle Job
  | RotateOne string
  | Enroll string
  | SendTo string Payload Job
  | OfferTo nat Payload Job
  | Respond Reply
  | Done

record ('u, 'k, 'db) Sigil =
  sv_cluster :: string
  sv_eng :: Engine
  sv_ca :: "('u, 'k, 'db) CA"
  sv_dist :: Distributor
  sv_jobs :: "Job list"
  sv_replies :: "Reply list"

text \<open>
  \<open>sv_cluster\<close> is the cluster of the registry, taken from the first configuration and kept for good.
  What a step draws from outside: the orders in which Go visits the engine's maps and the map of
  streams, the randomness and the clock of a certificate, and the time the rotation compares with.
\<close>

record 'k job_env =
  je_ks :: "string list"
  je_dord :: "string \<Rightarrow> string list"
  je_ids :: "string list"
  je_issue :: "'k issue_env"
  je_now :: int

definition valid_env :: "('u, 'k, 'db) Sigil \<Rightarrow> 'k job_env \<Rightarrow> bool" where
  "valid_env s env \<longleftrightarrow> visits (sv_eng s) (je_ks env) (je_dord env) \<and> connected_order (sv_dist s) (je_ids env)"

section \<open>Jobs\<close>

definition cert_bundle :: "IssuedCert \<Rightarrow> CertBundle" where
  "cert_bundle ic =
     \<lparr>cb_service_id = ic_service_id ic, cb_service_cert_pem = ic_cert_pem ic, cb_root_ca_pem = ic_root_ca_pem ic,
      cb_expires_at_unix = unix (ic_expires_at ic), cb_rotate_at_unix = unix (ic_rotate_at ic),
      cb_key_pem = ic_key_pem ic\<rparr>"

text \<open>The loop that pushes one payload to a list of nodes.\<close>

fun send_all :: "string list \<Rightarrow> Payload \<Rightarrow> Job \<Rightarrow> Job" where
  "send_all [] p k = k"
| "send_all (n # ids) p k = SendTo n p (send_all ids p k)"

definition issue_in :: "('u, 'k, 'db) ca_lib \<Rightarrow> 'k job_env \<Rightarrow> ('u, 'k, 'db) Sigil \<Rightarrow> string \<Rightarrow> string \<Rightarrow> string \<Rightarrow>
    string + IssuedCert \<times> ('u, 'k, 'db) Sigil" where
  "issue_in L env s sid cl ns =
     and_then (Issue L (je_issue env) (sv_ca s) sid cl ns) (\<lambda>(ic, ca). Inr (ic, s\<lparr>sv_ca := ca\<rparr>))"

text \<open>\<open>handleServiceEvent\<close>, \<open>RotateOne\<close> (the rotate handler) and \<open>Enroll\<close> (the enrol handler).\<close>

definition handle_service_event :: "('u, 'k, 'db) ca_lib \<Rightarrow> 'k job_env \<Rightarrow> ('u, 'k, 'db) Sigil \<Rightarrow> ServiceEvent \<Rightarrow>
    ('u, 'k, 'db) Sigil \<times> Job" where
  "handle_service_event L env s evt =
     (if se_deleted evt then
        (case Revoke L (sv_ca s) (se_service_id evt) of Inl e \<Rightarrow> (s, Done) | Inr ca \<Rightarrow> (s\<lparr>sv_ca := ca\<rparr>, Done))
      else
        (case issue_in L env s (se_service_id evt) (se_cluster_id evt) (se_namespace evt) of
           Inl e \<Rightarrow> (s, Done)
         | Inr (ic, s') \<Rightarrow> (s', SendTo (se_node_name evt) (CertPush (cert_bundle ic)) Done)))"

definition handle_rotate :: "('u, 'k, 'db) ca_lib \<Rightarrow> 'k job_env \<Rightarrow> ('u, 'k, 'db) Sigil \<Rightarrow> string \<Rightarrow>
    ('u, 'k, 'db) Sigil \<times> Job" where
  "handle_rotate L env s sid =
     (if sid = [] then (s, Respond (HttpError 400 ''serviceID required''))
      else
        (case ListCerts L (sv_ca s) of
           Inl e \<Rightarrow> (s, Respond (HttpError 500 e))
         | Inr cs \<Rightarrow>
             (case find (\<lambda>c. ic_service_id c = sid) cs of
                None \<Rightarrow> (s, Respond (HttpError 404 ''404 page not found''))
              | Some cur \<Rightarrow>
                  (case issue_in L env s (ic_service_id cur) (ic_cluster_id cur) (ic_namespace cur) of
                     Inl e \<Rightarrow> (s, Respond (HttpError 500 (''rotate failed: '' @ e)))
                   | Inr (ic, s') \<Rightarrow>
                       (s', RotatePush (cert_bundle ic)
                              (Respond (Rotated (ic_service_id ic) (unix (ic_expires_at ic)))))))))"

definition handle_enroll :: "('u, 'k, 'db) ca_lib \<Rightarrow> 'k job_env \<Rightarrow> ('u, 'k, 'db) Sigil \<Rightarrow> string \<Rightarrow>
    ('u, 'k, 'db) Sigil \<times> Job" where
  "handle_enroll L env s cid =
     (if cid = [] then (s, Respond (HttpError 400 ''cluster_id required''))
      else
        (let serviceID = ''conduit-'' @ cid in
         case IssueWithDNS L (je_issue env) (sv_ca s) serviceID cid ''meshlite-system''
                [cid, serviceID, ''localhost''] of
           Inl e \<Rightarrow> (s, Respond (HttpError 500 (''issue failed: '' @ e)))
         | Inr (ic, ca) \<Rightarrow>
             (s\<lparr>sv_ca := ca\<rparr>,
              Respond (Enrolled (ic_cert_pem ic) (ic_key_pem ic) (ic_root_ca_pem ic) (unix (ic_expires_at ic))))))"

text \<open>One step of a job: the new state and the rest of the job.\<close>

fun job_step :: "('u, 'k, 'db) ca_lib \<Rightarrow> 'k job_env \<Rightarrow> ('u, 'k, 'db) Sigil \<Rightarrow> Job \<Rightarrow> ('u, 'k, 'db) Sigil \<times> Job" where
  "job_step L env s (ConnectRules h) = (s, ConnectDefault h (Rules (sv_eng s) (je_ks env) (je_dord env)))"
| "job_step L env s (ConnectDefault h rs) = (s, ConnectMode h rs (defaultAllow (sv_eng s)))"
| "job_step L env s (ConnectMode h rs d) =
     (s, SendTo (ah_node_id h) (PolicyPush (bundle_of rs d (mtlsMode (sv_eng s)))) (ConnectIssue h (ah_pod_service_ids h)))"
| "job_step L env s (ConnectIssue h []) = (s, Done)"
| "job_step L env s (ConnectIssue h (svc # svcs)) =
     (case issue_in L env s svc (ah_cluster_id h) ''default'' of
        Inl e \<Rightarrow> (s, ConnectIssue h svcs)
      | Inr (ic, s') \<Rightarrow> (s', SendTo (ah_node_id h) (CertPush (cert_bundle ic)) (ConnectIssue h svcs)))"
| "job_step L env s (ReloadSwap eng) = (s\<lparr>sv_eng := eng\<rparr>, ReloadRules)"
| "job_step L env s ReloadRules = (s, ReloadDefault (Rules (sv_eng s) (je_ks env) (je_dord env)))"
| "job_step L env s (ReloadDefault rs) = (s, ReloadMode rs (defaultAllow (sv_eng s)))"
| "job_step L env s (ReloadMode rs d) = (s, Broadcast (bundle_of rs d (mtlsMode (sv_eng s))))"
| "job_step L env s (Broadcast b) = (s, send_all (je_ids env) (PolicyPush b) (Respond Accepted))"
| "job_step L env s (HandleEvent evt) = handle_service_event L env s evt"
| "job_step L env s (RotateScan []) = (s, Done)"
| "job_step L env s (RotateScan (c # cs)) =
     (if je_now env < ic_rotate_at c then (s, RotateScan cs)
      else
        (case issue_in L env s (ic_service_id c) (ic_cluster_id c) (ic_namespace c) of
           Inl e \<Rightarrow> (s, RotateScan cs)
         | Inr (ic, s') \<Rightarrow> (s', RotatePush (cert_bundle ic) (RotateScan cs))))"
| "job_step L env s (RotatePush b k) = (s, send_all (je_ids env) (CertPush b) k)"
| "job_step L env s (RotateOne sid) = handle_rotate L env s sid"
| "job_step L env s (Enroll cid) = handle_enroll L env s cid"
| "job_step L env s (SendTo n p k) =
     (case d_streams (sv_dist s) n of None \<Rightarrow> (s, k) | Some i \<Rightarrow> (s, OfferTo i p k))"
| "job_step L env s (OfferTo i p k) = (s\<lparr>sv_dist := offer_at (sv_dist s) i p\<rparr>, k)"
| "job_step L env s (Respond r) = (s\<lparr>sv_replies := sv_replies s @ [r]\<rparr>, Done)"
| "job_step L env s Done = (s, Done)"

section \<open>The server\<close>

text \<open>
  \<open>prepared\<close>: the job holds policy data that it read from the engine and has not yet handed over.
  With \<open>serial\<close> set, the engine is swapped only while no job is prepared; without it, as the code
  does it, at any time.
\<close>

fun prepared :: "Job \<Rightarrow> bool" where
  "prepared (ConnectDefault h rs) = True"
| "prepared (ConnectMode h rs d) = True"
| "prepared (ReloadDefault rs) = True"
| "prepared (ReloadMode rs d) = True"
| "prepared (Broadcast b) = True"
| "prepared (SendTo n p k) = (policy_of p \<noteq> None \<or> prepared k)"
| "prepared (OfferTo i p k) = (policy_of p \<noteq> None \<or> prepared k)"
| "prepared (RotatePush b k) = prepared k"
| "prepared _ = False"

fun swaps :: "Job \<Rightarrow> bool" where
  "swaps (ReloadSwap eng) = True"
| "swaps _ = False"

text \<open>The events of the loops of the streams, which are not started by a job.\<close>

fun loop_event :: "DistEvent \<Rightarrow> bool" where
  "loop_event (Cancel i) = True"
| "loop_event (Finish i) = True"
| "loop_event (Deliver i sent) = True"
| "loop_event _ = False"

definition add_job :: "('u, 'k, 'db) Sigil \<Rightarrow> Job \<Rightarrow> ('u, 'k, 'db) Sigil" where
  "add_job s j = s\<lparr>sv_jobs := sv_jobs s @ [j]\<rparr>"

inductive sv_step :: "bool \<Rightarrow> ('u, 'k, 'db) ca_lib \<Rightarrow> (bytes \<Rightarrow> string + MeshConfig) \<Rightarrow>
    ('u, 'k, 'db) Sigil \<Rightarrow> ('u, 'k, 'db) Sigil \<Rightarrow> bool" for serial L unmarshal where
  agent: "subscribe (sv_dist s) hello = Inr (i, d) \<Longrightarrow>
    sv_step serial L unmarshal s (add_job (s\<lparr>sv_dist := d\<rparr>) (ConnectRules hello))"
| loop: "loop_event e \<Longrightarrow> sv_step serial L unmarshal s (s\<lparr>sv_dist := dist_step (sv_dist s) e\<rparr>)"
| config: "NewFromBytes unmarshal body = Inr eng \<Longrightarrow>
    sv_step serial L unmarshal s (add_job s (ReloadSwap eng))"
| bad_config: "NewFromBytes unmarshal body = Inl e \<Longrightarrow>
    sv_step serial L unmarshal s (s\<lparr>sv_replies := sv_replies s @ [HttpError 400 (''invalid config: '' @ e)]\<rparr>)"
| pod: "Reconcile (sv_cluster s) ns name answer = Inr (Some evt) \<Longrightarrow>
    sv_step serial L unmarshal s (add_job s (HandleEvent evt))"
| tick: "ListCerts L (sv_ca s) = Inr cs \<Longrightarrow> sv_step serial L unmarshal s (add_job s (RotateScan cs))"
| rotate: "sv_step serial L unmarshal s (add_job s (RotateOne sid))"
| enroll: "sv_step serial L unmarshal s (add_job s (Enroll cid))"
| run: "i < length (sv_jobs s) \<Longrightarrow> valid_env s env \<Longrightarrow>
    (serial \<Longrightarrow> swaps (sv_jobs s ! i) \<Longrightarrow> \<not> list_ex prepared (sv_jobs s)) \<Longrightarrow>
    job_step L env s (sv_jobs s ! i) = (s', j) \<Longrightarrow>
    sv_step serial L unmarshal s (s'\<lparr>sv_jobs := (sv_jobs s)[i := j]\<rparr>)"

definition sv_start :: "Engine \<Rightarrow> ('u, 'k, 'db) CA \<Rightarrow> ('u, 'k, 'db) Sigil" where
  "sv_start eng ca = \<lparr>sv_cluster = clusterID eng, sv_eng = eng, sv_ca = ca, sv_dist = d_new, sv_jobs = [], sv_replies = []\<rparr>"

inductive sv_reach :: "bool \<Rightarrow> ('u, 'k, 'db) ca_lib \<Rightarrow> (bytes \<Rightarrow> string + MeshConfig) \<Rightarrow> ('u, 'k, 'db) Sigil \<Rightarrow> bool"
  for serial L unmarshal where
  start: "NewFromBytes unmarshal body = Inr eng \<Longrightarrow> sv_reach serial L unmarshal (sv_start eng ca)"
| step: "sv_reach serial L unmarshal s \<Longrightarrow> sv_step serial L unmarshal s s' \<Longrightarrow> sv_reach serial L unmarshal s'"

end
