(* ===== verification/Sigil_Flow.thy ===== *)
theory Sigil_Flow
  imports Sigil_Server
begin

text \<open>
  What the control plane guarantees over all interleavings of its goroutines: the invariant behind
  the convergence of the policy, the termination of the jobs, undisturbed runs for the examples, and
  the properties of connecting agents, reloads, rotations and pod deletions.
\<close>

section \<open>What every job respects\<close>

text \<open>The data a job holds is that of the engine.\<close>

definition is_rules :: "Engine \<Rightarrow> AllowRule list \<Rightarrow> bool" where
  "is_rules eng rs \<longleftrightarrow> (\<exists>ks dord. visits eng ks dord \<and> rs = Rules eng ks dord)"

fun current :: "Engine \<Rightarrow> Job \<Rightarrow> bool" where
  "current eng (ConnectDefault h rs) = is_rules eng rs"
| "current eng (ConnectMode h rs d) = (is_rules eng rs \<and> d = defaultAllow eng)"
| "current eng (ReloadDefault rs) = is_rules eng rs"
| "current eng (ReloadMode rs d) = (is_rules eng rs \<and> d = defaultAllow eng)"
| "current eng (Broadcast b) = is_snapshot eng b"
| "current eng (SendTo n p k) = ((\<forall>b. policy_of p = Some b \<longrightarrow> is_snapshot eng b) \<and> current eng k)"
| "current eng (OfferTo i p k) = ((\<forall>b. policy_of p = Some b \<longrightarrow> is_snapshot eng b) \<and> current eng k)"
| "current eng (RotatePush b k) = current eng k"
| "current eng _ = True"

text \<open>The job will still offer a policy to the stream \<open>i\<close> of the node \<open>n\<close>.\<close>

fun will_push :: "nat \<Rightarrow> string \<Rightarrow> Job \<Rightarrow> bool" where
  "will_push i n (ConnectRules h) = (ah_node_id h = n)"
| "will_push i n (ConnectDefault h rs) = (ah_node_id h = n)"
| "will_push i n (ConnectMode h rs d) = (ah_node_id h = n)"
| "will_push i n ReloadRules = True"
| "will_push i n (ReloadDefault rs) = True"
| "will_push i n (ReloadMode rs d) = True"
| "will_push i n (Broadcast b) = True"
| "will_push i n (SendTo m p k) = (m = n \<and> policy_of p \<noteq> None \<or> will_push i n k)"
| "will_push i n (OfferTo j p k) = (j = i \<and> policy_of p \<noteq> None \<or> will_push i n k)"
| "will_push i n (RotatePush b k) = will_push i n k"
| "will_push i n _ = False"

text \<open>The policy offered last to the stream is the engine's.\<close>

definition fresh_stream :: "Engine \<Rightarrow> agentStream \<Rightarrow> bool" where
  "fresh_stream eng as \<longleftrightarrow> (\<exists>b ok. newest as = Some (b, ok) \<and> is_snapshot eng b)"

definition sv_inv :: "('u, 'k, 'db) Sigil \<Rightarrow> bool" where
  "sv_inv s \<longleftrightarrow> dist_inv (sv_dist s) \<and> list_all (current (sv_eng s)) (sv_jobs s)
     \<and> (\<forall>n i. d_streams (sv_dist s) n = Some i \<longrightarrow>
          list_ex (will_push i n) (sv_jobs s) \<or> fresh_stream (sv_eng s) (d_heap (sv_dist s) ! i))"

lemma not_prepared_current: "\<not> prepared j \<Longrightarrow> current eng j"
  by (induction j) simp_all

lemma current_send_all [simp]:
  "current eng (send_all ids p k) \<longleftrightarrow> (ids = [] \<or> (\<forall>b. policy_of p = Some b \<longrightarrow> is_snapshot eng b)) \<and> current eng k"
  by (induction ids) auto

lemma will_push_send_all [simp]:
  "will_push i n (send_all ids p k) \<longleftrightarrow> n \<in> set ids \<and> policy_of p \<noteq> None \<or> will_push i n k"
  by (induction ids) auto

lemma rules_read: "visits eng ks dord \<Longrightarrow> is_rules eng (Rules eng ks dord)"
  unfolding is_rules_def by blast

lemma bundle_snapshot: "is_rules eng rs \<Longrightarrow> is_snapshot eng (bundle_of rs (defaultAllow eng) (mtlsMode eng))"
  unfolding is_rules_def is_snapshot_def engine_bundle_def by blast

text \<open>What one step of a job does to the streams, the engine, the job's data and its pushes.\<close>

lemma issue_in_sel:
  assumes "issue_in L env s sid cl ns = Inr (ic, s')"
  shows "sv_eng s' = sv_eng s" "sv_dist s' = sv_dist s" "sv_jobs s' = sv_jobs s" "sv_replies s' = sv_replies s"
    "sv_cluster s' = sv_cluster s"
  using assms by (auto simp: issue_in_def and_then_Inr_iff)

lemma handler_sel:
  "handle_service_event L env s evt = (s', j) \<Longrightarrow>
    sv_eng s' = sv_eng s \<and> sv_dist s' = sv_dist s \<and> \<not> prepared j \<and> \<not> swaps j \<and> sv_jobs s' = sv_jobs s"
  "handle_rotate L env s sid = (s', j) \<Longrightarrow>
    sv_eng s' = sv_eng s \<and> sv_dist s' = sv_dist s \<and> \<not> prepared j \<and> \<not> swaps j \<and> sv_jobs s' = sv_jobs s"
  "handle_enroll L env s cid = (s', j) \<Longrightarrow>
    sv_eng s' = sv_eng s \<and> sv_dist s' = sv_dist s \<and> \<not> prepared j \<and> \<not> swaps j \<and> sv_jobs s' = sv_jobs s"
  by (auto simp: handle_service_event_def handle_rotate_def handle_enroll_def Let_def dest: issue_in_sel
      split: if_splits sum.splits option.splits)

lemma job_step_dist:
  assumes "job_step L env s j = (s', j')"
  shows "sv_dist s' = (case j of OfferTo i p k \<Rightarrow> offer_at (sv_dist s) i p | _ \<Rightarrow> sv_dist s)"
    and "sv_eng s' = (case j of ReloadSwap eng \<Rightarrow> eng | _ \<Rightarrow> sv_eng s)"
    and "sv_jobs s' = sv_jobs s"
  using assms
  by (induction L env s j rule: job_step.induct)
    (auto dest: handler_sel issue_in_sel split: sum.splits option.splits if_splits)

lemma job_step_current:
  assumes "job_step L env s j = (s', j')" and "valid_env s env" and "current (sv_eng s) j"
  shows "current (sv_eng s') j'"
  using assms
  by (induction L env s j rule: job_step.induct)
    (auto simp: valid_env_def dest: handler_sel issue_in_sel not_prepared_current bundle_snapshot rules_read
      split: sum.splits option.splits if_splits)

lemma fresh_offer:
  assumes "\<forall>b. policy_of p = Some b \<longrightarrow> is_snapshot eng b"
  shows "fresh_stream eng as \<Longrightarrow> fresh_stream eng (offer as p)"
    and "policy_of p \<noteq> None \<Longrightarrow> fresh_stream eng (offer as p)"
proof -
  show "policy_of p \<noteq> None \<Longrightarrow> fresh_stream eng (offer as p)"
    using assms newest_offer_policy [of as] by (cases p) (auto simp: fresh_stream_def, blast)
  then show "fresh_stream eng as \<Longrightarrow> fresh_stream eng (offer as p)"
    by (cases p) (auto simp: fresh_stream_def newest_offer_cert)
qed

lemma job_step_fresh:
  assumes "job_step L env s j = (s', j')" and "\<not> swaps j" and "current (sv_eng s) j" and "i < length (d_heap (sv_dist s))"
    and "fresh_stream (sv_eng s) (d_heap (sv_dist s) ! i)"
  shows "fresh_stream (sv_eng s') (d_heap (sv_dist s') ! i)"
proof (cases "\<exists>m p k. j = OfferTo m p k")
  case True
  then obtain m p k where j: "j = OfferTo m p k" by blast
  have p: "\<forall>b. policy_of p = Some b \<longrightarrow> is_snapshot (sv_eng s) b" using assms(3) by (simp add: j)
  show ?thesis using fresh_offer(1) [OF p assms(5)] assms(4,5)
    by (simp add: job_step_dist [OF assms(1)] j offer_at_def nth_update_in)
next
  case False
  then have "sv_dist s' = sv_dist s" unfolding job_step_dist(1) [OF assms(1)] by (cases j) simp_all
  moreover have "sv_eng s' = sv_eng s" using assms(2) unfolding job_step_dist(2) [OF assms(1)] by (cases j) simp_all
  ultimately show ?thesis using assms(5) by simp
qed

lemma job_step_push:
  assumes "job_step L env s j = (s', j')" and "valid_env s env" and "current (sv_eng s) j"
    and "d_streams (sv_dist s) n = Some i" and "i < length (d_heap (sv_dist s))" and "will_push i n j"
  shows "will_push i n j' \<or> fresh_stream (sv_eng s') (d_heap (sv_dist s') ! i)"
proof (cases "\<exists>m p k. j = OfferTo m p k")
  case True
  then obtain m p k where j: "j = OfferTo m p k" by blast
  then show ?thesis
    using assms fresh_offer(2) [of p "sv_eng s" "d_heap (sv_dist s) ! i"]
    by (auto simp: offer_at_def nth_update_in)
next
  case False
  then show ?thesis
    using assms(1,2,4,6)
    by (cases j) (auto simp: valid_env_def connected_order_def iter_order_mem dest: handler_sel issue_in_sel
        split: sum.splits option.splits if_splits)
qed

lemma loop_event_sel:
  assumes "loop_event e"
  shows "d_streams (dist_step d e) n = Some k \<Longrightarrow> d_streams d n = Some k"
    and "length (d_heap (dist_step d e)) = length (d_heap d)"
    and "k < length (d_heap d) \<Longrightarrow> as_offered (d_heap (dist_step d e) ! k) = as_offered (d_heap d ! k)
     \<and> prefix (as_sent (d_heap d ! k)) (as_sent (d_heap (dist_step d e) ! k))"
proof -
  show "d_streams (dist_step d e) n = Some k \<Longrightarrow> d_streams d n = Some k"
    using assms by (cases e) (auto dest: finish_stream_sel(1) deliver_sel(1) split: if_splits)
  show "length (d_heap (dist_step d e)) = length (d_heap d)"
    using assms by (cases e) (auto simp: finish_stream_sel(2) deliver_sel(2))
  assume k: "k < length (d_heap d)"
  show "as_offered (d_heap (dist_step d e) ! k) = as_offered (d_heap d ! k)
     \<and> prefix (as_sent (d_heap d ! k)) (as_sent (d_heap (dist_step d e) ! k))"
    using assms k by (cases e) (auto simp: finish_stream_sel(3) deliver_sel(3) cancel_stream_def nth_update_in)
qed

lemma fresh_offered:
  assumes "as_offered as' = as_offered as"
  shows "fresh_stream eng as' = fresh_stream eng as"
  unfolding fresh_stream_def newest_offered [OF assms] ..

text \<open>Every registered stream is covered: a job will still push to it, or it was offered the current policy.\<close>

definition covered :: "('u, 'k, 'db) Sigil \<Rightarrow> string \<Rightarrow> nat \<Rightarrow> bool" where
  "covered s n i \<longleftrightarrow> list_ex (will_push i n) (sv_jobs s) \<or> fresh_stream (sv_eng s) (d_heap (sv_dist s) ! i)"

lemma sv_invI:
  assumes "dist_inv (sv_dist s)" and "list_all (current (sv_eng s)) (sv_jobs s)"
    and "\<And>n i. d_streams (sv_dist s) n = Some i \<Longrightarrow> covered s n i"
  shows "sv_inv s"
  unfolding sv_inv_def using assms(1,2) assms(3) [unfolded covered_def] by blast

lemma sv_invD:
  assumes "sv_inv s"
  shows "dist_inv (sv_dist s)" and "list_all (current (sv_eng s)) (sv_jobs s)"
    and "d_streams (sv_dist s) n = Some i \<Longrightarrow> covered s n i"
    and "d_streams (sv_dist s) n = Some i \<Longrightarrow> i < length (d_heap (sv_dist s))"
proof -
  show "dist_inv (sv_dist s)" and "list_all (current (sv_eng s)) (sv_jobs s)"
    using assms by (simp_all add: sv_inv_def)
  assume n: "d_streams (sv_dist s) n = Some i"
  show "covered s n i" using assms n by (simp add: sv_inv_def covered_def)
  show "i < length (d_heap (sv_dist s))"
    using dist_inv_registered [OF \<open>dist_inv (sv_dist s)\<close> n] by (simp add: running_def)
qed

lemma sv_inv_job:
  assumes "sv_inv s" and "current (sv_eng s) j"
  shows "sv_inv (add_job s j)"
  using assms by (auto simp: sv_inv_def add_job_def)

lemma sv_inv_agent:
  assumes inv: "sv_inv s" and sub: "subscribe (sv_dist s) hello = Inr (i, d)"
  shows "sv_inv (add_job (s\<lparr>sv_dist := d\<rparr>) (ConnectRules hello))"
proof (rule sv_invI)
  let ?s = "add_job (s\<lparr>sv_dist := d\<rparr>) (ConnectRules hello)"
  note sel = subscribe_sel [OF sub]
  show "dist_inv (sv_dist ?s)" using dist_inv_subscribe [OF sv_invD(1) [OF inv] sub] by (simp add: add_job_def)
  show "list_all (current (sv_eng ?s)) (sv_jobs ?s)" using sv_invD(2) [OF inv] by (simp add: add_job_def)
  fix n k
  assume k: "d_streams (sv_dist ?s) n = Some k"
  show "covered ?s n k"
  proof (cases "n = ah_node_id hello")
    case True
    then show ?thesis by (simp add: covered_def add_job_def)
  next
    case False
    then have "d_streams (sv_dist s) n = Some k" using k sel(3) by (simp add: add_job_def)
    note cov = sv_invD(3,4) [OF inv this]
    have "as_offered (d_heap d ! k) = as_offered (d_heap (sv_dist s) ! k)" using cov(2) sel(1) sel(4) [of k] by simp
    then have "fresh_stream eng (d_heap d ! k) = fresh_stream eng (d_heap (sv_dist s) ! k)" for eng
      by (rule fresh_offered)
    then show ?thesis using cov(1) unfolding covered_def add_job_def by simp blast
  qed
qed

lemma sv_inv_loop:
  assumes inv: "sv_inv s" and e: "loop_event e"
  shows "sv_inv (s\<lparr>sv_dist := dist_step (sv_dist s) e\<rparr>)"
proof (rule sv_invI)
  let ?s = "s\<lparr>sv_dist := dist_step (sv_dist s) e\<rparr>"
  show "dist_inv (sv_dist ?s)" using dist.inv_step [OF sv_invD(1) [OF inv]] by simp
  show "list_all (current (sv_eng ?s)) (sv_jobs ?s)" using sv_invD(2) [OF inv] by simp
  fix n k
  assume "d_streams (sv_dist ?s) n = Some k"
  then have "d_streams (sv_dist s) n = Some k" using loop_event_sel(1) [OF e, of "sv_dist s" n k] by simp
  note cov = sv_invD(3,4) [OF inv this]
  have "as_offered (d_heap (dist_step (sv_dist s) e) ! k) = as_offered (d_heap (sv_dist s) ! k)"
    using loop_event_sel(3) [OF e cov(2)] by blast
  then have "fresh_stream eng (d_heap (dist_step (sv_dist s) e) ! k) = fresh_stream eng (d_heap (sv_dist s) ! k)" for eng
    by (rule fresh_offered)
  then show "covered ?s n k" using cov(1) unfolding covered_def by simp
qed

lemma list_ex_update:
  assumes "list_ex P xs" and "i < length xs" and "P (xs ! i) \<Longrightarrow> P x"
  shows "list_ex P (xs[i := x])"
proof -
  obtain k where k: "k < length xs" "P (xs ! k)" using assms(1) by (auto simp: list_ex_length)
  then show ?thesis
    using assms(2,3) by (cases "k = i") (auto simp: list_ex_length nth_update_in intro!: exI [of _ k])
qed

lemma sv_inv_run:
  assumes inv: "sv_inv s" and i: "i < length (sv_jobs s)" and env: "valid_env s env"
    and safe: "swaps (sv_jobs s ! i) \<Longrightarrow> \<not> list_ex prepared (sv_jobs s)"
    and step: "job_step L env s (sv_jobs s ! i) = (s', j)"
  shows "sv_inv (s'\<lparr>sv_jobs := (sv_jobs s)[i := j]\<rparr>)"
proof (rule sv_invI)
  let ?s = "s'\<lparr>sv_jobs := (sv_jobs s)[i := j]\<rparr>" and ?j = "sv_jobs s ! i"
  have cur: "current (sv_eng s) ?j" using sv_invD(2) [OF inv] i by (simp add: list_all_length)
  note dist = job_step_dist [OF step]
  have same: "d_streams (sv_dist s') = d_streams (sv_dist s)" unfolding dist(1) by (cases ?j) simp_all
  have "dist_inv (sv_dist s')"
    unfolding dist(1) using sv_invD(1) [OF inv] by (cases ?j) (simp_all add: dist_inv_offer)
  then show "dist_inv (sv_dist ?s)" by simp
  have swap: "swaps ?j \<Longrightarrow> list_all (\<lambda>k. \<not> prepared k) (sv_jobs s)"
    using safe by (auto simp: list_all_iff list_ex_iff)
  have eng: "\<not> swaps ?j \<Longrightarrow> sv_eng s' = sv_eng s" unfolding dist(2) by (cases ?j) simp_all
  have "list_all (current (sv_eng s')) (sv_jobs s)"
    using swap eng sv_invD(2) [OF inv] not_prepared_current by (cases "swaps ?j") (auto simp: list_all_iff)
  then show "list_all (current (sv_eng ?s)) (sv_jobs ?s)"
    using job_step_current [OF step env cur] by (auto simp: list_all_iff dest: set_update_subset_insert [THEN subsetD])
  fix n k
  assume "d_streams (sv_dist ?s) n = Some k"
  then have k: "d_streams (sv_dist s) n = Some k" using same by simp
  show "covered ?s n k"
  proof (cases "swaps ?j")
    case True
    then obtain eng where "?j = ReloadSwap eng" by (cases ?j) simp_all
    then have "j = ReloadRules" using step by simp
    then show ?thesis using i by (auto simp: covered_def list_ex_length nth_update_in intro!: exI [of _ i])
  next
    case False
    note cov = sv_invD(3,4) [OF inv k]
    show ?thesis
    proof (cases "fresh_stream (sv_eng s') (d_heap (sv_dist s') ! k)")
      case True
      then show ?thesis by (simp add: covered_def)
    next
      case stale: False
      then have "list_ex (will_push k n) (sv_jobs s)"
        using cov(1) job_step_fresh [OF step False cur cov(2)] unfolding covered_def by blast
      moreover have "will_push k n ?j \<Longrightarrow> will_push k n j"
        using job_step_push [OF step env cur k cov(2)] stale by blast
      ultimately show ?thesis using list_ex_update [OF _ i] by (simp add: covered_def)
    qed
  qed
qed



lemma sv_inv_step:
  assumes "sv_inv s" and "sv_step True L unmarshal s s'"
  shows "sv_inv s'"
  using assms(2)
proof (cases rule: sv_step.cases)
  case (bad_config body e)
  then show ?thesis using assms(1) by (simp add: sv_inv_def)
next
  case (run i env s'' j)
  show ?thesis unfolding run(1) by (rule sv_inv_run [OF assms(1) run(2,3) _ run(5)]) (use run(4) in blast)
qed (simp_all add: assms(1) sv_inv_agent sv_inv_loop sv_inv_job)

lemma sv_inv_start: "sv_inv (sv_start eng ca)"
  by (simp add: sv_inv_def sv_start_def d_new_def dist_inv_def running_def)

lemma sv_reach_inv: "sv_reach True L unmarshal s \<Longrightarrow> sv_inv s"
  by (induction rule: sv_reach.induct) (auto intro: sv_inv_start sv_inv_step)

text \<open>The streams are well-formed in any case, with or without the condition on the swaps.\<close>

lemma sv_step_dist:
  assumes "dist_inv (sv_dist s)" and "sv_step serial L unmarshal s s'"
  shows "dist_inv (sv_dist s')"
  using assms(2)
proof (cases rule: sv_step.cases)
  case (agent hello i d)
  then show ?thesis using dist_inv_subscribe [OF assms(1)] by (simp add: add_job_def)
next
  case (loop e)
  then show ?thesis using dist.inv_step [OF assms(1)] by simp
next
  case (run j env' s'' k)
  show ?thesis unfolding run(1) using assms(1) job_step_dist(1) [OF run(5)]
    by (cases "sv_jobs s ! j") (simp_all add: dist_inv_offer)
qed (simp_all add: add_job_def assms(1))

lemma sv_reach_dist: "sv_reach serial L unmarshal s \<Longrightarrow> dist_inv (sv_dist s)"
  by (induction rule: sv_reach.induct) (simp add: sv_start_def, rule sv_step_dist)

section \<open>Runs\<close>

lemma run_job:
  assumes "sv_reach serial L unmarshal s" and "i < length (sv_jobs s)" and "valid_env s env"
    and "serial \<Longrightarrow> swaps (sv_jobs s ! i) \<Longrightarrow> \<not> list_ex prepared (sv_jobs s)"
    and "job_step L env s (sv_jobs s ! i) = (s', j)"
  shows "sv_reach serial L unmarshal (s'\<lparr>sv_jobs := (sv_jobs s)[i := j]\<rparr>)"
  using assms by (blast intro: sv_reach.step sv_step.run)

text \<open>The last job of the list, three times in a row when it connects an agent.\<close>

lemma run_last:
  assumes "sv_reach serial L unmarshal (add_job s j)" and "valid_env s env"
    and "serial \<Longrightarrow> swaps j \<Longrightarrow> \<not> list_ex prepared (sv_jobs s)"
    and "job_step L env (add_job s j) j = ((add_job s' j), j')" and "sv_jobs s' = sv_jobs s"
  shows "sv_reach serial L unmarshal (add_job s' j')"
proof -
  have len: "length (sv_jobs s) < length (sv_jobs (add_job s j))" by (simp add: add_job_def)
  have nth: "sv_jobs (add_job s j) ! length (sv_jobs s) = j" by (simp add: add_job_def)
  have v: "valid_env (add_job s j) env" using assms(2) by (simp add: valid_env_def add_job_def)
  have safe: "\<not> list_ex prepared (sv_jobs (add_job s j))" if "serial" "swaps j"
    using assms(3) [OF that] that(2) by (cases j) (simp_all add: add_job_def)
  have "sv_reach serial L unmarshal ((add_job s' j)\<lparr>sv_jobs := (sv_jobs (add_job s j))[length (sv_jobs s) := j']\<rparr>)"
    by (rule run_job [OF assms(1) len v]) (use safe assms(4) nth in auto)
  then show ?thesis using assms(5) by (simp add: add_job_def)
qed

text \<open>A push that goes through both halves without interference.\<close>

lemma run_send:
  assumes reach: "sv_reach serial L unmarshal s" and i: "i < length (sv_jobs s)" "sv_jobs s ! i = SendTo n p k"
    and v: "valid_env s env"
  shows "sv_reach serial L unmarshal (s\<lparr>sv_dist := send (sv_dist s) n p, sv_jobs := (sv_jobs s)[i := k]\<rparr>)"
proof (cases "d_streams (sv_dist s) n")
  case None
  then show ?thesis using run_job [OF reach i(1) v, of s k] i(2) by (simp add: send_def)
next
  case (Some a)
  let ?s = "s\<lparr>sv_jobs := (sv_jobs s)[i := OfferTo a p k]\<rparr>"
  have reach1: "sv_reach serial L unmarshal ?s" using run_job [OF reach i(1) v, of s "OfferTo a p k"] i(2) Some by simp
  have v1: "valid_env ?s env" using v by (simp add: valid_env_def)
  show ?thesis
    using run_job [OF reach1 _ v1, of i "?s\<lparr>sv_dist := offer_at (sv_dist s) a p\<rparr>" k] i(1) Some by (simp add: send_def)
qed

lemma run_send_all:
  assumes "sv_reach serial L unmarshal s" and "i < length (sv_jobs s)" and "sv_jobs s ! i = send_all ids p k"
    and "\<And>d. d_streams d = d_streams (sv_dist s) \<Longrightarrow> valid_env (s\<lparr>sv_dist := d\<rparr>) env"
  shows "sv_reach serial L unmarshal
    (s\<lparr>sv_dist := foldl (\<lambda>d n. send d n p) (sv_dist s) ids, sv_jobs := (sv_jobs s)[i := k]\<rparr>)"
  using assms
proof (induction ids arbitrary: s)
  case Nil
  then have "(sv_jobs s)[i := k] = sv_jobs s" by (metis list_update_id send_all.simps(1))
  then show ?case using Nil by simp
next
  case (Cons n ids)
  let ?s = "s\<lparr>sv_dist := send (sv_dist s) n p, sv_jobs := (sv_jobs s)[i := send_all ids p k]\<rparr>"
  have v: "valid_env s env" using Cons.prems(4) [of "sv_dist s"] by simp
  have reach: "sv_reach serial L unmarshal ?s"
    using run_send [OF Cons.prems(1,2) _ v, of n p "send_all ids p k"] Cons.prems(3) by simp
  have same: "d_streams (send d m q) = d_streams d" for d m q by (simp add: send_def split: option.split)
  have v': "valid_env (?s\<lparr>sv_dist := d\<rparr>) env" if "d_streams d = d_streams (sv_dist ?s)" for d
    using Cons.prems(4) [of d] that by (simp add: same valid_env_def)
  show ?case using Cons.IH [OF reach _ _ v'] Cons.prems(2) by simp
qed

text \<open>An agent connects: its policy has been read and is about to be pushed.\<close>

lemma run_connect:
  assumes reach: "sv_reach serial L unmarshal s" and sub: "subscribe (sv_dist s) h = Inr (i, d)"
    and v: "visits (sv_eng s) ks dord" and ids: "iter_order (d_streams d) ids"
  shows "sv_reach serial L unmarshal (add_job (s\<lparr>sv_dist := d\<rparr>)
    (SendTo (ah_node_id h) (PolicyPush (engine_bundle (sv_eng s) ks dord)) (ConnectIssue h (ah_pod_service_ids h))))"
proof -
  let ?s = "s\<lparr>sv_dist := d\<rparr>"
  obtain env :: "'b job_env" where env: "je_ks env = ks" "je_dord env = dord" "je_ids env = ids"
    by (meson job_env.select_convs)
  have v: "valid_env ?s env" using v ids by (simp add: valid_env_def env connected_order_def)
  have "sv_reach serial L unmarshal (add_job ?s (ConnectRules h))"
    by (rule sv_reach.step [OF reach sv_step.agent [OF sub]])
  from run_last [OF this v, of ?s "ConnectDefault h (Rules (sv_eng s) ks dord)"]
  have "sv_reach serial L unmarshal (add_job ?s (ConnectDefault h (Rules (sv_eng s) ks dord)))"
    by (simp add: env add_job_def)
  from run_last [OF this v, of ?s "ConnectMode h (Rules (sv_eng s) ks dord) (defaultAllow (sv_eng s))"]
  have "sv_reach serial L unmarshal (add_job ?s (ConnectMode h (Rules (sv_eng s) ks dord) (defaultAllow (sv_eng s))))"
    by (simp add: add_job_def)
  from run_last [OF this v, of ?s] show ?thesis by (simp add: add_job_def engine_bundle_def)
qed

text \<open>A reload that is not disturbed: the engine is swapped and its bundle is about to be broadcast.\<close>

lemma run_reload:
  assumes reach: "sv_reach serial L unmarshal s" and new: "NewFromBytes unmarshal body = Inr eng"
    and v: "visits (sv_eng s) ks0 dord0" "visits eng ks dord" and ids: "iter_order (d_streams (sv_dist s)) ids"
    and safe: "serial \<Longrightarrow> \<not> list_ex prepared (sv_jobs s)"
  shows "sv_reach serial L unmarshal (add_job (s\<lparr>sv_eng := eng\<rparr>)
    (send_all ids (PolicyPush (engine_bundle eng ks dord)) (Respond Accepted)))"
proof -
  let ?s = "s\<lparr>sv_eng := eng\<rparr>"
  obtain env0 env :: "'b job_env" where env: "je_ks env0 = ks0" "je_dord env0 = dord0" "je_ids env0 = ids"
    "je_ks env = ks" "je_dord env = dord" "je_ids env = ids"
    by (meson job_env.select_convs)
  have v0: "valid_env s env0" and v1: "valid_env ?s env" using v ids by (simp_all add: valid_env_def env connected_order_def)
  have "sv_reach serial L unmarshal (add_job s (ReloadSwap eng))"
    by (rule sv_reach.step [OF reach sv_step.config [OF new]])
  from run_last [OF this v0, of ?s ReloadRules]
  have "sv_reach serial L unmarshal (add_job ?s ReloadRules)" using safe by (simp add: add_job_def)
  from run_last [OF this v1, of ?s "ReloadDefault (Rules eng ks dord)"]
  have "sv_reach serial L unmarshal (add_job ?s (ReloadDefault (Rules eng ks dord)))" by (simp add: env add_job_def)
  from run_last [OF this v1, of ?s "ReloadMode (Rules eng ks dord) (defaultAllow eng)"]
  have "sv_reach serial L unmarshal (add_job ?s (ReloadMode (Rules eng ks dord) (defaultAllow eng)))" by (simp add: add_job_def)
  from run_last [OF this v1, of ?s "Broadcast (engine_bundle eng ks dord)"]
  have "sv_reach serial L unmarshal (add_job ?s (Broadcast (engine_bundle eng ks dord)))"
    by (simp add: add_job_def engine_bundle_def)
  from run_last [OF this v1, of ?s] show ?thesis by (simp add: env add_job_def)
qed

section \<open>The jobs finish\<close>

text \<open>The steps a job still takes, with \<open>N\<close> connected agents.\<close>

fun weight :: "nat \<Rightarrow> Job \<Rightarrow> nat" where
  "weight N (ConnectIssue h svcs) = 1 + 3 * length svcs"
| "weight N (ConnectMode h rs d) = 4 + 3 * length (ah_pod_service_ids h)"
| "weight N (ConnectDefault h rs) = 5 + 3 * length (ah_pod_service_ids h)"
| "weight N (ConnectRules h) = 6 + 3 * length (ah_pod_service_ids h)"
| "weight N (Broadcast b) = 2 + 2 * N"
| "weight N (ReloadMode rs d) = 3 + 2 * N"
| "weight N (ReloadDefault rs) = 4 + 2 * N"
| "weight N ReloadRules = 5 + 2 * N"
| "weight N (ReloadSwap eng) = 6 + 2 * N"
| "weight N (HandleEvent evt) = 3"
| "weight N (RotateScan cs) = 1 + (2 + 2 * N) * length cs"
| "weight N (RotatePush b k) = 1 + 2 * N + weight N k"
| "weight N (RotateOne sid) = 3 + 2 * N"
| "weight N (Enroll cid) = 2"
| "weight N (SendTo n p k) = 2 + weight N k"
| "weight N (OfferTo i p k) = 1 + weight N k"
| "weight N (Respond r) = 1"
| "weight N Done = 0"

definition agents :: "('u, 'k, 'db) Sigil \<Rightarrow> nat" where
  "agents s = card (dom (d_streams (sv_dist s)))"

definition work_left :: "('u, 'k, 'db) Sigil \<Rightarrow> nat" where
  "work_left s = sum_list (map (weight (agents s)) (sv_jobs s))"

lemma weight_send_all [simp]: "weight N (send_all ids p k) = 2 * length ids + weight N k"
  by (induction ids) simp_all

lemma valid_env_ids: "valid_env s env \<Longrightarrow> length (je_ids env) = agents s"
  by (simp add: valid_env_def connected_order_def agents_def iter_order_def distinct_card [symmetric])

lemma handler_weight:
  "handle_service_event L env s evt = (s', j) \<Longrightarrow> weight N j < 3"
  "handle_rotate L env s sid = (s', j) \<Longrightarrow> weight N j < 3 + 2 * N"
  "handle_enroll L env s cid = (s', j) \<Longrightarrow> weight N j < 2"
  by (auto simp: handle_service_event_def handle_rotate_def handle_enroll_def Let_def
      split: if_splits sum.splits option.splits prod.splits)

lemma job_step_weight:
  assumes "job_step L env s j = (s', j')" and "j \<noteq> Done" and "length (je_ids env) = N"
  shows "weight N j' < weight N j"
  using assms
  by (induction L env s j rule: job_step.induct)
    (auto dest: handler_weight split: if_splits sum.splits option.splits prod.splits)

text \<open>What makes the orders of the maps exist: the registry is finite, and every engine has one.\<close>

definition has_order :: "Engine \<Rightarrow> bool" where
  "has_order eng \<longleftrightarrow> (\<exists>ks dord. visits eng ks dord)"

fun orders_ok :: "Job \<Rightarrow> bool" where
  "orders_ok (ReloadSwap eng) = has_order eng"
| "orders_ok (SendTo n p k) = orders_ok k"
| "orders_ok (OfferTo i p k) = orders_ok k"
| "orders_ok (RotatePush b k) = orders_ok k"
| "orders_ok _ = True"

definition order_inv :: "('u, 'k, 'db) Sigil \<Rightarrow> bool" where
  "order_inv s \<longleftrightarrow> finite (dom (d_streams (sv_dist s))) \<and> has_order (sv_eng s) \<and> list_all orders_ok (sv_jobs s)"

lemma config_has_order: "NewFromBytes unmarshal body = Inr eng \<Longrightarrow> has_order eng"
  unfolding has_order_def using visits_ex by (auto simp: NewFromBytes_def split: sum.splits)

lemma orders_ok_send_all [simp]: "orders_ok (send_all ids p k) = orders_ok k"
  by (induction ids) simp_all

lemma handler_orders:
  "handle_service_event L env s evt = (s', j) \<Longrightarrow> orders_ok j"
  "handle_rotate L env s sid = (s', j) \<Longrightarrow> orders_ok j"
  "handle_enroll L env s cid = (s', j) \<Longrightarrow> orders_ok j"
  by (auto simp: handle_service_event_def handle_rotate_def handle_enroll_def Let_def
      split: if_splits sum.splits option.splits prod.splits)

lemma job_step_orders:
  assumes "job_step L env s j = (s', j')" and "orders_ok j" and "has_order (sv_eng s)"
  shows "orders_ok j' \<and> has_order (sv_eng s')"
  using assms
  by (induction L env s j rule: job_step.induct)
    (auto dest: handler_orders handler_sel issue_in_sel split: if_splits sum.splits option.splits prod.splits)

lemma job_step_registry:
  "job_step L env s j = (s', j') \<Longrightarrow> d_streams (sv_dist s') = d_streams (sv_dist s)"
  using job_step_dist(1) [of L env s j s' j'] by (cases j) simp_all

lemma loop_event_dom: "loop_event e \<Longrightarrow> dom (d_streams (dist_step d e)) \<subseteq> dom (d_streams d)"
  using loop_event_sel(1) [of e d] by blast

lemma order_inv_run:
  assumes "order_inv s" and "i < length (sv_jobs s)" and "job_step L env s (sv_jobs s ! i) = (s', j)"
  shows "order_inv (s'\<lparr>sv_jobs := (sv_jobs s)[i := j]\<rparr>)"
proof -
  have "orders_ok (sv_jobs s ! i)" using assms(1,2) by (simp add: order_inv_def list_all_length)
  from job_step_orders [OF assms(3) this] assms(1) show ?thesis
    by (auto simp: order_inv_def job_step_registry [OF assms(3)] list_all_iff
        dest: set_update_subset_insert [THEN subsetD])
qed

lemma order_inv_step:
  assumes "order_inv s" and "sv_step serial L unmarshal s s'"
  shows "order_inv s'"
  using assms(2)
proof (cases rule: sv_step.cases)
  case (agent hello i d)
  then show ?thesis using assms(1) subscribe_sel(3) [OF agent(2)] by (simp add: order_inv_def add_job_def)
next
  case (loop e)
  then show ?thesis using assms(1) loop_event_dom [OF loop(2)] by (auto simp: order_inv_def intro: finite_subset)
next
  case (config body eng)
  then show ?thesis using assms(1) config_has_order [OF config(2)] by (simp add: order_inv_def add_job_def)
next
  case (run i env s'' j)
  then show ?thesis using order_inv_run [OF assms(1) run(2,5)] by simp
qed (use assms(1) in \<open>simp_all add: order_inv_def add_job_def\<close>)

lemma sv_reach_orders: "sv_reach serial L unmarshal s \<Longrightarrow> order_inv s"
proof (induction rule: sv_reach.induct)
  case (start body eng ca)
  then show ?case using config_has_order by (simp add: order_inv_def sv_start_def d_new_def)
qed (rule order_inv_step)

lemma valid_env_ex:
  assumes "order_inv s"
  shows "\<exists>env :: 'k job_env. valid_env s env"
proof -
  obtain ks dord where "visits (sv_eng s) ks dord" using assms by (auto simp: order_inv_def has_order_def)
  moreover obtain ids where "iter_order (d_streams (sv_dist s)) ids"
    using assms iter_order_ex by (auto simp: order_inv_def)
  moreover obtain env :: "'k job_env" where "je_ks env = ks" "je_dord env = dord" "je_ids env = ids"
    by (meson job_env.select_convs)
  ultimately show ?thesis by (auto simp: valid_env_def connected_order_def)
qed

lemma run_work:
  assumes "order_inv s" and "i < length (sv_jobs s)" and "sv_jobs s ! i \<noteq> Done" and "valid_env s env"
    and "job_step L env s (sv_jobs s ! i) = (s', j)"
  shows "work_left (s'\<lparr>sv_jobs := (sv_jobs s)[i := j]\<rparr>) < work_left s"
proof -
  let ?w = "weight (agents s)"
  have n: "agents (s'\<lparr>sv_jobs := (sv_jobs s)[i := j]\<rparr>) = agents s"
    by (simp add: agents_def job_step_registry [OF assms(5)])
  have less: "?w j < ?w (sv_jobs s ! i)" by (rule job_step_weight [OF assms(5,3) valid_env_ids [OF assms(4)]])
  show ?thesis using sum_list_map_update [OF assms(2), of ?w j] less by (simp add: work_left_def n)
qed

section \<open>An example\<close>

definition ex_unmarshal :: "bytes \<Rightarrow> string + MeshConfig" where
  "ex_unmarshal b = Inr (ex_config ''enforce'' (b = ''open'') [\<lparr>from_service = ''alpha'', to_services = [''beta'']\<rparr>])"

definition ex_eng :: "bool \<Rightarrow> Engine" where
  "ex_eng d = newEngine (ex_config ''enforce'' d [\<lparr>from_service = ''alpha'', to_services = [''beta'']\<rparr>])"

lemma ex_from_bytes: "NewFromBytes ex_unmarshal b = Inr (ex_eng (b = ''open''))"
  by (simp add: NewFromBytes_def ex_unmarshal_def ex_eng_def)

lemma ex_visits: "visits (ex_eng d) [''alpha''] (\<lambda>f. [''beta''])"
  by (auto simp: ex_eng_def visits_def iter_order_def split: if_splits)

lemma ex_eng_sel [simp]: "clusterID (ex_eng d) = ''dev''" "defaultAllow (ex_eng d) = d"
  by (simp_all add: ex_eng_def ex_config_def)

definition ex_bundle_of :: "bool \<Rightarrow> PolicyBundle" where
  "ex_bundle_of d = engine_bundle (ex_eng d) [''alpha''] (\<lambda>f. [''beta''])"

lemma ex_bundle_default [simp]: "pb_default_allow (ex_bundle_of d) = d"
  by (simp add: ex_bundle_of_def engine_bundle_def bundle_of_def ex_eng_def)

lemma snapshot_default: "is_snapshot eng b \<Longrightarrow> pb_default_allow b = defaultAllow eng"
  by (auto simp: is_snapshot_def engine_bundle_def bundle_of_def)

definition ex_stream :: "(Payload \<times> bool) list \<Rightarrow> agentStream" where
  "ex_stream ps = \<lparr>as_nodeID = ''node'', as_send = \<lparr>ch_cap = SEND_CAP, ch_queue = map fst ps\<rparr>, as_cancelled = False,
     as_running = True, as_sent = [], as_offered = ps\<rparr>"

definition ex_dist :: "(Payload \<times> bool) list \<Rightarrow> Distributor" where
  "ex_dist ps = \<lparr>d_streams = [''node'' \<mapsto> 0], d_heap = [ex_stream ps]\<rparr>"

lemma ex_subscribe: "subscribe d_new ex_hello = Inr (0, ex_dist [])"
  by (simp add: subscribe_def d_new_def ex_hello_def ex_dist_def ex_stream_def mpsc_channel_def Let_def)

lemma ex_send: "length ps < SEND_CAP \<Longrightarrow> send (ex_dist ps) ''node'' p = ex_dist (ps @ [(p, True)])"
  by (simp add: send_def ex_dist_def offer_at_def ex_stream_def offer_def try_send_def)

lemma ex_dist_order: "iter_order (d_streams (ex_dist ps)) [''node'']"
  by (auto simp: ex_dist_def iter_order_def)

text \<open>One agent has connected: the policy waits to be pushed.\<close>

definition ex_sigil :: "bool \<Rightarrow> (Payload \<times> bool) list \<Rightarrow> Job list \<Rightarrow> (string, nat, cert_map) Sigil" where
  "ex_sigil open ps js = (sv_start (ex_eng open) ex_ca)\<lparr>sv_dist := ex_dist ps, sv_jobs := js\<rparr>"

lemma ex_sigil_sel [simp]:
  "sv_eng (ex_sigil op ps js) = ex_eng op" "sv_dist (ex_sigil op ps js) = ex_dist ps" "sv_jobs (ex_sigil op ps js) = js"
  "(ex_sigil op ps js)\<lparr>sv_jobs := js'\<rparr> = ex_sigil op ps js'"
  "(ex_sigil op ps js)\<lparr>sv_dist := ex_dist ps', sv_jobs := js'\<rparr> = ex_sigil op ps' js'"
  by (simp_all add: ex_sigil_def sv_start_def)

definition ex_job_env :: "bool \<Rightarrow> nat job_env" where
  "ex_job_env op = \<lparr>je_ks = [''alpha''], je_dord = (\<lambda>f. [''beta'']), je_ids = [''node''], je_issue = ex_env 1, je_now = 0\<rparr>"

lemma ex_valid: "valid_env (ex_sigil op ps js) (ex_job_env op)"
  using ex_visits ex_dist_order by (simp add: valid_env_def ex_job_env_def connected_order_def)

lemma ex_connected:
  "sv_reach serial ex_ca_lib ex_unmarshal
    (ex_sigil op [] [SendTo ''node'' (PolicyPush (ex_bundle_of op)) (ConnectIssue ex_hello [])])"
proof -
  let ?s = "sv_start (ex_eng op) ex_ca"
  have start: "sv_reach serial ex_ca_lib ex_unmarshal ?s"
    using sv_reach.start [OF ex_from_bytes, of serial ex_ca_lib "if op then ''open'' else ''closed''" ex_ca] by (cases op) simp_all
  have sub: "subscribe (sv_dist ?s) ex_hello = Inr (0, ex_dist [])" by (simp add: sv_start_def ex_subscribe)
  have v: "visits (sv_eng ?s) [''alpha''] (\<lambda>f. [''beta''])" by (simp add: sv_start_def ex_visits)
  from run_connect [OF start sub v ex_dist_order]
  show ?thesis by (simp add: add_job_def sv_start_def ex_sigil_def ex_bundle_of_def ex_hello_def)
qed

lemma ex_pushed:
  assumes "sv_reach serial ex_ca_lib ex_unmarshal (ex_sigil op ps js)" and "i < length js"
    and "js ! i = SendTo ''node'' p k" and "length ps < SEND_CAP"
  shows "sv_reach serial ex_ca_lib ex_unmarshal (ex_sigil op (ps @ [(p, True)]) (js[i := k]))"
  using run_send [OF assms(1) _ _ ex_valid, of i "''node''" p k] assms(2,3) by (simp add: ex_send [OF assms(4)])

lemma ex_done:
  assumes "sv_reach serial ex_ca_lib ex_unmarshal (ex_sigil op ps js)" and "i < length js" and "js ! i = ConnectIssue ex_hello []"
  shows "sv_reach serial ex_ca_lib ex_unmarshal (ex_sigil op ps (js[i := Done]))"
  using run_job [OF assms(1) _ ex_valid, of i "ex_sigil op ps js" Done] assms(2,3) by simp

lemma newest_ex: "newest (ex_stream (ps @ [(PolicyPush b, True)])) = Some (b, True)"
  by (simp add: newest_def ex_stream_def)

section \<open>Properties\<close>

text \<open>
  C5. The control plane converges. In every reachable state of the server, over all interleavings of
  connecting agents, reloads, pod events, rotations and the loops of the streams, a registered
  stream that no job will push a policy to was offered the policy of the engine in force last; when
  its channel had room, that policy is the last one among what the stream sent and still holds.
  This needs that the engine is never swapped while a job holds data read from the old one.
\<close>

theorem control_plane_converges:
  assumes "sv_reach True L unmarshal s" and "d_streams (sv_dist s) n = Some i"
    and "\<not> list_ex (will_push i n) (sv_jobs s)"
  shows "\<exists>b ok. newest (d_heap (sv_dist s) ! i) = Some (b, ok) \<and> is_snapshot (sv_eng s) b
    \<and> (ok \<longrightarrow> last_policy (as_sent (d_heap (sv_dist s) ! i) @ ch_queue (as_send (d_heap (sv_dist s) ! i))) = Some b)"
proof -
  note inv = sv_reach_inv [OF assms(1)]
  obtain b ok where b: "newest (d_heap (sv_dist s) ! i) = Some (b, ok)" "is_snapshot (sv_eng s) b"
    using sv_invD(3) [OF inv assms(2)] assms(3) unfolding covered_def fresh_stream_def by blast
  have "running (sv_dist s) i" using dist_inv_registered [OF sv_invD(1) [OF inv] assms(2)] by blast
  then have "in_transit (d_heap (sv_dist s) ! i) = accepted (d_heap (sv_dist s) ! i)"
    using dist_inv_stream [OF sv_invD(1) [OF inv], of i] by (simp add: running_def stream_inv_def)
  then have "ok \<longrightarrow> last_policy (as_sent (d_heap (sv_dist s) ! i) @ ch_queue (as_send (d_heap (sv_dist s) ! i))) = Some b"
    using newest_last [of "d_heap (sv_dist s) ! i" b] b(1) by (simp add: in_transit_def)
  with b show ?thesis by blast
qed

theorem control_plane_converges_witness:
  "\<exists>b ok. newest (ex_stream [(PolicyPush (ex_bundle_of False), True)]) = Some (b, ok) \<and> is_snapshot (ex_eng False) b"
proof -
  let ?s = "ex_sigil False [(PolicyPush (ex_bundle_of False), True)] [Done]"
  have "sv_reach True ex_ca_lib ex_unmarshal (ex_sigil False [(PolicyPush (ex_bundle_of False), True)] [ConnectIssue ex_hello []])"
    using ex_pushed [OF ex_connected, where i = 0] by (simp add: SEND_CAP_def)
  from ex_done [OF this, of 0] have reach: "sv_reach True ex_ca_lib ex_unmarshal ?s" by simp
  have "d_streams (sv_dist ?s) ''node'' = Some 0" and "\<not> list_ex (will_push 0 ''node'') (sv_jobs ?s)"
    and "d_heap (sv_dist ?s) ! 0 = ex_stream [(PolicyPush (ex_bundle_of False), True)]"
    by (simp_all add: ex_dist_def)
  from control_plane_converges [OF reach this(1,2)] this(3) show ?thesis by auto
qed

text \<open>
  C6. The condition is needed, and the code does not enforce it: an agent that connects while the
  policy is reloaded can keep the old policy for good. There is a run of the server in which every
  goroutine has finished, nothing was dropped, and the last policy offered to the registered stream
  of the agent permits by default while the engine in force denies.
\<close>

theorem stale_policy_race:
  "\<exists>s b. sv_reach False ex_ca_lib ex_unmarshal s \<and> list_all (\<lambda>j. j = Done) (sv_jobs s)
     \<and> d_streams (sv_dist s) ''node'' = Some 0 \<and> newest (d_heap (sv_dist s) ! 0) = Some (b, True)
     \<and> pb_default_allow b \<and> \<not> defaultAllow (sv_eng s) \<and> \<not> is_snapshot (sv_eng s) b"
proof -
  let ?old = "PolicyPush (ex_bundle_of True)" and ?new = "PolicyPush (ex_bundle_of False)"
  let ?connect = "SendTo ''node'' ?old (ConnectIssue ex_hello [])"
  have new: "NewFromBytes ex_unmarshal ''closed'' = Inr (ex_eng False)" by (simp add: ex_from_bytes)
  have "sv_reach False ex_ca_lib ex_unmarshal (ex_sigil False [] [?connect, SendTo ''node'' ?new (Respond Accepted)])"
    using run_reload [OF ex_connected [of False True] new _ ex_visits, of "[''alpha'']" "\<lambda>f. [''beta'']" "[''node'']"]
      ex_visits [of True] ex_dist_order [of "[]"]
    by (simp add: ex_sigil_def sv_start_def add_job_def ex_bundle_of_def)
  from ex_pushed [OF this, of 1]
  have "sv_reach False ex_ca_lib ex_unmarshal (ex_sigil False [(?new, True)] [?connect, Respond Accepted])"
    by (simp add: SEND_CAP_def)
  from ex_pushed [OF this, of 0]
  have "sv_reach False ex_ca_lib ex_unmarshal (ex_sigil False [(?new, True), (?old, True)] [ConnectIssue ex_hello [], Respond Accepted])"
    by (simp add: SEND_CAP_def)
  from ex_done [OF this, of 0]
  have reach: "sv_reach False ex_ca_lib ex_unmarshal (ex_sigil False [(?new, True), (?old, True)] [Done, Respond Accepted])" by simp
  let ?s = "(ex_sigil False [(?new, True), (?old, True)] [Done, Done])\<lparr>sv_replies := [Accepted]\<rparr>"
  have reach: "sv_reach False ex_ca_lib ex_unmarshal ?s"
    using run_job [OF reach _ ex_valid, of 1 "(ex_sigil False [(?new, True), (?old, True)] [Done, Respond Accepted])\<lparr>sv_replies := [Accepted]\<rparr>" Done]
    by (simp add: ex_sigil_def sv_start_def)
  have "newest (ex_stream ([(?new, True)] @ [(?old, True)])) = Some (ex_bundle_of True, True)" by (rule newest_ex)
  moreover have "\<not> is_snapshot (ex_eng False) (ex_bundle_of True)"
    using snapshot_default [of "ex_eng False" "ex_bundle_of True"] by auto
  ultimately show ?thesis
    by (intro exI [of _ ?s] exI [of _ "ex_bundle_of True"] conjI reach) (simp_all add: ex_dist_def)
qed



lemma send_sel:
  "d_streams (send d n p) = d_streams d"
  "length (d_heap (send d n p)) = length (d_heap d)"
  by (simp_all add: send_def split: option.split)

lemma send_offered:
  "a < length (d_heap d) \<Longrightarrow> set (as_offered (d_heap d ! a)) \<subseteq> set (as_offered (d_heap (send d n p) ! a))"
  "d_streams d n = Some a \<Longrightarrow> a < length (d_heap d) \<Longrightarrow> \<exists>ok. (p, ok) \<in> set (as_offered (d_heap (send d n p) ! a))"
proof -
  show "a < length (d_heap d) \<Longrightarrow> set (as_offered (d_heap d ! a)) \<subseteq> set (as_offered (d_heap (send d n p) ! a))"
    by (auto simp: send_def offer_at_def nth_update_in offer_history split: option.split)
  show "d_streams d n = Some a \<Longrightarrow> a < length (d_heap d) \<Longrightarrow> \<exists>ok. (p, ok) \<in> set (as_offered (d_heap (send d n p) ! a))"
    by (auto simp: send_def offer_at_def offer_history)
qed

lemma foldl_send:
  assumes "n \<in> set ids" and "d_streams d n = Some a" and "a < length (d_heap d)"
  shows "\<exists>ok. (p, ok) \<in> set (as_offered (d_heap (foldl (\<lambda>d n. send d n p) d ids) ! a))"
proof -
  have keep: "a < length (d_heap d) \<Longrightarrow>
      set (as_offered (d_heap d ! a)) \<subseteq> set (as_offered (d_heap (foldl (\<lambda>d n. send d n p) d ids) ! a))" for ids d
  proof (induction ids arbitrary: d)
    case (Cons m ids)
    have "a < length (d_heap (send d m p))" using Cons.prems by (simp add: send_sel)
    from order_trans [OF send_offered(1) [OF Cons.prems] Cons.IH [OF this]] show ?case by simp
  qed simp
  show ?thesis
    using assms
  proof (induction ids arbitrary: d)
    case (Cons m ids)
    show ?case
    proof (cases "n = m")
      case True
      then obtain ok where "(p, ok) \<in> set (as_offered (d_heap (send d m p) ! a))"
        using send_offered(2) [of d m a p] Cons.prems by blast
      then show ?thesis using keep [of "send d m p" ids] Cons.prems(3) by (auto simp: send_sel)
    next
      case False
      then show ?thesis using Cons.IH [of "send d m p"] Cons.prems by (simp add: send_sel)
    qed
  qed simp
qed


definition ex_row :: CertRow where
  "ex_row = row_of_issued (ex_issued 1 ''sigil'')"

lemma ex_listed: "ListCerts ex_ca_lib (ex_ca_with (ex_put fmempty 1 ''sigil'')) =
    Inr [issued_of_row (ex_ca_with (ex_put fmempty 1 ''sigil'')) ex_row]"
proof -
  have "fm_content (ex_put fmempty 1 ''sigil'') = put_row (fm_content fmempty) ex_row"
    using fm_content_replace [OF ex_put] by (simp add: ex_row_def)
  also have "\<dots> = [''sigil'' \<mapsto> ex_row]" by (rule ext) (simp add: put_row_def fm_content_def ex_row_def ex_issued_def)
  finally have "fm_rows (ex_put fmempty 1 ''sigil'') = Inr [ex_row]" by (simp add: fm_rows_def)
  then show ?thesis by (simp add: ListCerts_def)
qed


text \<open>
  C28. A deleted pod keeps its certificate: when a pod disappears the registry only knows the name of the
  pod and revokes the certificate of a service of that name, so the certificate of the pod's service
  stays listed, unless some service happens to be called like the pod; then that one is revoked.
\<close>

theorem deleted_pod_keeps_certificate:
  assumes "cert_table L content" and "Reconcile cl ns pod PodNotFound = Inr (Some evt)"
    and "handle_service_event L env s evt = (s', j)" and "content (ca_db (sv_ca s)) svc = Some r"
  shows "j = Done \<and> sv_dist s' = sv_dist s \<and> (svc \<noteq> pod \<longrightarrow> content (ca_db (sv_ca s')) svc = Some r)
    \<and> (svc = pod \<longrightarrow> content (ca_db (sv_ca s')) svc = (case Revoke L (sv_ca s) pod of Inl e \<Rightarrow> Some r | Inr ca \<Rightarrow> None))"
proof -
  have evt: "se_deleted evt" "se_service_id evt = pod" using assms(2) by (auto simp: Reconcile_def)
  show ?thesis
    using assms(3,4) cert_table.revoke_content [OF assms(1), of "sv_ca s" pod]
    by (cases "Revoke L (sv_ca s) pod") (auto simp: handle_service_event_def evt)
qed

theorem deleted_pod_keeps_certificate_witness:
  "\<exists>s' r. fst (handle_service_event ex_ca_lib (ex_job_env False)
       ((sv_start (ex_eng False) (ex_ca_with (ex_put fmempty 1 ''alpha''))))
       \<lparr>se_service_id = ''alpha-7d9f'', se_node_name = [], se_namespace = ''default'', se_cluster_id = ''dev'', se_deleted = True\<rparr>) = s'
     \<and> fm_content (ca_db (sv_ca s')) ''alpha'' = Some r"
proof -
  let ?s = "sv_start (ex_eng False) (ex_ca_with (ex_put fmempty 1 ''alpha''))"
  let ?evt = "\<lparr>se_service_id = ''alpha-7d9f'', se_node_name = [], se_namespace = ''default'', se_cluster_id = ''dev'', se_deleted = True\<rparr>"
  have rec: "Reconcile ''dev'' ''default'' ''alpha-7d9f'' PodNotFound = Inr (Some ?evt)" by (simp add: Reconcile_def)
  obtain s' j where h: "handle_service_event ex_ca_lib (ex_job_env False) ?s ?evt = (s', j)"
    by (cases "handle_service_event ex_ca_lib (ex_job_env False) ?s ?evt")
  have row: "fm_content (ca_db (sv_ca ?s)) ''alpha'' = Some (row_of_issued (ex_issued 1 ''alpha''))"
    using fm_content_replace [OF ex_put, of fmempty 1 "''alpha''"] by (simp add: sv_start_def put_row_def ex_issued_def)
  from deleted_pod_keeps_certificate [OF fm.cert_table_axioms rec h row] h show ?thesis by auto
qed

end
