(* ===== verification/Mesh_System.thy ===== *)
theory Mesh_System
  imports Agent Sigil_Flow
begin

text \<open>
  The control plane and one agent together. The server is \<open>Sigil_Server\<close>, with any number of other
  agents; the agent is \<open>Agent\<close>; between them is the gRPC stream the agent reads, that is, the address
  of a stream object of the distributor and the number of its pushes the agent has received. What
  the agent receives is what that stream sent, in order; attempts to connect subscribe at the
  server, also when the answer is lost, and an agent that leaves its stream never sees the rest.
\<close>

record ('u, 'k, 'db, 'm, 'a) Mesh =
  me_srv :: "('u, 'k, 'db) Sigil"
  me_agent :: "('m, 'a) Agent"
  me_link :: "(nat \<times> nat) option"

definition sent_on :: "('u, 'k, 'db) Sigil \<Rightarrow> nat \<Rightarrow> Payload list" where
  "sent_on s i = as_sent (d_heap (sv_dist s) ! i)"

fun reads_stream :: "State \<Rightarrow> bool" where
  "reads_stream BootstrapStream = True"
| "reads_stream ConnectedStream = True"
| "reads_stream Bootstrap = False"
| "reads_stream UpgradingTLS = False"
| "reads_stream ConnectedTLS = False"

fun attempt_hello :: "SigilEvent \<Rightarrow> string list option" where
  "attempt_hello (BootAttempt keys connected subscribed) = Some keys"
| "attempt_hello (TlsAttempt ks keys subscribed) = Some keys"
| "attempt_hello (Message p) = None"
| "attempt_hello StreamEnd = None"

text \<open>The agent's part of a step of its Sigil client, as in \<open>agent_env\<close>.\<close>

definition client_moves ::
  "('c, 'kk, 'r, 'v, 'cc, 'sc) tls_lib \<Rightarrow> (string \<Rightarrow> bytes \<Rightarrow> bytes \<Rightarrow> bytes \<Rightarrow> io_error + 'chan) \<Rightarrow>
   SigilClient \<Rightarrow> SigilEvent \<Rightarrow> ('m, 'a) Agent \<Rightarrow> ('m, 'a) Agent \<Rightarrow> bool" where
  "client_moves T endpoint c ev s s' \<longleftrightarrow> \<not> ag_sigil_sends s \<and>
     (\<exists>sg effs. sigil_step T endpoint c (ag_sigil s) ev = Some (sg, effs)
        \<and> s' = s\<lparr>ag_sigil := sg, ag_sigil_sends := (Notify \<in> set effs)\<rparr>)"

inductive mesh_step ::
  "('u, 'k, 'db) ca_lib \<Rightarrow> (bytes \<Rightarrow> string + MeshConfig) \<Rightarrow>
   ('c, 'kk, 'r, 'v, 'cc, 'sc) tls_lib \<Rightarrow> (string \<Rightarrow> bytes \<Rightarrow> bytes \<Rightarrow> bytes \<Rightarrow> io_error + 'chan) \<Rightarrow>
   SigilClient \<Rightarrow> endian \<Rightarrow> ('m, 'a) bpf_ops \<Rightarrow> ('u, 'k, 'db, 'm, 'a) Mesh \<Rightarrow> ('u, 'k, 'db, 'm, 'a) Mesh \<Rightarrow> bool"
  for L unmarshal T endpoint c e B where
  server: "sv_step True L unmarshal (me_srv m) srv \<Longrightarrow>
    mesh_step L unmarshal T endpoint c e B m (m\<lparr>me_srv := srv\<rparr>)"
| watch: "\<not> ag_watch_sends (me_agent m) \<Longrightarrow> watch_step (ag_pods (me_agent m)) it = (snap, evs) \<Longrightarrow>
    mesh_step L unmarshal T endpoint c e B m
      (m\<lparr>me_agent := (me_agent m)\<lparr>ag_pods := snap, ag_watch_sends := (evs \<noteq> []),
         ag_relist := (it = Init \<or> ag_relist (me_agent m) \<and> it \<noteq> InitDone)\<rparr>\<rparr>)"
| task: "agent_task e B (me_agent m) ag \<Longrightarrow>
    mesh_step L unmarshal T endpoint c e B m (m\<lparr>me_agent := ag\<rparr>)"
| subscribed: "attempt_hello ev = Some keys \<Longrightarrow> client_moves T endpoint c ev (me_agent m) ag \<Longrightarrow>
    subscribe (sv_dist (me_srv m)) (make_hello c keys) = Inr (i, d) \<Longrightarrow>
    mesh_step L unmarshal T endpoint c e B m
      (m\<lparr>me_agent := ag, me_srv := add_job ((me_srv m)\<lparr>sv_dist := d\<rparr>) (ConnectRules (make_hello c keys)),
         me_link := (if reads_stream (sg_state (ag_sigil ag)) then Some (i, 0) else None)\<rparr>)"
| failed: "attempt_hello ev = Some keys \<Longrightarrow> client_moves T endpoint c ev (me_agent m) ag \<Longrightarrow>
    \<not> reads_stream (sg_state (ag_sigil ag)) \<Longrightarrow>
    mesh_step L unmarshal T endpoint c e B m (m\<lparr>me_agent := ag, me_link := None\<rparr>)"
| message: "me_link m = Some (i, k) \<Longrightarrow> k < length (sent_on (me_srv m) i) \<Longrightarrow>
    client_moves T endpoint c (Message (Some (sent_on (me_srv m) i ! k))) (me_agent m) ag \<Longrightarrow>
    mesh_step L unmarshal T endpoint c e B m
      (m\<lparr>me_agent := ag, me_link := (if reads_stream (sg_state (ag_sigil ag)) then Some (i, Suc k) else None)\<rparr>)"
| stream_end: "client_moves T endpoint c StreamEnd (me_agent m) ag \<Longrightarrow>
    mesh_step L unmarshal T endpoint c e B m (m\<lparr>me_agent := ag, me_link := None\<rparr>)"

inductive mesh_reach ::
  "('u, 'k, 'db) ca_lib \<Rightarrow> (bytes \<Rightarrow> string + MeshConfig) \<Rightarrow>
   ('c, 'kk, 'r, 'v, 'cc, 'sc) tls_lib \<Rightarrow> (string \<Rightarrow> bytes \<Rightarrow> bytes \<Rightarrow> bytes \<Rightarrow> io_error + 'chan) \<Rightarrow>
   SigilClient \<Rightarrow> endian \<Rightarrow> ('m, 'a) bpf_ops \<Rightarrow> ('u, 'k, 'db, 'm, 'a) Mesh \<Rightarrow> bool"
  for L unmarshal T endpoint c e B where
  start: "NewFromBytes unmarshal body = Inr eng \<Longrightarrow> hm_get B mp = Map.empty \<Longrightarrow> agent_start B mp a = Inr s \<Longrightarrow>
    mesh_reach L unmarshal T endpoint c e B \<lparr>me_srv = sv_start eng ca, me_agent = s, me_link = None\<rparr>"
| step: "mesh_reach L unmarshal T endpoint c e B m \<Longrightarrow> mesh_step L unmarshal T endpoint c e B m m' \<Longrightarrow>
    mesh_reach L unmarshal T endpoint c e B m'"

section \<open>The parts of a reachable mesh are reachable\<close>

lemma client_moves_env: "client_moves T endpoint c ev s s' \<Longrightarrow> agent_env T endpoint c s s'"
  by (auto simp: client_moves_def intro: agent_env.sigil)

lemma mesh_agent_reach: "mesh_reach L unmarshal T endpoint c e B m \<Longrightarrow> agent_reach T endpoint c e B (me_agent m)"
proof (induction rule: mesh_reach.induct)
  case (start body eng mp a s ca)
  then show ?case by (simp add: agent_reach.start)
next
  case (step m m')
  show ?case using step(2)
  proof (cases rule: mesh_step.cases)
    case (watch it snap evs)
    then show ?thesis using agent_reach.env [OF step(3) agent_env.watch] by simp
  next
    case (task ag)
    then show ?thesis using agent_reach.task [OF step(3)] by simp
  qed (use step(3) agent_reach.env client_moves_env in \<open>fastforce+\<close>)
qed

lemma mesh_server_reach: "mesh_reach L unmarshal T endpoint c e B m \<Longrightarrow> sv_reach True L unmarshal (me_srv m)"
proof (induction rule: mesh_reach.induct)
  case (step m m')
  show ?case using step(2)
  proof (cases rule: mesh_step.cases)
    case (server srv)
    then show ?thesis using sv_reach.step [OF step(3)] by simp
  next
    case (subscribed ev keys ag i d)
    then show ?thesis using sv_reach.step [OF step(3) sv_step.agent] by simp
  qed (simp_all add: step(3))
qed (simp add: sv_reach.start)
section \<open>What the agent has received\<close>

text \<open>Streams are only added, and what they sent only grows.\<close>

lemma sv_step_sent:
  assumes "sv_step serial L unmarshal s s'" and "i < length (d_heap (sv_dist s))"
  shows "i < length (d_heap (sv_dist s')) \<and> prefix (sent_on s i) (sent_on s' i)"
  using assms(1)
proof (cases rule: sv_step.cases)
  case (agent hello k d)
  then show ?thesis
    using subscribe_sel(1,2) [OF agent(2)] subscribe_sel(4) [OF agent(2), of i] assms(2) by (simp add: sent_on_def add_job_def)
next
  case (loop e)
  then show ?thesis
    using loop_event_sel(2) [OF loop(2), of "sv_dist s"] loop_event_sel(3) [OF loop(2) assms(2)] assms(2)
    by (simp add: sent_on_def)
next
  case (run k env s'' j)
  have "length (d_heap (sv_dist s'')) = length (d_heap (sv_dist s)) \<and> sent_on s'' i = sent_on s i"
    using job_step_dist(1) [OF run(5)] assms(2)
    by (cases "sv_jobs s ! k") (simp_all add: sent_on_def offer_at_def nth_update_in)
  then show ?thesis unfolding run(1) using assms(2) by (simp add: sent_on_def)
qed (use assms(2) in \<open>simp_all add: sent_on_def add_job_def\<close>)

text \<open>The agent holds the last policy among the pushes it has received on its stream.\<close>

definition link_inv :: "('u, 'k, 'db, 'm, 'a) Mesh \<Rightarrow> bool" where
  "link_inv m \<longleftrightarrow> (\<forall>i k. me_link m = Some (i, k) \<longrightarrow>
     i < length (d_heap (sv_dist (me_srv m))) \<and> k \<le> length (sent_on (me_srv m) i)
     \<and> (\<forall>b. last_policy (take k (sent_on (me_srv m) i)) = Some b \<longrightarrow>
          sg_policy (ag_sigil (me_agent m)) = apply_policy_bundle b pc_new))"

lemma apply_bundle_fresh: "apply_policy_bundle b c = apply_policy_bundle b pc_new"
  by (simp add: apply_policy_bundle_def pc_update_last)

lemma prefix_take: "prefix xs ys \<Longrightarrow> k \<le> length xs \<Longrightarrow> take k ys = take k xs"
  by (auto simp: prefix_def)

lemma message_policy:
  assumes "client_moves T endpoint c (Message (Some p)) s s'"
  shows "sg_policy (ag_sigil s') = sg_policy (on_push (ag_sigil s) p)"
  using assms
  by (auto simp: client_moves_def sigil_step_def split: State.splits Payload.splits)

lemma link_inv_step:
  assumes inv: "link_inv m" and st: "mesh_step L unmarshal T endpoint c e B m m'"
  shows "link_inv m'"
  using st
proof (cases rule: mesh_step.cases)
  case (server srv)
  show ?thesis
    unfolding link_inv_def
  proof (intro allI impI)
    fix i k
    assume "me_link m' = Some (i, k)"
    then have ik: "me_link m = Some (i, k)" using server by simp
    have old: "i < length (d_heap (sv_dist (me_srv m)))" "k \<le> length (sent_on (me_srv m) i)"
      "\<forall>b. last_policy (take k (sent_on (me_srv m) i)) = Some b \<longrightarrow>
          sg_policy (ag_sigil (me_agent m)) = apply_policy_bundle b pc_new"
      using inv ik by (auto simp: link_inv_def)
    have new: "i < length (d_heap (sv_dist srv))" "prefix (sent_on (me_srv m) i) (sent_on srv i)"
      using sv_step_sent [OF server(2) old(1)] by blast+
    show "i < length (d_heap (sv_dist (me_srv m'))) \<and> k \<le> length (sent_on (me_srv m') i)
     \<and> (\<forall>b. last_policy (take k (sent_on (me_srv m') i)) = Some b \<longrightarrow>
          sg_policy (ag_sigil (me_agent m')) = apply_policy_bundle b pc_new)"
      using new old prefix_take [OF new(2) old(2)] prefix_length_le [OF new(2)] server by auto
  qed
next
  case (watch it snap evs)
  then show ?thesis using inv by (simp add: link_inv_def)
next
  case (task ag)
  have "ag_sigil ag = ag_sigil (me_agent m) \<or> sg_policy (ag_sigil ag) = sg_policy (ag_sigil (me_agent m))"
    using task(2) by (cases rule: agent_task.cases) simp_all
  then show ?thesis using inv task by (auto simp: link_inv_def)
next
  case (subscribed ev keys ag i d)
  then show ?thesis
    using subscribe_sel(1,2) [OF subscribed(4)] by (auto simp: link_inv_def sent_on_def add_job_def)
next
  case (message i k ag)
  show ?thesis
    unfolding link_inv_def
  proof (intro allI impI)
    fix j l
    assume "me_link m' = Some (j, l)"
    then have jl: "j = i" "l = Suc k" using message by (auto split: if_splits)
    let ?p = "sent_on (me_srv m) i ! k"
    have take: "take l (sent_on (me_srv m) i) = take k (sent_on (me_srv m) i) @ [?p]"
      using message(3) by (simp add: jl take_Suc_conv_app_nth)
    have old: "i < length (d_heap (sv_dist (me_srv m)))"
      "last_policy (take k (sent_on (me_srv m) i)) = Some b \<Longrightarrow>
          sg_policy (ag_sigil (me_agent m)) = apply_policy_bundle b pc_new" for b
      using inv message(2) by (auto simp: link_inv_def)
    have "sg_policy (ag_sigil ag) = apply_policy_bundle b pc_new"
      if "last_policy (take l (sent_on (me_srv m) i)) = Some b" for b
      using that old(2) [of b] message_policy [OF message(4)] apply_bundle_fresh
      unfolding take by (cases ?p) simp_all
    then show "j < length (d_heap (sv_dist (me_srv m'))) \<and> l \<le> length (sent_on (me_srv m') j)
     \<and> (\<forall>b. last_policy (take l (sent_on (me_srv m') j)) = Some b \<longrightarrow>
          sg_policy (ag_sigil (me_agent m')) = apply_policy_bundle b pc_new)"
      using old(1) message(1,3) jl by simp
  qed
qed (simp_all add: link_inv_def)

lemma mesh_link_inv: "mesh_reach L unmarshal T endpoint c e B m \<Longrightarrow> link_inv m"
  by (induction rule: mesh_reach.induct) (simp add: link_inv_def, rule link_inv_step)

text \<open>
  An agent that has received everything its registered stream was offered, with no push on the way
  and none refused, holds the policy of the engine in force.
\<close>

definition caught_up :: "SigilClient \<Rightarrow> ('u, 'k, 'db, 'm, 'a) Mesh \<Rightarrow> nat \<Rightarrow> bool" where
  "caught_up c m i \<longleftrightarrow>
     (let s = me_srv m; as = d_heap (sv_dist s) ! i in
      me_link m = Some (i, length (as_sent as)) \<and> d_streams (sv_dist s) (node_id c) = Some i
      \<and> \<not> list_ex (will_push i (node_id c)) (sv_jobs s) \<and> ch_queue (as_send as) = [] \<and> list_all snd (as_offered as))"

lemma caught_up_policy:
  assumes reach: "mesh_reach L unmarshal T endpoint c e B m" and up: "caught_up c m i"
  shows "\<exists>b. is_snapshot (sv_eng (me_srv m)) b \<and> sg_policy (ag_sigil (me_agent m)) = apply_policy_bundle b pc_new"
proof -
  let ?s = "me_srv m"
  let ?as = "d_heap (sv_dist ?s) ! i"
  note srv = mesh_server_reach [OF reach]
  note inv = sv_reach_inv [OF srv]
  have link: "me_link m = Some (i, length (as_sent ?as))" and reg: "d_streams (sv_dist ?s) (node_id c) = Some i"
    and quiet: "\<not> list_ex (will_push i (node_id c)) (sv_jobs ?s)" and empty: "ch_queue (as_send ?as) = []"
    and all: "list_all snd (as_offered ?as)"
    using up by (simp_all add: caught_up_def Let_def)
  obtain b ok where b: "newest ?as = Some (b, ok)" "is_snapshot (sv_eng ?s) b"
    using sv_invD(3) [OF inv reg] quiet unfolding covered_def fresh_stream_def by blast
  have ok: "ok" using newest_accepted [OF b(1) all] .
  have "running (sv_dist ?s) i" using dist_inv_registered [OF sv_invD(1) [OF inv] reg] by blast
  then have "as_sent ?as = accepted ?as"
    using dist_inv_stream [OF sv_invD(1) [OF inv], of i] empty by (simp add: running_def stream_inv_def in_transit_def)
  then have "last_policy (sent_on ?s i) = Some b" using newest_last [of ?as b] b(1) ok by (simp add: sent_on_def)
  then have "sg_policy (ag_sigil (me_agent m)) = apply_policy_bundle b pc_new"
    using mesh_link_inv [OF reach] link by (simp add: link_inv_def sent_on_def)
  with b(2) show ?thesis by blast
qed

section \<open>Runs of the mesh\<close>

lemma mesh_tasks:
  "(agent_task e B)\<^sup>*\<^sup>* s s' \<Longrightarrow> me_agent m = s \<Longrightarrow> mesh_reach L unmarshal T endpoint c e B m \<Longrightarrow>
    mesh_reach L unmarshal T endpoint c e B (m\<lparr>me_agent := s'\<rparr>)"
proof (induction rule: rtranclp_induct)
  case base
  have "m\<lparr>me_agent := s\<rparr> = m" using base(1) by (cases m) simp
  with base(2) show ?case by simp
next
  case (step y z)
  then have "mesh_reach L unmarshal T endpoint c e B (m\<lparr>me_agent := y\<rparr>)" by blast
  from mesh_reach.step [OF this mesh_step.task [of e B _ z]] step(2) show ?case by simp
qed

text \<open>What the agent has, apart from what is on its way inside it.\<close>

definition idle_with :: "('m, 'a) Agent \<Rightarrow> SigilState \<Rightarrow> PodSnapshot \<Rightarrow> bool" where
  "idle_with s sg pods \<longleftrightarrow> settled s \<and> \<not> ag_relist s \<and> ag_sigil s = sg \<and> ag_pods s = pods"

context bpf_maps
begin

lemma mesh_settles:
  assumes "mesh_reach L unmarshal T endpoint c e B m" and "\<not> ag_relist (me_agent m)"
    and "ag_sigil (me_agent m) = sg" and "ag_pods (me_agent m) = pods"
  shows "\<exists>s. mesh_reach L unmarshal T endpoint c e B \<lparr>me_srv = me_srv m, me_agent = s, me_link = me_link m\<rparr>
    \<and> idle_with s sg pods"
proof -
  have "chan_inv (me_agent m)" using reach_inv [OF mesh_agent_reach [OF assms(1)]] by blast
  then obtain s where s: "(agent_task e B)\<^sup>*\<^sup>* (me_agent m) s" "settled s" using settles by blast
  have "m\<lparr>me_agent := s\<rparr> = \<lparr>me_srv = me_srv m, me_agent = s, me_link = me_link m\<rparr>" by (cases m) simp
  with mesh_tasks [OF s(1) refl assms(1)]
  have "mesh_reach L unmarshal T endpoint c e B \<lparr>me_srv = me_srv m, me_agent = s, me_link = me_link m\<rparr>" by (simp only:)
  moreover have "idle_with s sg pods" using tasks_data [OF s(1)] s(2) assms(2-4) by (simp add: idle_with_def)
  ultimately show ?thesis by blast
qed

lemma mesh_starts:
  assumes "NewFromBytes unmarshal body = Inr eng" and "hm_get B mp = Map.empty"
  shows "\<exists>s. mesh_reach L unmarshal T endpoint c e B \<lparr>me_srv = sv_start eng ca, me_agent = s, me_link = None\<rparr>
    \<and> idle_with s sg_init Map.empty"
proof -
  obtain a' where "ar_set B a 0 1 = Inr a'" using flag_set by blast
  then have "\<exists>s. agent_start B mp a = Inr s \<and> idle_with s sg_init Map.empty"
    by (simp add: agent_start_def settled_def idle_with_def)
  then show ?thesis using mesh_reach.start [OF assms] by blast
qed

lemma mesh_watches:
  assumes "mesh_reach L unmarshal T endpoint c e B m" and "idle_with (me_agent m) sg pods" and "it \<noteq> Init"
  shows "\<exists>s. mesh_reach L unmarshal T endpoint c e B \<lparr>me_srv = me_srv m, me_agent = s, me_link = me_link m\<rparr>
    \<and> idle_with s sg (fst (watch_step pods it))"
proof -
  obtain snap evs where st: "watch_step (ag_pods (me_agent m)) it = (snap, evs)"
    by (cases "watch_step (ag_pods (me_agent m)) it")
  have idle: "\<not> ag_watch_sends (me_agent m)" using assms(2) by (simp add: idle_with_def settled_def)
  let ?m = "m\<lparr>me_agent := (me_agent m)\<lparr>ag_pods := snap, ag_watch_sends := (evs \<noteq> []),
     ag_relist := (it = Init \<or> ag_relist (me_agent m) \<and> it \<noteq> InitDone)\<rparr>\<rparr>"
  have "mesh_reach L unmarshal T endpoint c e B ?m"
    by (rule mesh_reach.step [OF assms(1) mesh_step.watch [OF idle st]])
  from mesh_settles [OF this] assms(2,3) st show ?thesis by (simp add: idle_with_def)
qed

text \<open>The agent connects and its subscription reaches the server.\<close>

lemma mesh_subscribes:
  assumes "mesh_reach L unmarshal T endpoint c e B m" and "idle_with (me_agent m) sg pods"
    and "attempt_hello ev = Some keys" and "sigil_step T endpoint c sg ev = Some (sg', effs)"
    and "subscribe (sv_dist (me_srv m)) (make_hello c keys) = Inr (i, d)"
  shows "\<exists>s. mesh_reach L unmarshal T endpoint c e B
      \<lparr>me_srv = add_job ((me_srv m)\<lparr>sv_dist := d\<rparr>) (ConnectRules (make_hello c keys)), me_agent = s,
       me_link = (if reads_stream (sg_state sg') then Some (i, 0) else None)\<rparr>
    \<and> idle_with s sg' pods"
proof -
  have "client_moves T endpoint c ev (me_agent m) ((me_agent m)\<lparr>ag_sigil := sg', ag_sigil_sends := (Notify \<in> set effs)\<rparr>)"
    using assms(2,4) by (auto simp: client_moves_def idle_with_def settled_def)
  from mesh_settles [OF mesh_reach.step [OF assms(1) mesh_step.subscribed [OF assms(3) this assms(5)]], of sg' pods] assms(2)
  show ?thesis by (simp add: idle_with_def)
qed

lemma mesh_receives:
  assumes "mesh_reach L unmarshal T endpoint c e B m" and "idle_with (me_agent m) sg pods"
    and "me_link m = Some (i, k)" and "k < length (sent_on (me_srv m) i)"
    and "sigil_step T endpoint c sg (Message (Some (sent_on (me_srv m) i ! k))) = Some (sg', effs)"
  shows "\<exists>s. mesh_reach L unmarshal T endpoint c e B \<lparr>me_srv = me_srv m, me_agent = s,
       me_link = (if reads_stream (sg_state sg') then Some (i, Suc k) else None)\<rparr>
    \<and> idle_with s sg' pods"
proof -
  have "client_moves T endpoint c (Message (Some (sent_on (me_srv m) i ! k))) (me_agent m)
      ((me_agent m)\<lparr>ag_sigil := sg', ag_sigil_sends := (Notify \<in> set effs)\<rparr>)"
    using assms(2,5) by (auto simp: client_moves_def idle_with_def settled_def)
  from mesh_settles [OF mesh_reach.step [OF assms(1) mesh_step.message [OF assms(3,4) this]], of sg' pods] assms(2)
  show ?thesis by (simp add: idle_with_def)
qed

end

lemma mesh_job:
  assumes "mesh_reach L unmarshal T endpoint c e B \<lparr>me_srv = s, me_agent = a, me_link = l\<rparr>"
    and "i < length (sv_jobs s)" and "valid_env s env" and "\<not> swaps (sv_jobs s ! i)"
    and "job_step L env s (sv_jobs s ! i) = (s', j)"
  shows "mesh_reach L unmarshal T endpoint c e B
    \<lparr>me_srv = s'\<lparr>sv_jobs := (sv_jobs s)[i := j]\<rparr>, me_agent = a, me_link = l\<rparr>"
  using mesh_reach.step [OF assms(1) mesh_step.server [OF sv_step.run [of i _ env]]] assms(2-5) by simp

section \<open>A concrete mesh\<close>

text \<open>
  The server starts with a policy that denies by default, two pods appear on the watch of the agent,
  it connects, its policy is pushed, sent and received.
\<close>

definition ex_connect :: "(Payload \<times> bool) list \<Rightarrow> Job \<Rightarrow> (string, nat, cert_map) Sigil" where
  "ex_connect ps j = ex_sigil False ps [j]"

lemma mesh_ex_job:
  assumes "mesh_reach ex_ca_lib ex_unmarshal T endpoint c e B \<lparr>me_srv = ex_connect ps j, me_agent = a, me_link = l\<rparr>"
    and "\<not> swaps j" and "job_step ex_ca_lib (ex_job_env False) (ex_connect ps j) j = (s', j')"
    and "s'\<lparr>sv_jobs := [j']\<rparr> = s''"
  shows "mesh_reach ex_ca_lib ex_unmarshal T endpoint c e B \<lparr>me_srv = s'', me_agent = a, me_link = l\<rparr>"
  using mesh_job [OF assms(1), of 0 "ex_job_env False" s' j'] assms(2-4) ex_valid [of False ps "[j]"]
  by (simp add: ex_connect_def)

definition ex_sent :: Distributor where
  "ex_sent = \<lparr>d_streams = [''node'' \<mapsto> 0], d_heap = [\<lparr>as_nodeID = ''node'', as_send = mpsc_channel SEND_CAP,
     as_cancelled = False, as_running = True, as_sent = [PolicyPush (ex_bundle_of False)],
     as_offered = [(PolicyPush (ex_bundle_of False), True)]\<rparr>]\<rparr>"

lemma ex_deliver: "dist_step (ex_dist [(PolicyPush (ex_bundle_of False), True)]) (Deliver 0 True) = ex_sent"
  by (simp add: ex_dist_def ex_stream_def running_def deliver_def recv_def ex_sent_def mpsc_channel_def)

lemma ex_hello_made: "make_hello ex_client [] = ex_hello\<lparr>ah_pod_service_ids := [''node'']\<rparr>"
  by (simp add: make_hello_def ex_client_def ex_hello_def)

lemma ex_subscribe_made: "subscribe d_new (make_hello ex_client []) = Inr (0, ex_dist [])"
  by (simp add: ex_hello_made subscribe_def d_new_def ex_hello_def ex_dist_def ex_stream_def mpsc_channel_def Let_def)

lemma ex_policy_pushed: "apply_policy_bundle (ex_bundle_of False) c = ex_policy"
  by (simp add: ex_bundle_of_def ex_eng_def apply_engine_bundle pc_update_last Rules_def ex_policy_def)

lemma ex_mesh_connects:
  assumes "mesh_reach ex_ca_lib ex_unmarshal T endpoint c e B
      \<lparr>me_srv = ex_connect [] (ConnectRules (make_hello ex_client [])), me_agent = a, me_link = l\<rparr>"
  shows "mesh_reach ex_ca_lib ex_unmarshal T endpoint c e B
      \<lparr>me_srv = (ex_connect [] (ConnectIssue (make_hello ex_client []) [''node'']))\<lparr>sv_dist := ex_sent\<rparr>, me_agent = a, me_link = l\<rparr>"
proof -
  let ?h = "make_hello ex_client []" and ?p = "PolicyPush (ex_bundle_of False)"
  let ?rs = "Rules (ex_eng False) [''alpha''] (\<lambda>f. [''beta''])" and ?k = "ConnectIssue (make_hello ex_client []) [''node'']"
  have node: "ah_node_id ?h = ''node''" "ah_pod_service_ids ?h = [''node'']" by (simp_all add: ex_hello_made ex_hello_def)
  note env = ex_job_env_def ex_connect_def
  from mesh_ex_job [OF assms, of _ "ConnectDefault ?h ?rs" "ex_connect [] (ConnectDefault ?h ?rs)"]
  have "mesh_reach ex_ca_lib ex_unmarshal T endpoint c e B
      \<lparr>me_srv = ex_connect [] (ConnectDefault ?h ?rs), me_agent = a, me_link = l\<rparr>" by (simp add: env)
  from mesh_ex_job [OF this, of _ "ConnectMode ?h ?rs False" "ex_connect [] (ConnectMode ?h ?rs False)"]
  have "mesh_reach ex_ca_lib ex_unmarshal T endpoint c e B
      \<lparr>me_srv = ex_connect [] (ConnectMode ?h ?rs False), me_agent = a, me_link = l\<rparr>" by (simp add: env)
  from mesh_ex_job [OF this, of _ "SendTo ''node'' ?p ?k" "ex_connect [] (SendTo ''node'' ?p ?k)"]
  have "mesh_reach ex_ca_lib ex_unmarshal T endpoint c e B
      \<lparr>me_srv = ex_connect [] (SendTo ''node'' ?p ?k), me_agent = a, me_link = l\<rparr>"
    by (simp add: env node ex_bundle_of_def engine_bundle_def)
  from mesh_ex_job [OF this, of _ "OfferTo 0 ?p ?k" "ex_connect [] (OfferTo 0 ?p ?k)"]
  have "mesh_reach ex_ca_lib ex_unmarshal T endpoint c e B
      \<lparr>me_srv = ex_connect [] (OfferTo 0 ?p ?k), me_agent = a, me_link = l\<rparr>" by (simp add: env ex_dist_def)
  from mesh_ex_job [OF this, of _ ?k "ex_connect [(?p, True)] ?k"]
  have reach: "mesh_reach ex_ca_lib ex_unmarshal T endpoint c e B
      \<lparr>me_srv = ex_connect [(?p, True)] ?k, me_agent = a, me_link = l\<rparr>"
    by (simp add: env ex_dist_def offer_at_def offer_def ex_stream_def try_send_def SEND_CAP_def ex_sigil_def)
  have "loop_event (Deliver 0 True)" by simp
  from mesh_reach.step [OF reach mesh_step.server [OF sv_step.loop [OF this]]]
  show ?thesis by (simp add: ex_connect_def ex_deliver ex_sigil_def del: dist_step.simps)
qed

definition ex_served :: "(string, nat, cert_map) Sigil" where
  "ex_served = (ex_connect [] (ConnectIssue (make_hello ex_client []) [''node'']))\<lparr>sv_dist := ex_sent\<rparr>"

definition ex_on_stream :: SigilState where
  "ex_on_stream = on_push (sg_init\<lparr>sg_state := BootstrapStream\<rparr>) (PolicyPush (ex_bundle_of False))"

lemma ex_mesh:
  "\<exists>s. mesh_reach ex_ca_lib ex_unmarshal ex_lib ex_endpoint ex_client e kmaps
       \<lparr>me_srv = ex_served, me_agent = s, me_link = Some (0, 1)\<rparr>
     \<and> idle_with s ex_on_stream ex_pods \<and> caught_up ex_client \<lparr>me_srv = ex_served, me_agent = s, me_link = Some (0, 1)\<rparr> 0"
proof -
  let ?reach = "mesh_reach ex_ca_lib ex_unmarshal ex_lib ex_endpoint ex_client e kmaps"
  let ?start = "sv_start (ex_eng False) ex_ca"
  let ?b = "PolicyPush (ex_bundle_of False)"
  let ?p1 = "fst (watch_step Map.empty (Apply (ex_pod ''alpha'' (ipv4_display (Ipv4Addr 10 244 1 5)))))"
  have config: "NewFromBytes ex_unmarshal ''closed'' = Inr (ex_eng False)" by (simp add: ex_from_bytes)
  have "hm_get kmaps DAList.empty = Map.empty" by (simp add: fun_eq_iff lookup_empty)
  from km.mesh_starts [OF config this] obtain s0
    where s0: "?reach \<lparr>me_srv = ?start, me_agent = s0, me_link = None\<rparr>" "idle_with s0 sg_init Map.empty" by blast
  obtain s1 where s1: "?reach \<lparr>me_srv = ?start, me_agent = s1, me_link = None\<rparr>" "idle_with s1 sg_init ?p1"
    using km.mesh_watches [OF s0(1), of sg_init Map.empty "Apply (ex_pod ''alpha'' (ipv4_display (Ipv4Addr 10 244 1 5)))"] s0(2)
    by (auto simp del: watch_step.simps)
  obtain s2 where s2: "?reach \<lparr>me_srv = ?start, me_agent = s2, me_link = None\<rparr>" "idle_with s2 sg_init ex_pods"
    using km.mesh_watches [OF s1(1), of sg_init ?p1 "Apply (ex_pod ''beta'' (ipv4_display (Ipv4Addr 10 244 2 7)))"] s1(2) ex_watch
    by (auto simp del: watch_step.simps)
  have "sigil_step ex_lib ex_endpoint ex_client sg_init (BootAttempt [] True True) =
      Some (sg_init\<lparr>sg_state := BootstrapStream\<rparr>, [DialPlain (bootstrap_url ex_client), Hello (make_hello ex_client [])])"
    by (simp add: sigil_step_def sg_init_def)
  from km.mesh_subscribes [OF s2(1) _ _ this, of ex_pods "[]" 0 "ex_dist []"] s2(2)
  obtain s3 where s3: "?reach \<lparr>me_srv = ex_connect [] (ConnectRules (make_hello ex_client [])), me_agent = s3, me_link = Some (0, 0)\<rparr>"
      "idle_with s3 (sg_init\<lparr>sg_state := BootstrapStream\<rparr>) ex_pods"
    by (auto simp: sv_start_def ex_subscribe_made add_job_def ex_connect_def ex_sigil_def)
  have s4: "?reach \<lparr>me_srv = ex_served, me_agent = s3, me_link = Some (0, 0)\<rparr>"
    using ex_mesh_connects [OF s3(1)] by (simp add: ex_served_def)
  have sent: "sent_on ex_served 0 = [?b]" by (simp add: sent_on_def ex_served_def ex_sent_def)
  have "sigil_step ex_lib ex_endpoint ex_client (sg_init\<lparr>sg_state := BootstrapStream\<rparr>) (Message (Some ?b)) =
      Some (ex_on_stream, [Applied ?b, Notify])"
    by (simp add: sigil_step_def ex_on_stream_def)
  then obtain s5 where s5: "?reach \<lparr>me_srv = ex_served, me_agent = s5, me_link = Some (0, 1)\<rparr>" "idle_with s5 ex_on_stream ex_pods"
    using km.mesh_receives [OF s4, of "sg_init\<lparr>sg_state := BootstrapStream\<rparr>" ex_pods 0 0 ex_on_stream] s3(2) sent
    by (auto simp: ex_on_stream_def)
  have "caught_up ex_client \<lparr>me_srv = ex_served, me_agent = s5, me_link = Some (0, 1)\<rparr> 0"
    by (simp add: caught_up_def Let_def ex_served_def ex_sent_def ex_client_def mpsc_channel_def ex_connect_def)
  with s5 show ?thesis by blast
qed

end
