(* ===== verification/Mesh_Live.thy ===== *)
theory Mesh_Live
  imports Mesh_System
begin

text \<open>
  The mesh catches up: an agent on its TLS stream, to which no push has been refused, can always
  receive everything and reconcile it, by steps the server and the agent take by themselves.
\<close>

section \<open>The server finishes its jobs and empties the channel\<close>

definition served :: "('u, 'k, 'db) Sigil \<Rightarrow> string \<Rightarrow> nat \<Rightarrow> bool" where
  "served s n i \<longleftrightarrow> d_streams (sv_dist s) n = Some i \<and> list_all snd (as_offered (d_heap (sv_dist s) ! i))"

definition waiting :: "('u, 'k, 'db) Sigil \<Rightarrow> nat \<Rightarrow> Payload list" where
  "waiting s i = ch_queue (as_send (d_heap (sv_dist s) ! i))"

lemma served_running: "dist_inv (sv_dist s) \<Longrightarrow> served s n i \<Longrightarrow> running (sv_dist s) i \<and> i < length (d_heap (sv_dist s))"
  using dist_inv_registered [of "sv_dist s" n i] by (simp add: served_def running_def)

lemma drain_one:
  assumes "sv_reach True L unmarshal s" and "served s n i" and "waiting s i \<noteq> []"
  shows "\<exists>s'. sv_step True L unmarshal s s' \<and> served s' n i \<and> length (waiting s' i) < length (waiting s i)
    \<and> sv_jobs s' = sv_jobs s \<and> d_streams (sv_dist s') = d_streams (sv_dist s)"
proof -
  let ?as = "d_heap (sv_dist s) ! i"
  have run: "running (sv_dist s) i"
    using served_running [OF sv_reach_dist [OF assms(1)] assms(2)] by blast
  then have i: "i < length (d_heap (sv_dist s))" by (simp add: running_def)
  obtain p q where q: "ch_queue (as_send ?as) = p # q" using assms(3) by (cases "waiting s i") (simp_all add: waiting_def)
  have "loop_event (Deliver i True)" by simp
  from sv_step.loop [OF this]
  have "sv_step True L unmarshal s (s\<lparr>sv_dist := dist_step (sv_dist s) (Deliver i True)\<rparr>)" .
  moreover have "served (s\<lparr>sv_dist := dist_step (sv_dist s) (Deliver i True)\<rparr>) n i"
    using assms(2) i run q by (simp add: served_def deliver_def recv_def Let_def)
  ultimately show ?thesis
    using i run q by (intro exI conjI) (assumption | simp add: waiting_def deliver_def recv_def Let_def)+
qed

lemma sv_steps_reach: "(sv_step serial L unmarshal)\<^sup>*\<^sup>* s s' \<Longrightarrow> sv_reach serial L unmarshal s \<Longrightarrow> sv_reach serial L unmarshal s'"
  by (induction rule: rtranclp_induct) (auto intro: sv_reach.step)

lemma drain:
  assumes "sv_reach True L unmarshal s" and "served s n i"
  shows "\<exists>s'. (sv_step True L unmarshal)\<^sup>*\<^sup>* s s' \<and> served s' n i \<and> waiting s' i = []
    \<and> sv_jobs s' = sv_jobs s \<and> d_streams (sv_dist s') = d_streams (sv_dist s)"
  using assms
proof (induction "length (waiting s i)" arbitrary: s rule: less_induct)
  case less
  show ?case
  proof (cases "waiting s i = []")
    case True
    then show ?thesis using less.prems by blast
  next
    case False
    from drain_one [OF less.prems False] obtain s1
      where s1: "sv_step True L unmarshal s s1" "served s1 n i" "length (waiting s1 i) < length (waiting s i)"
        "sv_jobs s1 = sv_jobs s" "d_streams (sv_dist s1) = d_streams (sv_dist s)" by blast
    from less.hyps [OF s1(3) sv_reach.step [OF less.prems(1) s1(1)] s1(2)] s1(1,4,5) show ?thesis
      by (metis converse_rtranclp_into_rtranclp)
  qed
qed

text \<open>Some unfinished job may run: one that does not swap the engine, or else a swap.\<close>

lemma pick_job:
  assumes "\<not> list_all (\<lambda>j. j = Done) js"
  shows "\<exists>k < length js. js ! k \<noteq> Done \<and> (swaps (js ! k) \<longrightarrow> \<not> list_ex prepared js)"
proof (cases "\<exists>k < length js. js ! k \<noteq> Done \<and> \<not> swaps (js ! k)")
  case True
  then show ?thesis by blast
next
  case False
  have not: "swaps j \<Longrightarrow> \<not> prepared j" for j by (cases j) simp_all
  have "\<not> prepared (js ! k)" if "k < length js" for k
    using False that not [of "js ! k"] by (cases "js ! k = Done") auto
  then have "\<not> list_ex prepared js" by (auto simp: list_ex_length)
  then show ?thesis using assms by (auto simp: list_all_length)
qed

lemma job_served:
  assumes "dist_inv (sv_dist s)" and "served s n i" and "waiting s i = []" and "job_step L env s j = (s', j')"
  shows "served (s'\<lparr>sv_jobs := js\<rparr>) n i"
proof -
  have i: "i < length (d_heap (sv_dist s))" using served_running [OF assms(1,2)] by blast
  have cap: "ch_cap (as_send (d_heap (sv_dist s) ! i)) = SEND_CAP"
    using dist_inv_stream [OF assms(1) i] by (simp add: stream_inv_def)
  have "list_all snd (as_offered (offer (d_heap (sv_dist s) ! i) p))" for p
    using assms(2,3) cap by (simp add: served_def waiting_def offer_def try_send_def SEND_CAP_def)
  then show ?thesis
    using assms(2) job_step_dist(1) [OF assms(4)] i
    by (cases j) (auto simp: served_def offer_at_def nth_update_in)
qed

lemma finish_jobs:
  assumes "sv_reach True L unmarshal s" and "served s n i"
  shows "\<exists>s'. (sv_step True L unmarshal)\<^sup>*\<^sup>* s s' \<and> served s' n i \<and> waiting s' i = []
    \<and> list_all (\<lambda>j. j = Done) (sv_jobs s')"
  using assms
proof (induction "work_left s" arbitrary: s rule: less_induct)
  case less
  obtain s1 where steps: "(sv_step True L unmarshal)\<^sup>*\<^sup>* s s1" and s1: "served s1 n i" "waiting s1 i = []"
    and same: "sv_jobs s1 = sv_jobs s" "d_streams (sv_dist s1) = d_streams (sv_dist s)"
    using drain [OF less.prems] by blast
  note reach1 = sv_steps_reach [OF steps less.prems(1)]
  note ord = sv_reach_orders [OF reach1]
  show ?case
  proof (cases "list_all (\<lambda>j. j = Done) (sv_jobs s1)")
    case True
    then show ?thesis using steps s1 by blast
  next
    case False
    then obtain k where k: "k < length (sv_jobs s1)" "sv_jobs s1 ! k \<noteq> Done"
      and safe: "swaps (sv_jobs s1 ! k) \<longrightarrow> \<not> list_ex prepared (sv_jobs s1)" using pick_job by blast
    obtain env where env: "valid_env s1 env" using valid_env_ex [OF ord] by blast
    obtain s2 j where st: "job_step L env s1 (sv_jobs s1 ! k) = (s2, j)" by (cases "job_step L env s1 (sv_jobs s1 ! k)")
    let ?s2 = "s2\<lparr>sv_jobs := (sv_jobs s1)[k := j]\<rparr>"
    have sv: "sv_step True L unmarshal s1 ?s2" by (rule sv_step.run [OF k(1) env _ st]) (use safe in blast)
    have "work_left s1 = work_left s" by (simp add: work_left_def agents_def same)
    then have dec: "work_left ?s2 < work_left s" using run_work [OF ord k env st] by simp
    from less.hyps [OF dec sv_reach.step [OF reach1 sv] job_served [OF sv_reach_dist [OF reach1] s1 st]]
    obtain s3 where s3: "(sv_step True L unmarshal)\<^sup>*\<^sup>* ?s2 s3" "served s3 n i \<and> waiting s3 i = []
        \<and> list_all (\<lambda>j. j = Done) (sv_jobs s3)" by blast
    have "(sv_step True L unmarshal)\<^sup>*\<^sup>* s s3"
      using steps converse_rtranclp_into_rtranclp [of "sv_step True L unmarshal", OF sv s3(1)] by (rule rtranclp_trans)
    then show ?thesis using s3(2) by blast
  qed
qed

section \<open>The agent receives everything\<close>

lemma mesh_servers:
  assumes "(sv_step True L unmarshal)\<^sup>*\<^sup>* (me_srv m) s" and "mesh_reach L unmarshal T endpoint c e B m"
  shows "mesh_reach L unmarshal T endpoint c e B \<lparr>me_srv = s, me_agent = me_agent m, me_link = me_link m\<rparr>"
  using assms(1)
proof (induction rule: rtranclp_induct)
  case base
  have "m = \<lparr>me_srv = me_srv m, me_agent = me_agent m, me_link = me_link m\<rparr>" by (cases m) simp
  with assms(2) show ?case by (simp only:)
next
  case (step y z)
  from mesh_reach.step [OF step(3) mesh_step.server] step(2) show ?case by fastforce
qed

context bpf_maps
begin

lemma receive_all:
  assumes "mesh_reach L unmarshal T endpoint c e B m" and "idle_with (me_agent m) sg pods"
    and "me_link m = Some (i, k)" and "sg_state sg = ConnectedStream"
  shows "\<exists>s sg'. mesh_reach L unmarshal T endpoint c e B
      \<lparr>me_srv = me_srv m, me_agent = s, me_link = Some (i, length (sent_on (me_srv m) i))\<rparr> \<and> idle_with s sg' pods"
  using assms
proof (induction "length (sent_on (me_srv m) i) - k" arbitrary: m sg k)
  case 0
  have "k \<le> length (sent_on (me_srv m) i)" using mesh_link_inv [OF 0(2)] 0(4) by (simp add: link_inv_def)
  then have "m = \<lparr>me_srv = me_srv m, me_agent = me_agent m, me_link = Some (i, length (sent_on (me_srv m) i))\<rparr>"
    using 0(1,4) by (cases m) simp
  with 0(2,3) show ?case by metis
next
  case (Suc x)
  let ?p = "sent_on (me_srv m) i ! k"
  have st: "sigil_step T endpoint c sg (Message (Some ?p)) = Some (on_push sg ?p, [Applied ?p, Notify])"
    using Suc.prems(4) by (simp add: sigil_step_def)
  have state: "sg_state (on_push sg ?p) = ConnectedStream" using Suc.prems(4) by (simp add: on_push_def split: Payload.split)
  have "k < length (sent_on (me_srv m) i)" using Suc.hyps(2) by simp
  from mesh_receives [OF Suc.prems(1-3) this st] state obtain s
    where s: "mesh_reach L unmarshal T endpoint c e B \<lparr>me_srv = me_srv m, me_agent = s, me_link = Some (i, Suc k)\<rparr>"
      "idle_with s (on_push sg ?p) pods" by auto
  from Suc.hyps(1) [OF _ s(1) _ _ state, of "Suc k"] Suc.hyps(2) s(2) show ?case by simp
qed

end

section \<open>Property\<close>


text \<open>The example goes on: a certificate for the node is issued, pushed and received, and the agent upgrades.\<close>

definition ex_certified :: "Job \<Rightarrow> (Payload \<times> bool) list \<Rightarrow> Payload list \<Rightarrow> Payload list \<Rightarrow> (string, nat, cert_map) Sigil" where
  "ex_certified j offered sent queue = (sv_start (ex_eng False) (ex_ca_with (ex_put fmempty 1 ''node'')))
     \<lparr>sv_jobs := [j], sv_dist := \<lparr>d_streams = [''node'' \<mapsto> 0], d_heap = [\<lparr>as_nodeID = ''node'',
        as_send = \<lparr>ch_cap = SEND_CAP, ch_queue = queue\<rparr>, as_cancelled = False, as_running = True, as_sent = sent,
        as_offered = offered\<rparr>]\<rparr>\<rparr>"

definition ex_node_cert :: CertBundle where
  "ex_node_cert = cert_bundle (ex_issued 1 ''node'')"

lemma ex_certified_job:
  assumes "mesh_reach ex_ca_lib ex_unmarshal T endpoint c e B \<lparr>me_srv = ex_certified j ps ss q, me_agent = a, me_link = l\<rparr>"
    and "\<not> swaps j" and "job_step ex_ca_lib (ex_job_env False) (ex_certified j ps ss q) j = (s', j')"
    and "s'\<lparr>sv_jobs := [j']\<rparr> = s''"
  shows "mesh_reach ex_ca_lib ex_unmarshal T endpoint c e B \<lparr>me_srv = s'', me_agent = a, me_link = l\<rparr>"
proof -
  have "valid_env (ex_certified j ps ss q) (ex_job_env False)"
    using ex_visits ex_dist_order [of "[]"]
    by (simp add: valid_env_def ex_job_env_def connected_order_def ex_certified_def sv_start_def ex_dist_def)
  from mesh_job [OF assms(1) _ this, of 0] assms(2-4) show ?thesis by (simp add: ex_certified_def)
qed

lemma ex_certified_sent:
  assumes "mesh_reach ex_ca_lib ex_unmarshal T endpoint c e B \<lparr>me_srv = ex_served, me_agent = a, me_link = l\<rparr>"
  shows "mesh_reach ex_ca_lib ex_unmarshal T endpoint c e B
    \<lparr>me_srv = ex_certified (ConnectIssue (make_hello ex_client []) [])
        [(PolicyPush (ex_bundle_of False), True), (CertPush ex_node_cert, True)]
        [PolicyPush (ex_bundle_of False), CertPush ex_node_cert] [], me_agent = a, me_link = l\<rparr>"
proof -
  let ?h = "make_hello ex_client []" and ?p = "PolicyPush (ex_bundle_of False)" and ?c = "CertPush ex_node_cert"
  let ?k = "ConnectIssue (make_hello ex_client []) []"
  let ?reach = "\<lambda>s. mesh_reach ex_ca_lib ex_unmarshal T endpoint c e B \<lparr>me_srv = s, me_agent = a, me_link = l\<rparr>"
  have served: "ex_served = (ex_certified (ConnectIssue ?h [''node'']) [(?p, True)] [?p] [])\<lparr>sv_ca := ex_ca_with fmempty\<rparr>"
    by (simp add: ex_served_def ex_connect_def ex_sigil_def ex_certified_def ex_sent_def mpsc_channel_def ex_ca_with_def ex_ca_def sv_start_def)
  have v: "valid_env ex_served (ex_job_env False)"
    using ex_visits ex_dist_order [of "[]"]
    by (simp add: valid_env_def ex_job_env_def connected_order_def ex_served_def ex_connect_def ex_sent_def ex_dist_def)
  have hello: "ah_node_id ?h = ''node''" "ah_cluster_id ?h = ''dev''" by (simp_all add: ex_hello_made ex_hello_def)
  have jobs: "sv_jobs ex_served = [ConnectIssue ?h [''node'']]" by (simp add: served ex_certified_def)
  have "job_step ex_ca_lib (ex_job_env False) ex_served (ConnectIssue ?h [''node'']) =
      (ex_certified (ConnectIssue ?h [''node'']) [(?p, True)] [?p] [], SendTo ''node'' ?c ?k)"
    using ex_issue [of 1 fmempty "''node''"]
    by (simp add: served issue_in_def ex_job_env_def hello ex_certified_def ex_node_cert_def sv_start_def)
  then have "job_step ex_ca_lib (ex_job_env False) ex_served (sv_jobs ex_served ! 0) =
      (ex_certified (ConnectIssue ?h [''node'']) [(?p, True)] [?p] [], SendTo ''node'' ?c ?k)"
    unfolding jobs nth_Cons_0 .
  from mesh_job [OF assms _ v _ this] have "?reach (ex_certified (SendTo ''node'' ?c ?k) [(?p, True)] [?p] [])"
    by (simp add: jobs) (simp add: ex_certified_def sv_start_def)
  from ex_certified_job [OF this, of _ "OfferTo 0 ?c ?k" "ex_certified (OfferTo 0 ?c ?k) [(?p, True)] [?p] []"]
  have "?reach (ex_certified (OfferTo 0 ?c ?k) [(?p, True)] [?p] [])" by (simp add: ex_certified_def)
  from ex_certified_job [OF this, of _ ?k "ex_certified ?k [(?p, True), (?c, True)] [?p] [?c]"]
  have reach: "?reach (ex_certified ?k [(?p, True), (?c, True)] [?p] [?c])"
    by (simp add: ex_certified_def offer_at_def offer_def try_send_def SEND_CAP_def)
  have "loop_event (Deliver 0 True)" by simp
  from mesh_reach.step [OF reach mesh_step.server [OF sv_step.loop [OF this]]]
  show ?thesis by (simp add: ex_certified_def running_def deliver_def recv_def)
qed

text \<open>Two subscriptions over TLS follow; the second stream is the one the agent reads.\<close>

lemma ex_upgraded:
  "\<exists>srv s sg. mesh_reach ex_ca_lib ex_unmarshal ex_lib ex_endpoint ex_client e kmaps
       \<lparr>me_srv = srv, me_agent = s, me_link = Some (2, 0)\<rparr>
     \<and> idle_with s sg ex_pods \<and> sg_state sg = ConnectedStream
     \<and> d_streams (sv_dist srv) ''node'' = Some 2 \<and> as_offered (d_heap (sv_dist srv) ! 2) = []"
proof -
  let ?h = "make_hello ex_client []" and ?c = "CertPush ex_node_cert"
  let ?reach = "\<lambda>m. mesh_reach ex_ca_lib ex_unmarshal ex_lib ex_endpoint ex_client e kmaps m"
  let ?s1 = "ex_certified (ConnectIssue (make_hello ex_client []) [])
        [(PolicyPush (ex_bundle_of False), True), (CertPush ex_node_cert, True)]
        [PolicyPush (ex_bundle_of False), CertPush ex_node_cert] []"
  obtain a where a: "?reach \<lparr>me_srv = ex_served, me_agent = a, me_link = Some (0, 1)\<rparr>" "idle_with a ex_on_stream ex_pods"
    using ex_mesh by blast
  note sent = ex_certified_sent [OF a(1)]
  have on: "sent_on ?s1 0 = [PolicyPush (ex_bundle_of False), ?c]" by (simp add: sent_on_def ex_certified_def)
  let ?up = "(on_push ex_on_stream ?c)\<lparr>sg_state := UpgradingTLS\<rparr>"
  have "sigil_step ex_lib ex_endpoint ex_client ex_on_stream (Message (Some ?c)) = Some (?up, [Applied ?c, Notify])"
    by (simp add: sigil_step_def ex_on_stream_def on_push_def)
  then obtain b where b: "?reach \<lparr>me_srv = ?s1, me_agent = b, me_link = None\<rparr>" "idle_with b ?up ex_pods"
    using km.mesh_receives [OF sent, of ex_on_stream ex_pods 0 1 ?up] a(2) on by auto
  have chan: "build_tls_channel ex_lib ex_endpoint (sigil_addr ex_client) (sg_store (on_push ex_on_stream ?c)) [''node''] = Inr (''https://sigil:8443'')"
    by (simp add: build_tls_channel_def on_push_def ex_on_stream_def sg_init_def apply_cert_bundle_def cs_defs first_value_def
        ex_node_cert_def cert_bundle_def ex_issued_def ex_lib_def ex_endpoint_def ex_client_def)
  have hello: "ah_node_id ?h = ''node''" by (simp add: ex_hello_made ex_hello_def)
  obtain d1 where d1: "subscribe (sv_dist ?s1) ?h = Inr (1, d1)"
    by (simp add: subscribe_def hello Let_def ex_certified_def cancel_stream_def)
  let ?s2 = "add_job (?s1\<lparr>sv_dist := d1\<rparr>) (ConnectRules ?h)"
  obtain d2 where d2: "subscribe (sv_dist ?s2) ?h = Inr (2, d2)"
    using subscribe_sel(2) [OF d1]
    by (simp add: subscribe_def hello Let_def add_job_def cancel_stream_def split: option.split)
  have "sigil_step ex_lib ex_endpoint ex_client ?up (TlsAttempt [''node''] [] True) =
      Some (?up\<lparr>sg_state := ConnectedTLS\<rparr>, [DialTls (sigil_addr ex_client), Hello ?h])"
    using chan by (simp add: sigil_step_def)
  from km.mesh_subscribes [OF b(1) _ _ this, of ex_pods "[]" 1 d1] b(2) d1 obtain f
    where f: "?reach \<lparr>me_srv = ?s2, me_agent = f, me_link = None\<rparr>" "idle_with f (?up\<lparr>sg_state := ConnectedTLS\<rparr>) ex_pods"
    by auto
  have "sigil_step ex_lib ex_endpoint ex_client (?up\<lparr>sg_state := ConnectedTLS\<rparr>) (TlsAttempt [''node''] [] True) =
      Some (?up\<lparr>sg_state := ConnectedStream\<rparr>, [DialTls (sigil_addr ex_client), Hello ?h])"
    using chan by (simp add: sigil_step_def)
  from km.mesh_subscribes [OF f(1) _ _ this, of ex_pods "[]" 2 d2] f(2) d2 obtain g
    where g: "?reach \<lparr>me_srv = add_job (?s2\<lparr>sv_dist := d2\<rparr>) (ConnectRules ?h), me_agent = g, me_link = Some (2, 0)\<rparr>"
      "idle_with g (?up\<lparr>sg_state := ConnectedStream\<rparr>) ex_pods"
    by auto
  have "d_streams d2 ''node'' = Some 2" using subscribe_sel(3) [OF d2] by (simp add: hello)
  moreover have "as_offered (d_heap d2 ! 2) = []" by (rule subscribe_offered [OF d2])
  ultimately show ?thesis using g by (intro exI conjI) (assumption | simp add: add_job_def)+
qed


end
