(* ===== verification/Float64_Rat.thy ===== *)
theory Float64_Rat
  imports Complex_Main Float64
begin

text \<open>
  Rounding a rational: \<open>n / d\<close> lies between \<open>2^(s-1)\<close> and \<open>2^(s+1)\<close> for the difference \<open>s\<close> of
  the lengths, which gives the unit in the last place, at least \<open>2^-1074\<close>. Numbers of \<open>2^1024\<close> and
  more, which \<open>float64\<close> takes to infinity, are not represented.
\<close>

definition scaled :: "nat \<Rightarrow> nat \<Rightarrow> int \<Rightarrow> nat \<times> nat" where
  "scaled n d u = (if 0 \<le> u then (n, d * 2 ^ nat u) else (n * 2 ^ nat (- u), d))"

definition last_place :: "nat \<Rightarrow> nat \<Rightarrow> int" where
  "last_place n d =
     (let s = int (bit_count n) - int (bit_count d); (p, q) = scaled n d s in
      max ((if q \<le> p then s else s - 1) - 52) (- 1074))"

definition power2 :: "int \<Rightarrow> rat" where
  "power2 u = (if 0 \<le> u then 2 ^ nat u else 1 / 2 ^ nat (- u))"

definition fl64 :: "rat \<Rightarrow> rat" where
  "fl64 x =
     (if x = 0 then 0
      else (let (p, q) = quotient_of \<bar>x\<bar>; n = nat p; d = nat q; u = last_place n d; (a, b) = scaled n d u in
            sgn x * of_nat (round_half_even a b) * power2 u))"

lemma fl64_zero [simp]: "fl64 0 = 0"
  by (simp add: fl64_def)

end
