(* ===== verification/Trace_Store.thy ===== *)
theory Trace_Store
  imports Complex_Main Mesh_Prelude Rust_Str Float64_Rat
    "HOL-Library.List_Lexorder" "HOL-Library.Char_ord" "HOL-Library.Product_Lexorder" "HOL-Library.Finite_Map" "HOL-Library.Multiset"
begin

text \<open>
  \<open>trace/backend/internal/store/store.go\<close>: the in-memory store of the Trace service, which the
  agents and the gateways report to. \<open>AddRecord\<close> folds every record into the counters, the edges
  of the topology and the event log, under one lock, so a run is a list of records with the time
  at which each was added. Counters are 64-bit and wrap; a \<open>float64\<close> that JSON can carry is a
  rational; the zero \<open>time.Time\<close> is the first of January of year 1.
\<close>

section \<open>Records\<close>

record TraceRecord =
  tr_source_service :: string
  tr_destination_service :: string
  tr_cluster_id :: string
  tr_leg :: string
  tr_verdict :: string
  tr_latency_ms :: rat
  tr_tls_verified :: bool
  tr_status_code :: int
  tr_error_reason :: string
  tr_timestamp :: int
  tr_protocol :: string
  tr_request_id :: string
  tr_source_ip :: string
  tr_dest_ip :: string
  tr_bytes_in :: "64 word"
  tr_bytes_out :: "64 word"

record Summary =
  sm_total_requests :: "64 word"
  sm_allowed :: "64 word"
  sm_denied :: "64 word"
  sm_tls_failures :: "64 word"
  sm_errors :: "64 word"
  sm_active_edges :: nat
  sm_active_services :: nat
  sm_generated_at :: int

record TraceEvent =
  ev_source_service :: string
  ev_destination_service :: string
  ev_cluster_id :: string
  ev_leg :: string
  ev_verdict :: string
  ev_error_reason :: string
  ev_status_code :: int
  ev_latency_ms :: rat
  ev_timestamp :: int
  ev_protocol :: string
  ev_request_id :: string
  ev_bytes_in :: "64 word"
  ev_bytes_out :: "64 word"

record EventQuery =
  q_service :: string
  q_verdict :: string
  q_limit :: int

record nodeState =
  ns_id :: string
  ns_clusterID :: string

record edgeState =
  es_source :: string
  es_target :: string
  es_clusterID :: string
  es_leg :: string
  es_requests :: "64 word"
  es_allowCount :: "64 word"
  es_denyCount :: "64 word"
  es_tlsRejects :: "64 word"
  es_errorCount :: "64 word"
  es_lastLatencyMs :: rat
  es_lastSeen :: int
  es_latencies :: "rat list"
  es_bytesIn :: "64 word"
  es_bytesOut :: "64 word"

record Store =
  st_nodes :: "(string, nodeState) fmap"
  st_edges :: "(string, edgeState) fmap"
  st_events :: "TraceEvent list"
  st_maxEvents :: nat
  st_summary :: Summary

definition ZERO_TIME :: int where "ZERO_TIME = - 62135596800000000000"

definition store_new :: "int \<Rightarrow> Store" where
  "store_new maxEvents =
     \<lparr>st_nodes = fmempty, st_edges = fmempty, st_events = [],
      st_maxEvents = nat (if maxEvents \<le> 0 then 500 else maxEvents),
      st_summary = \<lparr>sm_total_requests = 0, sm_allowed = 0, sm_denied = 0, sm_tls_failures = 0, sm_errors = 0,
        sm_active_edges = 0, sm_active_services = 0, sm_generated_at = ZERO_TIME\<rparr>\<rparr>"

section \<open>Normalisation\<close>

text \<open>\<open>net.SplitHostPort\<close>.\<close>

definition index_byte :: "char \<Rightarrow> string \<Rightarrow> nat option" where
  "index_byte c s = (if c \<in> set s then Some (length (takeWhile (\<lambda>x. x \<noteq> c) s)) else None)"

definition last_index_byte :: "char \<Rightarrow> string \<Rightarrow> nat option" where
  "last_index_byte c s = map_option (\<lambda>i. length s - 1 - i) (index_byte c (rev s))"

definition host_and_port :: "string \<Rightarrow> nat \<Rightarrow> nat \<Rightarrow> string \<Rightarrow> nat \<Rightarrow> string + string \<times> string" where
  "host_and_port hp j k host i =
     (if CHR ''['' \<in> set (drop j hp) then Inl ''unexpected '[' in address''
      else if CHR '']'' \<in> set (drop k hp) then Inl ''unexpected ']' in address''
      else Inr (host, drop (i + 1) hp))"

definition split_host_port :: "string \<Rightarrow> string + string \<times> string" where
  "split_host_port hp =
     (case last_index_byte (CHR '':'') hp of
        None \<Rightarrow> Inl ''missing port in address''
      | Some i \<Rightarrow>
          (if hd hp = CHR ''['' then
             (case index_byte (CHR '']'') hp of
                None \<Rightarrow> Inl ''missing ']' in address''
              | Some e \<Rightarrow>
                  (if e + 1 = length hp then Inl ''missing port in address''
                   else if e + 1 = i then host_and_port hp 1 (e + 1) (take (e - 1) (drop 1 hp)) i
                   else if hp ! (e + 1) = CHR '':'' then Inl ''too many colons in address''
                   else Inl ''missing port in address''))
           else if CHR '':'' \<in> set (take i hp) then Inl ''too many colons in address''
           else host_and_port hp 0 0 (take i hp) i))"

text \<open>
  \<open>strings.EqualFold(s, "unknown")\<close>: case folding takes the Kelvin sign, whose UTF-8 encoding has
  three bytes, for a k; no other character outside ASCII folds to one of these letters.
\<close>

definition KELVIN :: string where "KELVIN = [char_of (226::nat), char_of (132::nat), char_of (170::nat)]"

definition folds_to_unknown :: "string \<Rightarrow> bool" where
  "folds_to_unknown s \<longleftrightarrow> to_ascii_lowercase (str_replace KELVIN ''k'' s) = ''unknown''"

definition normalizeServiceName :: "string \<Rightarrow> string \<Rightarrow> string" where
  "normalizeServiceName name ip =
     (let trimmed = trim name in
      if trimmed = [] \<or> folds_to_unknown trimmed then
        (if ip \<noteq> [] then (case split_host_port ip of Inr (host, port) \<Rightarrow> host | Inl e \<Rightarrow> ip)
         else ''unknown'')
      else trimmed)"

definition NormalizeRecord :: "int \<Rightarrow> TraceRecord \<Rightarrow> TraceRecord" where
  "NormalizeRecord now r = r\<lparr>
     tr_source_service := normalizeServiceName (tr_source_service r) (tr_source_ip r),
     tr_destination_service := normalizeServiceName (tr_destination_service r) (tr_dest_ip r),
     tr_leg := (if trim (tr_leg r) = [] then ''intra_cluster'' else tr_leg r),
     tr_verdict := (if trim (tr_verdict r) = [] then ''allow'' else tr_verdict r),
     tr_timestamp := (if tr_timestamp r = ZERO_TIME then now else tr_timestamp r)\<rparr>"

section \<open>Adding a record\<close>

definition edge_key :: "TraceRecord \<Rightarrow> string" where
  "edge_key r = tr_source_service r @ ''|'' @ tr_destination_service r @ ''|'' @ tr_leg r"

definition edge_new :: "TraceRecord \<Rightarrow> edgeState" where
  "edge_new r =
     \<lparr>es_source = tr_source_service r, es_target = tr_destination_service r, es_clusterID = tr_cluster_id r,
      es_leg = tr_leg r, es_requests = 0, es_allowCount = 0, es_denyCount = 0, es_tlsRejects = 0, es_errorCount = 0,
      es_lastLatencyMs = 0, es_lastSeen = ZERO_TIME, es_latencies = [], es_bytesIn = 0, es_bytesOut = 0\<rparr>"

definition LATENCY_WINDOW :: nat where "LATENCY_WINDOW = 512"

definition window :: "rat list \<Rightarrow> rat list" where
  "window ls = (if LATENCY_WINDOW < length ls then drop (length ls - LATENCY_WINDOW) ls else ls)"

definition edge_traffic :: "TraceRecord \<Rightarrow> edgeState \<Rightarrow> edgeState" where
  "edge_traffic r e = e\<lparr>
     es_requests := es_requests e + 1,
     es_lastSeen := tr_timestamp r,
     es_lastLatencyMs := (if 0 < tr_latency_ms r then tr_latency_ms r else es_lastLatencyMs e),
     es_latencies := (if 0 < tr_latency_ms r then window (es_latencies e @ [tr_latency_ms r]) else es_latencies e),
     es_bytesIn := es_bytesIn e + tr_bytes_in r,
     es_bytesOut := es_bytesOut e + tr_bytes_out r\<rparr>"

definition count_verdict :: "string \<Rightarrow> Summary \<Rightarrow> edgeState \<Rightarrow> Summary \<times> edgeState" where
  "count_verdict v s e =
     (if v = ''deny'' then (s\<lparr>sm_denied := sm_denied s + 1\<rparr>, e\<lparr>es_denyCount := es_denyCount e + 1\<rparr>)
      else if v = ''tls_reject'' then (s\<lparr>sm_tls_failures := sm_tls_failures s + 1\<rparr>, e\<lparr>es_tlsRejects := es_tlsRejects e + 1\<rparr>)
      else if v = ''error'' then (s\<lparr>sm_errors := sm_errors s + 1\<rparr>, e\<lparr>es_errorCount := es_errorCount e + 1\<rparr>)
      else (s\<lparr>sm_allowed := sm_allowed s + 1\<rparr>, e\<lparr>es_allowCount := es_allowCount e + 1\<rparr>))"

definition event_of :: "TraceRecord \<Rightarrow> TraceEvent" where
  "event_of r =
     \<lparr>ev_source_service = tr_source_service r, ev_destination_service = tr_destination_service r,
      ev_cluster_id = tr_cluster_id r, ev_leg = tr_leg r, ev_verdict = tr_verdict r,
      ev_error_reason = tr_error_reason r, ev_status_code = tr_status_code r, ev_latency_ms = tr_latency_ms r,
      ev_timestamp = tr_timestamp r, ev_protocol = tr_protocol r, ev_request_id = tr_request_id r,
      ev_bytes_in = tr_bytes_in r, ev_bytes_out = tr_bytes_out r\<rparr>"

definition appendEventLocked :: "Store \<Rightarrow> TraceRecord \<Rightarrow> Store" where
  "appendEventLocked s r =
     (let evs = event_of r # st_events s in
      s\<lparr>st_events := (if st_maxEvents s < length evs then take (st_maxEvents s) evs else evs)\<rparr>)"

definition AddRecord :: "int \<Rightarrow> Store \<Rightarrow> TraceRecord \<Rightarrow> TraceRecord \<times> Store" where
  "AddRecord now s record =
     (let r = NormalizeRecord now record;
          sm = (st_summary s)\<lparr>sm_total_requests := sm_total_requests (st_summary s) + 1, sm_generated_at := now\<rparr>;
          nodes = fmupd (tr_destination_service r) \<lparr>ns_id = tr_destination_service r, ns_clusterID = tr_cluster_id r\<rparr>
                    (fmupd (tr_source_service r) \<lparr>ns_id = tr_source_service r, ns_clusterID = tr_cluster_id r\<rparr> (st_nodes s));
          edge = (case fmlookup (st_edges s) (edge_key r) of None \<Rightarrow> edge_new r | Some e \<Rightarrow> e);
          (sm', edge') = count_verdict (tr_verdict r) sm (edge_traffic r edge);
          edges = fmupd (edge_key r) edge' (st_edges s) in
      (r, appendEventLocked
            (s\<lparr>st_nodes := nodes, st_edges := edges,
               st_summary := sm'\<lparr>sm_active_edges := fcard (fmdom edges), sm_active_services := fcard (fmdom nodes)\<rparr>\<rparr>) r))"

section \<open>Reading\<close>

text \<open>
  \<open>percentile\<close>: the constants 0.50, 0.95 and 0.99 are the doubles \<open>m / 2^53\<close> given here by
  \<open>m\<close>; the product with the number of values less one is rounded, then truncated.
\<close>

definition P50 :: nat where "P50 = 4503599627370496"
definition P95 :: nat where "P95 = 8556839292003942"
definition P99 :: nat where "P99 = 8917127262193582"

definition percentile_index :: "nat \<Rightarrow> nat \<Rightarrow> nat" where
  "percentile_index n m = round53 ((n - 1) * m) div 2 ^ 53"

definition percentile :: "rat list \<Rightarrow> nat \<Rightarrow> rat" where
  "percentile vs m =
     (if vs = [] then 0
      else (let cp = sort vs; idx = percentile_index (length cp) m in
            cp ! (if length cp \<le> idx then length cp - 1 else idx)))"

definition minSlice :: "rat list \<Rightarrow> rat" where
  "minSlice vs = (case vs of [] \<Rightarrow> 0 | v # rest \<Rightarrow> foldl (\<lambda>m x. if x < m then x else m) v rest)"

definition maxSlice :: "rat list \<Rightarrow> rat" where
  "maxSlice vs = (case vs of [] \<Rightarrow> 0 | v # rest \<Rightarrow> foldl (\<lambda>m x. if m < x then x else m) v rest)"

record TraceNode =
  nd_id :: string
  nd_label :: string
  nd_cluster_id :: string

record TraceEdge =
  ed_source :: string
  ed_target :: string
  ed_cluster_id :: string
  ed_leg :: string
  ed_requests :: "64 word"
  ed_allow_count :: "64 word"
  ed_deny_count :: "64 word"
  ed_tls_rejects :: "64 word"
  ed_error_count :: "64 word"
  ed_p50_ms :: rat
  ed_p95_ms :: rat
  ed_p99_ms :: rat
  ed_last_latency_ms :: rat
  ed_last_seen :: int

record Topology =
  tp_nodes :: "TraceNode list"
  tp_edges :: "TraceEdge list"
  tp_generated_at :: int

definition edge_view :: "edgeState \<Rightarrow> TraceEdge" where
  "edge_view e =
     \<lparr>ed_source = es_source e, ed_target = es_target e, ed_cluster_id = es_clusterID e, ed_leg = es_leg e,
      ed_requests = es_requests e, ed_allow_count = es_allowCount e, ed_deny_count = es_denyCount e,
      ed_tls_rejects = es_tlsRejects e, ed_error_count = es_errorCount e,
      ed_p50_ms = percentile (es_latencies e) P50, ed_p95_ms = percentile (es_latencies e) P95,
      ed_p99_ms = percentile (es_latencies e) P99, ed_last_latency_ms = es_lastLatencyMs e,
      ed_last_seen = es_lastSeen e\<rparr>"

text \<open>
  The values of a map in the order of its keys \<open>ks\<close>. \<open>sort.Slice\<close> is not stable, but the order of
  Go's maps is arbitrary anyway: every order of equal elements comes from some \<open>ks\<close>.
\<close>

definition values_in :: "('k, 'v) fmap \<Rightarrow> 'k list \<Rightarrow> 'v list" where
  "values_in m ks = List.map_filter (fmlookup m) ks"

definition topology :: "Store \<Rightarrow> string list \<Rightarrow> string list \<Rightarrow> int \<Rightarrow> Topology" where
  "topology s node_keys edge_keys now =
     \<lparr>tp_nodes = sort_key nd_id (map (\<lambda>n. \<lparr>nd_id = ns_id n, nd_label = ns_id n, nd_cluster_id = ns_clusterID n\<rparr>)
                   (values_in (st_nodes s) node_keys)),
      tp_edges = sort_key (\<lambda>e. (ed_source e, ed_target e)) (map edge_view (values_in (st_edges s) edge_keys)),
      tp_generated_at = now\<rparr>"

definition matches :: "EventQuery \<Rightarrow> TraceEvent \<Rightarrow> bool" where
  "matches q e \<longleftrightarrow>
     \<not> (q_service q \<noteq> [] \<and> ev_source_service e \<noteq> q_service q \<and> ev_destination_service e \<noteq> q_service q)
     \<and> \<not> (q_verdict q \<noteq> [] \<and> q_verdict q \<noteq> ''all'' \<and> ev_verdict e \<noteq> q_verdict q)"

fun collect :: "EventQuery \<Rightarrow> int \<Rightarrow> TraceEvent list \<Rightarrow> TraceEvent list \<Rightarrow> TraceEvent list" where
  "collect q limit out [] = out"
| "collect q limit out (e # evs) =
     (if limit \<le> int (length out) then out
      else collect q limit (if matches q e then out @ [e] else out) evs)"

definition query_limit :: "EventQuery \<Rightarrow> int" where
  "query_limit q = (let l = (if q_limit q \<le> 0 then 200 else q_limit q) in if 1000 < l then 1000 else l)"

definition Events :: "Store \<Rightarrow> EventQuery \<Rightarrow> TraceEvent list" where
  "Events s q = collect q (query_limit q) [] (st_events s)"

text \<open>The averages of \<open>Performance\<close> are computed in floating point, step by step.\<close>

definition avgSlice :: "rat list \<Rightarrow> rat" where
  "avgSlice vs = (if vs = [] then 0 else fl64 (foldl (\<lambda>sum v. fl64 (sum + v)) 0 vs / fl64 (of_nat (length vs))))"

definition error_rate :: "edgeState \<Rightarrow> rat" where
  "error_rate e =
     (let issues = es_denyCount e + es_tlsRejects e + es_errorCount e in
      if 0 < sint (es_requests e)
      then fl64 (fl64 (fl64 (of_int (sint issues)) / fl64 (of_int (sint (es_requests e)))) * 100) else 0)"

record PerformanceEdge =
  pe_source :: string
  pe_target :: string
  pe_leg :: string
  pe_requests :: "64 word"
  pe_p50_ms :: rat
  pe_p95_ms :: rat
  pe_p99_ms :: rat
  pe_min_ms :: rat
  pe_max_ms :: rat
  pe_avg_ms :: rat
  pe_bytes_in :: "64 word"
  pe_bytes_out :: "64 word"
  pe_error_rate :: rat
  pe_last_seen :: int

record PerformanceReport =
  rp_edges :: "PerformanceEdge list"
  rp_generated_at :: int

definition perf_view :: "edgeState \<Rightarrow> PerformanceEdge" where
  "perf_view e =
     \<lparr>pe_source = es_source e, pe_target = es_target e, pe_leg = es_leg e, pe_requests = es_requests e,
      pe_p50_ms = percentile (es_latencies e) P50, pe_p95_ms = percentile (es_latencies e) P95,
      pe_p99_ms = percentile (es_latencies e) P99, pe_min_ms = minSlice (es_latencies e),
      pe_max_ms = maxSlice (es_latencies e), pe_avg_ms = avgSlice (es_latencies e), pe_bytes_in = es_bytesIn e,
      pe_bytes_out = es_bytesOut e, pe_error_rate = error_rate e, pe_last_seen = es_lastSeen e\<rparr>"

definition Performance :: "Store \<Rightarrow> string list \<Rightarrow> int \<Rightarrow> PerformanceReport" where
  "Performance s edge_keys now =
     \<lparr>rp_edges = sort_key (\<lambda>e. - pe_p99_ms e) (map perf_view (values_in (st_edges s) edge_keys)), rp_generated_at = now\<rparr>"

section \<open>What a store holds, declaratively\<close>

definition tally :: "(TraceRecord \<Rightarrow> bool) \<Rightarrow> TraceRecord list \<Rightarrow> 64 word" where
  "tally P rs = of_nat (length (filter P rs))"

definition verdict_is :: "string \<Rightarrow> TraceRecord \<Rightarrow> bool" where
  "verdict_is v r \<longleftrightarrow> tr_verdict r = v"

definition allowed_record :: "TraceRecord \<Rightarrow> bool" where
  "allowed_record r \<longleftrightarrow> tr_verdict r \<notin> {''deny'', ''tls_reject'', ''error''}"

definition latencies_of :: "TraceRecord list \<Rightarrow> rat list" where
  "latencies_of rs = filter (\<lambda>l. 0 < l) (map tr_latency_ms rs)"

text \<open>The edge that the records with one key make up, oldest first.\<close>

definition edge_of :: "TraceRecord list \<Rightarrow> edgeState" where
  "edge_of rs =
     \<lparr>es_source = tr_source_service (hd rs), es_target = tr_destination_service (hd rs),
      es_clusterID = tr_cluster_id (hd rs), es_leg = tr_leg (hd rs),
      es_requests = of_nat (length rs), es_allowCount = tally allowed_record rs,
      es_denyCount = tally (verdict_is ''deny'') rs, es_tlsRejects = tally (verdict_is ''tls_reject'') rs,
      es_errorCount = tally (verdict_is ''error'') rs,
      es_lastLatencyMs = (if latencies_of rs = [] then 0 else last (latencies_of rs)),
      es_lastSeen = tr_timestamp (last rs), es_latencies = window (latencies_of rs),
      es_bytesIn = sum_list (map tr_bytes_in rs), es_bytesOut = sum_list (map tr_bytes_out rs)\<rparr>"

definition keyed :: "string \<Rightarrow> TraceRecord list \<Rightarrow> TraceRecord list" where
  "keyed k rs = filter (\<lambda>r. edge_key r = k) rs"

definition services_of :: "TraceRecord list \<Rightarrow> string set" where
  "services_of rs = tr_source_service ` set rs \<union> tr_destination_service ` set rs"

definition store_of :: "nat \<Rightarrow> TraceRecord list \<Rightarrow> Store \<Rightarrow> bool" where
  "store_of cap rs s \<longleftrightarrow>
     (\<forall>k. fmlookup (st_edges s) k = (if keyed k rs = [] then None else Some (edge_of (keyed k rs))))
     \<and> fset (fmdom (st_nodes s)) = services_of rs \<and> (\<forall>n v. fmlookup (st_nodes s) n = Some v \<longrightarrow> ns_id v = n)
     \<and> st_events s = take cap (map event_of (rev rs)) \<and> st_maxEvents s = cap
     \<and> sm_total_requests (st_summary s) = of_nat (length rs)
     \<and> sm_allowed (st_summary s) = tally allowed_record rs
     \<and> sm_denied (st_summary s) = tally (verdict_is ''deny'') rs
     \<and> sm_tls_failures (st_summary s) = tally (verdict_is ''tls_reject'') rs
     \<and> sm_errors (st_summary s) = tally (verdict_is ''error'') rs
     \<and> sm_active_edges (st_summary s) = card (edge_key ` set rs)
     \<and> sm_active_services (st_summary s) = card (services_of rs)"

lemma window_drop: "window ls = drop (length ls - LATENCY_WINDOW) ls"
  by (simp add: window_def)

lemma window_snoc: "window (window ls @ [x]) = window (ls @ [x])"
  by (cases "512 \<le> length ls") (simp_all add: window_drop LATENCY_WINDOW_def drop_append Suc_diff_le [symmetric])

lemma window_Nil [simp]: "window [] = []"
  by (simp add: window_def)

lemma tally_Nil [simp]: "tally P [] = 0"
  by (simp add: tally_def)

lemma tally_snoc [simp]: "tally P (rs @ [r]) = tally P rs + (if P r then 1 else 0)"
  by (simp add: tally_def)

lemma latencies_snoc [simp]:
  "latencies_of (rs @ [r]) = latencies_of rs @ (if 0 < tr_latency_ms r then [tr_latency_ms r] else [])"
  by (simp add: latencies_of_def)

text \<open>The edge's part of \<open>count_verdict\<close>.\<close>

definition edge_verdict :: "string \<Rightarrow> edgeState \<Rightarrow> edgeState" where
  "edge_verdict v e = snd (count_verdict v undefined e)"

lemma snd_count_verdict [simp]: "snd (count_verdict v s e) = edge_verdict v e"
  by (simp add: edge_verdict_def count_verdict_def)

lemma edge_of_snoc:
  assumes "rs \<noteq> []"
  shows "edge_verdict (tr_verdict r) (edge_traffic r (edge_of rs)) = edge_of (rs @ [r])"
  using assms
  by (auto simp: edge_verdict_def count_verdict_def edge_traffic_def edge_of_def verdict_is_def allowed_record_def window_snoc)

lemma edge_of_first: "edge_verdict (tr_verdict r) (edge_traffic r (edge_new r)) = edge_of [r]"
  using tally_snoc [of _ "[]" r] latencies_snoc [of "[]" r]
  by (auto simp: edge_verdict_def count_verdict_def edge_traffic_def edge_of_def edge_new_def verdict_is_def allowed_record_def
      latencies_of_def window_def LATENCY_WINDOW_def)

lemma count_verdict_sums:
  "sm_total_requests (fst (count_verdict v s e)) = sm_total_requests s"
  "sm_denied (fst (count_verdict v s e)) = sm_denied s + (if v = ''deny'' then 1 else 0)"
  "sm_tls_failures (fst (count_verdict v s e)) = sm_tls_failures s + (if v = ''tls_reject'' then 1 else 0)"
  "sm_errors (fst (count_verdict v s e)) = sm_errors s + (if v = ''error'' then 1 else 0)"
  "sm_allowed (fst (count_verdict v s e)) = sm_allowed s + (if v \<notin> {''deny'', ''tls_reject'', ''error''} then 1 else 0)"
  by (simp_all add: count_verdict_def)

lemma append_event_sel [simp]:
  "st_nodes (appendEventLocked s r) = st_nodes s" "st_edges (appendEventLocked s r) = st_edges s"
  "st_summary (appendEventLocked s r) = st_summary s" "st_maxEvents (appendEventLocked s r) = st_maxEvents s"
  "st_events (appendEventLocked s r) = take (st_maxEvents s) (event_of r # st_events s)"
  by (simp_all add: appendEventLocked_def Let_def)

text \<open>What \<open>AddRecord\<close> does to the parts of the store.\<close>

lemma add_record_sel:
  assumes "AddRecord now s record = (r, s')"
  shows "r = NormalizeRecord now record"
    and "st_edges s' = fmupd (edge_key r) (edge_verdict (tr_verdict r) (edge_traffic r
           (case fmlookup (st_edges s) (edge_key r) of None \<Rightarrow> edge_new r | Some e \<Rightarrow> e))) (st_edges s)"
    and "fmlookup (st_nodes s') n = (if n = tr_source_service r \<or> n = tr_destination_service r
           then Some \<lparr>ns_id = n, ns_clusterID = tr_cluster_id r\<rparr> else fmlookup (st_nodes s) n)"
    and "st_events s' = take (st_maxEvents s) (event_of r # st_events s)" and "st_maxEvents s' = st_maxEvents s"
    and "sm_total_requests (st_summary s') = sm_total_requests (st_summary s) + 1"
    and "sm_allowed (st_summary s') = sm_allowed (st_summary s) + (if allowed_record r then 1 else 0)"
    and "sm_denied (st_summary s') = sm_denied (st_summary s) + (if verdict_is ''deny'' r then 1 else 0)"
    and "sm_tls_failures (st_summary s') = sm_tls_failures (st_summary s) + (if verdict_is ''tls_reject'' r then 1 else 0)"
    and "sm_errors (st_summary s') = sm_errors (st_summary s) + (if verdict_is ''error'' r then 1 else 0)"
    and "sm_active_edges (st_summary s') = fcard (fmdom (st_edges s'))"
    and "sm_active_services (st_summary s') = fcard (fmdom (st_nodes s'))"
  using assms
  by (auto simp: AddRecord_def Let_def case_prod_beta count_verdict_sums verdict_is_def allowed_record_def)

lemma keyed_snoc: "keyed k (rs @ [r]) = keyed k rs @ (if edge_key r = k then [r] else [])"
  by (simp add: keyed_def)

lemma keyed_empty: "keyed k rs = [] \<longleftrightarrow> k \<notin> edge_key ` set rs"
  by (auto simp: keyed_def filter_empty_conv)

lemma services_snoc: "services_of (rs @ [r]) = services_of rs \<union> {tr_source_service r, tr_destination_service r}"
  by (auto simp: services_of_def)

lemma fmdom_lookup: "fset (fmdom m) = {k. \<exists>v. fmlookup m k = Some v}"
  by (auto simp: fmlookup_dom_iff)

lemma store_of_new: "store_of (st_maxEvents (store_new n)) [] (store_new n)"
  by (simp add: store_of_def store_new_def keyed_def services_of_def)

lemma store_of_add:
  assumes "store_of cap rs s" and "AddRecord now s record = (r, s')"
  shows "store_of cap (rs @ [r]) s'"
proof -
  note old = assms(1) [unfolded store_of_def]
  note sel = add_record_sel [OF assms(2)]
  let ?e = "case fmlookup (st_edges s) (edge_key r) of None \<Rightarrow> edge_new r | Some e \<Rightarrow> e"
  have edge: "edge_verdict (tr_verdict r) (edge_traffic r ?e) = edge_of (keyed (edge_key r) (rs @ [r]))"
    using old by (cases "keyed (edge_key r) rs = []") (simp_all add: keyed_snoc edge_of_snoc edge_of_first)
  have edges: "\<forall>k. fmlookup (st_edges s') k =
      (if keyed k (rs @ [r]) = [] then None else Some (edge_of (keyed k (rs @ [r]))))"
    using old unfolding sel(2) edge by (simp add: keyed_snoc)
  have services: "fset (fmdom (st_nodes s')) = services_of (rs @ [r])"
    using old by (auto simp: fmdom_lookup sel(3) services_snoc)
  have "fset (fmdom (st_edges s')) = edge_key ` set (rs @ [r])"
    using edges keyed_empty [of _ "rs @ [r]"] by (auto simp: fmdom_lookup)
  then have cards: "fcard (fmdom (st_edges s')) = card (edge_key ` set (rs @ [r]))"
    "fcard (fmdom (st_nodes s')) = card (services_of (rs @ [r]))"
    using services by (simp_all only: fcard.rep_eq)
  have nodes: "\<forall>n v. fmlookup (st_nodes s') n = Some v \<longrightarrow> ns_id v = n"
    using old by (auto simp: sel(3))
  have events: "st_events s' = take cap (map event_of (rev (rs @ [r])))"
    using old by (cases cap) (simp_all add: sel(4) min_def)
  show ?thesis
    unfolding store_of_def
    using edges services nodes events by (simp add: old sel(5-12) cards)
qed

text \<open>A run: every record with the time at which it is added; the results are the normalised records.\<close>

fun add_records :: "Store \<Rightarrow> (int \<times> TraceRecord) list \<Rightarrow> TraceRecord list \<times> Store" where
  "add_records s [] = ([], s)"
| "add_records s ((now, record) # rest) =
     (let (r, s1) = AddRecord now s record; (rs, s2) = add_records s1 rest in (r # rs, s2))"

lemma add_records_store_of: "store_of cap rs s \<Longrightarrow> add_records s ins = (out, s') \<Longrightarrow> store_of cap (rs @ out) s'"
proof (induction s ins arbitrary: rs out s' rule: add_records.induct)
  case (2 s now x rest)
  obtain r s1 where add: "AddRecord now s x = (r, s1)" by (cases "AddRecord now s x")
  obtain rs' s2 where rest: "add_records s1 rest = (rs', s2)" by (cases "add_records s1 rest")
  have "out = r # rs'" "s' = s2" using "2.prems"(2) add rest by simp_all
  with "2.IH" [OF add [symmetric] refl store_of_add [OF "2.prems"(1) add] rest] show ?case by simp
qed simp

lemma add_records_normalised: "add_records s ins = (out, s') \<Longrightarrow> out = map (\<lambda>(now, r). NormalizeRecord now r) ins"
proof (induction s ins arbitrary: out s' rule: add_records.induct)
  case (2 s now x rest)
  obtain r s1 where add: "AddRecord now s x = (r, s1)" by (cases "AddRecord now s x")
  obtain rs' s2 where rest: "add_records s1 rest = (rs', s2)" by (cases "add_records s1 rest")
  show ?case using "2.IH" [OF add [symmetric] refl rest] "2.prems" add rest add_record_sel(1) [OF add] by simp
qed simp

text \<open>
  The key does not determine its parts: records between different services share an edge when
  their names contain the separator, and the edge shows the names of the first.
\<close>

lemma edge_keys_collide:
  "edge_key (r\<lparr>tr_source_service := ''a'', tr_destination_service := ''b|c''\<rparr>) =
   edge_key (r\<lparr>tr_source_service := ''a|b'', tr_destination_service := ''c''\<rparr>)"
  by (simp add: edge_key_def)

section \<open>Views\<close>

lemma collect_filter:
  "collect q l out evs = out @ take (nat l - length out) (filter (matches q) evs)"
proof (induction q l out evs rule: collect.induct)
  case (2 q l out e evs)
  then show ?case
    by (cases "l \<le> int (length out)") (simp_all add: nat_le_iff Suc_diff_Suc take_Cons' )
qed simp

lemma events_filter: "Events s q = take (nat (query_limit q)) (filter (matches q) (st_events s))"
  by (simp add: Events_def collect_filter)

lemma query_limit_bounds: "1 \<le> query_limit q \<and> query_limit q \<le> 1000"
  by (simp add: query_limit_def Let_def)

text \<open>The index grows with the percentile, and a percentile is one of the values.\<close>

lemma percentile_index_mono:
  "(2 ^ 53 + 1) * a \<le> (2 ^ 53 - 1) * b \<Longrightarrow> percentile_index n a \<le> percentile_index n b"
  by (simp add: percentile_index_def div_le_mono round53_mono_factor)

lemma percentile_nth:
  assumes "vs \<noteq> []"
  shows "percentile vs m = sort vs ! min (percentile_index (length vs) m) (length vs - 1)"
proof -
  obtain n where "length vs = Suc n" using assms by (cases vs) simp_all
  then have "(if length vs \<le> i then length vs - 1 else i) = min i (length vs - 1)" for i by (simp add: min_def)
  then show ?thesis using assms by (simp add: percentile_def Let_def)
qed

lemma percentile_mem:
  assumes "vs \<noteq> []"
  shows "percentile vs m \<in> set vs"
proof -
  have "min (percentile_index (length vs) m) (length vs - 1) < length (sort vs)"
    using assms by (simp add: min_less_iff_disj)
  from nth_mem [OF this] show ?thesis by (simp add: percentile_nth [OF assms])
qed

lemma percentile_mono:
  assumes "(2 ^ 53 + 1) * a \<le> (2 ^ 53 - 1) * b"
  shows "percentile vs a \<le> percentile vs b"
proof -
  have "percentile_index (length vs) a \<le> percentile_index (length vs) b" by (rule percentile_index_mono [OF assms])
  then have "vs \<noteq> [] \<Longrightarrow> percentile vs a \<le> percentile vs b"
    unfolding percentile_nth by (intro sorted_nth_mono) (auto simp: min_less_iff_disj intro: min.coboundedI1)
  then show ?thesis by (cases "vs = []") (simp_all add: percentile_def)
qed

lemma percentiles_ordered: "percentile vs P50 \<le> percentile vs P95 \<and> percentile vs P95 \<le> percentile vs P99"
  by (simp add: percentile_mono P50_def P95_def P99_def)

lemma foldl_max: "foldl (\<lambda>m x. if m < x then x else m) (v::rat) vs = Max (set (v # vs))"
proof (induction vs arbitrary: v)
  case (Cons w vs)
  have "(if v < w then w else v) = max v w" by simp
  then show ?case using Cons [of "max v w"] by (simp only: foldl.simps) (cases vs; simp add: max.assoc)
qed simp

lemma foldl_min: "foldl (\<lambda>m x. if x < m then x else m) (v::rat) vs = Min (set (v # vs))"
proof (induction vs arbitrary: v)
  case (Cons w vs)
  have "(if w < v then w else v) = min v w" by simp
  then show ?case using Cons [of "min v w"] by (simp only: foldl.simps) (cases vs; simp add: min.assoc)
qed simp

lemma min_max_slice:
  "vs \<noteq> [] \<Longrightarrow> minSlice vs = Min (set vs)" "vs \<noteq> [] \<Longrightarrow> maxSlice vs = Max (set vs)"
  by (cases vs; simp add: minSlice_def maxSlice_def foldl_max foldl_min)+

lemma slices_bound_percentile: "minSlice vs \<le> percentile vs m \<and> percentile vs m \<le> maxSlice vs"
proof (cases "vs = []")
  case True
  then show ?thesis by (simp add: minSlice_def maxSlice_def percentile_def)
next
  case False
  then show ?thesis using percentile_mem [OF False, of m] by (simp add: min_max_slice)
qed

lemma in_values: "v \<in> set (values_in m ks) \<longleftrightarrow> (\<exists>k \<in> set ks. fmlookup m k = Some v)"
  unfolding values_in_def by (induction ks) (auto simp: map_filter_simps split: option.split)

lemma values_names:
  assumes "distinct ks" and "set ks = fset (fmdom m)" and "\<And>n v. fmlookup m n = Some v \<Longrightarrow> name v = n"
  shows "map name (values_in m ks) = ks"
proof -
  have "\<forall>k \<in> set ks. \<exists>v. fmlookup m k = Some v" using assms(2) by (auto simp: fmdom_lookup)
  then show ?thesis
    using assms(1,3) unfolding values_in_def by (induction ks) (fastforce simp: map_filter_simps)+
qed

lemma map_sort_key: "map f (sort_key f xs) = sort (map f xs)"
proof (rule properties_for_sort [symmetric])
  show "mset (map f (sort_key f xs)) = mset (map f xs)" by simp
qed simp

section \<open>Properties\<close>

text \<open>
  C22. The store is what its records say. After any records have been added, each edge is the summary of
  the records with its key, oldest first: their number, in total and by verdict, the last 512
  positive latencies, the time of the last one, the bytes; there is an edge for every key and a
  node for every service that occurs; the event log holds the newest records, as many as fit; the
  totals count all records ever added, by verdict, modulo 2^64, and in every edge and in the totals
  the requests are the sum of the four verdicts.
\<close>

theorem trace_store_exact:
  assumes "add_records (store_new n) ins = (out, s)"
  shows "out = map (\<lambda>(now, r). NormalizeRecord now r) ins \<and> store_of (st_maxEvents (store_new n)) out s
    \<and> sm_total_requests (st_summary s) = sm_allowed (st_summary s) + sm_denied (st_summary s)
         + sm_tls_failures (st_summary s) + sm_errors (st_summary s)
    \<and> (\<forall>k e. fmlookup (st_edges s) k = Some e \<longrightarrow>
         es_requests e = es_allowCount e + es_denyCount e + es_tlsRejects e + es_errorCount e)"
proof -
  have of: "store_of (st_maxEvents (store_new n)) out s"
    using add_records_store_of [OF store_of_new assms] by simp
  have sum: "of_nat (length rs) = tally allowed_record rs + tally (verdict_is ''deny'') rs
      + tally (verdict_is ''tls_reject'') rs + tally (verdict_is ''error'') rs" for rs
    by (induction rs rule: rev_induct) (auto simp: allowed_record_def verdict_is_def)
  have edge: "es_requests e = es_allowCount e + es_denyCount e + es_tlsRejects e + es_errorCount e"
    if "fmlookup (st_edges s) k = Some e" for k e
  proof -
    have "e = edge_of (keyed k out)" using that of by (auto simp: store_of_def split: if_splits)
    then show ?thesis by (simp add: edge_of_def sum)
  qed
  have "sm_total_requests (st_summary s) = sm_allowed (st_summary s) + sm_denied (st_summary s)
         + sm_tls_failures (st_summary s) + sm_errors (st_summary s)"
    using of by (simp add: store_of_def sum)
  then show ?thesis using add_records_normalised [OF assms] of edge by blast
qed

definition ex_trace_record :: "string \<Rightarrow> string \<Rightarrow> rat \<Rightarrow> TraceRecord" where
  "ex_trace_record dst verdict ms =
     \<lparr>tr_source_service = ''alpha'', tr_destination_service = dst, tr_cluster_id = ''dev'', tr_leg = [],
      tr_verdict = verdict, tr_latency_ms = ms, tr_tls_verified = True, tr_status_code = 200, tr_error_reason = [],
      tr_timestamp = ZERO_TIME, tr_protocol = [], tr_request_id = [], tr_source_ip = [],
      tr_dest_ip = ''10.0.2.7:8080'', tr_bytes_in = 1, tr_bytes_out = 2\<rparr>"

theorem trace_store_exact_witness:
  "\<exists>out s. add_records (store_new 10) [(5, ex_trace_record ''beta'' ''allow'' 7), (6, ex_trace_record ''beta'' ''deny'' 0)] = (out, s)
    \<and> sm_total_requests (st_summary s) = 2 \<and> sm_denied (st_summary s) = 1 \<and> length (st_events s) = 2"
proof -
  let ?ins = "[(5, ex_trace_record ''beta'' ''allow'' 7), (6, ex_trace_record ''beta'' ''deny'' 0)]"
  obtain out s where run: "add_records (store_new 10) ?ins = (out, s)" by (cases "add_records (store_new 10) ?ins")
  have trims: "trim ''allow'' = ''allow''" "trim ''deny'' = ''deny''"
    by (rule trim_graphic, simp add: graphic_def byte_def)+
  have out: "out = map (\<lambda>(now, r). NormalizeRecord now r) ?ins" and "store_of (st_maxEvents (store_new 10)) out s"
    using trace_store_exact [OF run] by blast+
  then have of: "store_of 10 out s" by (simp add: store_new_def)
  have v: "tr_verdict (out ! 0) = ''allow''" "tr_verdict (out ! 1) = ''deny''" "length out = 2"
    by (simp_all add: out NormalizeRecord_def ex_trace_record_def trims)
  then obtain a b where "out = [a, b]" by (auto simp: length_Suc_conv numeral_2_eq_2)
  with v of have "sm_total_requests (st_summary s) = 2" "sm_denied (st_summary s) = 1" "length (st_events s) = 2"
    by (simp_all add: store_of_def tally_def verdict_is_def)
  with run show ?thesis by blast
qed

text \<open>
  What the API shows. The topology lists every service once, in order, and one edge for each key
  that occurs, sorted by source and target, whose percentiles are ordered and lie between the
  smallest and the largest latency of its window; a query gives the newest events that match it, in
  order, at most as many as asked for and never more than 1000.
\<close>

theorem trace_views:
  assumes "add_records (store_new n) ins = (out, s)"
    and "iter_order (fmlookup (st_nodes s)) nks" and "iter_order (fmlookup (st_edges s)) eks"
  shows "map nd_id (tp_nodes (topology s nks eks now)) = sorted_list_of_set (services_of out)
    \<and> set (tp_edges (topology s nks eks now)) = (\<lambda>k. edge_view (edge_of (keyed k out))) ` edge_key ` set out
    \<and> length (tp_edges (topology s nks eks now)) = card (edge_key ` set out)
    \<and> sorted (map (\<lambda>e. (ed_source e, ed_target e)) (tp_edges (topology s nks eks now)))
    \<and> (\<forall>k e. fmlookup (st_edges s) k = Some e \<longrightarrow>
         minSlice (es_latencies e) \<le> ed_p50_ms (edge_view e) \<and> ed_p50_ms (edge_view e) \<le> ed_p95_ms (edge_view e)
         \<and> ed_p95_ms (edge_view e) \<le> ed_p99_ms (edge_view e) \<and> ed_p99_ms (edge_view e) \<le> maxSlice (es_latencies e))
    \<and> Events s q = take (nat (query_limit q)) (filter (matches q) (st_events s)) \<and> length (Events s q) \<le> 1000"
proof -
  have of: "store_of (st_maxEvents (store_new n)) out s" using add_records_store_of [OF store_of_new assms(1)] by simp
  have nks: "distinct nks" "set nks = services_of out"
    using assms(2) of by (auto simp: iter_order_def store_of_def fmdom_lookup dom_def)
  have names: "fmlookup (st_nodes s) m = Some v \<Longrightarrow> ns_id v = m" for m v using of by (auto simp: store_of_def)
  have "set nks = fset (fmdom (st_nodes s))" using of nks(2) by (simp add: store_of_def)
  from values_names [OF nks(1) this names]
  have "map nd_id (tp_nodes (topology s nks eks now)) = sort nks"
    by (simp add: topology_def map_sort_key o_def)
  then have nodes: "map nd_id (tp_nodes (topology s nks eks now)) = sorted_list_of_set (services_of out)"
    using nks by (metis sorted_list_of_set_sort_remdups distinct_remdups_id)
  have eks: "distinct eks" "set eks = edge_key ` set out"
    using assms(3) of keyed_empty [of _ out] by (auto simp: iter_order_def store_of_def dom_def split: if_splits)
  have look: "fmlookup (st_edges s) k = Some (edge_of (keyed k out))" if "k \<in> set eks" for k
    using of that eks(2) keyed_empty [of k out] by (simp add: store_of_def)
  have "values_in (st_edges s) ks = map (\<lambda>k. edge_of (keyed k out)) ks" if "set ks \<subseteq> set eks" for ks
    using that look unfolding values_in_def by (induction ks) (auto simp: map_filter_simps)
  then have vals: "values_in (st_edges s) eks = map (\<lambda>k. edge_of (keyed k out)) eks" by simp
  have edges: "set (tp_edges (topology s nks eks now)) = (\<lambda>k. edge_view (edge_of (keyed k out))) ` edge_key ` set out"
    "length (tp_edges (topology s nks eks now)) = card (edge_key ` set out)"
    using eks distinct_card [OF eks(1)] by (auto simp: topology_def vals)
  have "sorted (map (\<lambda>e. (ed_source e, ed_target e)) (tp_edges (topology s nks eks now)))" by (simp add: topology_def)
  moreover have "nat (query_limit q) \<le> 1000" using query_limit_bounds [of q] by (simp add: nat_le_iff)
  then have "length (Events s q) \<le> 1000" by (simp add: events_filter min.coboundedI2)
  moreover have "ed_p50_ms (edge_view e) = percentile (es_latencies e) P50" "ed_p95_ms (edge_view e) = percentile (es_latencies e) P95"
    "ed_p99_ms (edge_view e) = percentile (es_latencies e) P99" for e by (simp_all add: edge_view_def)
  ultimately show ?thesis
    using nodes edges percentiles_ordered slices_bound_percentile events_filter [of s q] by metis
qed

theorem trace_views_witness:
  "\<exists>out s. add_records (store_new 10) [(5, ex_trace_record ''beta'' ''allow'' 7)] = (out, s)
    \<and> length (Events s \<lparr>q_service = [], q_verdict = ''all'', q_limit = 0\<rparr>) \<le> 1000"
proof -
  obtain out s where run: "add_records (store_new 10) [(5, ex_trace_record ''beta'' ''allow'' 7)] = (out, s)"
    by (cases "add_records (store_new 10) [(5, ex_trace_record ''beta'' ''allow'' 7)]")
  have "\<exists>ks. iter_order (fmlookup m) ks" for m :: "(string, 'b) fmap"
    by (rule iter_order_ex) simp
  then obtain nks eks where "iter_order (fmlookup (st_nodes s)) nks" "iter_order (fmlookup (st_edges s)) eks" by metis
  from trace_views [OF run this] run show ?thesis by blast
qed

end
