(* ===== verification/Egress.thy ===== *)
theory Egress
  imports Http_Header Telemetry Tls_Config Cert_Store Policy_Cache
begin

text \<open>
  \<open>conduit/src/egress.rs\<close>: the outbound gateway. One connection is handled by
  \<open>egress_handle\<close>: it reads the request head, checks the destination against the policy and
  tunnels to the ingress peer over mutual TLS, reporting telemetry on the way. The outcomes of
  the socket and TLS calls are the parameter \<open>egress_env\<close>; the result is the trace of what the
  handler did and its \<open>Result\<close>. \<open>egress_run\<close> is the accept loop.
\<close>

section \<open>Environment and actions\<close>

record 'cfg egress_env =
  eg_read :: "io_error + bytes"
  eg_write_client :: "bytes \<Rightarrow> io_error option"
  eg_server_name :: "string \<Rightarrow> io_error option"
  eg_connect :: "string \<Rightarrow> io_error option"
  eg_handshake :: "'cfg \<Rightarrow> io_error option"
  eg_write_up :: "bytes \<Rightarrow> io_error option"
  eg_read_up :: "io_error + bytes"
  eg_copy :: "io_error option"
  eg_elapsed :: nat

datatype egress_act =
    ReadClient
  | WriteClient bytes
  | Report TelemetryRecord
  | ConnectPeer string
  | Handshake string
  | WriteUp bytes
  | ReadUp
  | CopyBidirectional

definition READ_LIMIT :: nat where "READ_LIMIT = 8192"

text \<open>A read into the buffer of 8192 bytes: at most that many bytes arrive.\<close>

definition read_buf :: "io_error + bytes \<Rightarrow> anyhow + bytes" where
  "read_buf r = (case r of Inl e \<Rightarrow> Inl (Msg e) | Inr b \<Rightarrow> Inr (take READ_LIMIT b))"

definition resp_400 :: bytes where
  "resp_400 = ''HTTP/1.1 400 Bad Request'' @ CRLF @ ''Content-Length: 0'' @ CRLF @ CRLF"

definition resp_403 :: bytes where
  "resp_403 = ''HTTP/1.1 403 Forbidden'' @ CRLF @ ''Content-Length: 0'' @ CRLF @ CRLF"

section \<open>Telemetry of a connection\<close>

definition egress_record ::
  "string \<Rightarrow> string \<Rightarrow> nat \<Rightarrow> string \<Rightarrow> bool \<Rightarrow> u16 option \<Rightarrow> string option \<Rightarrow> TelemetryRecord" where
  "egress_record cluster_id destination elapsed verdict tls code reason =
     \<lparr>source_service = ''cluster/'' @ cluster_id, destination_service = destination,
      tel_cluster_id = cluster_id, leg = ''cross_cluster'', tel_verdict = verdict,
      latency_ms = elapsed_ms elapsed, tls_verified = tls, status_code = code,
      error_reason = reason, timestamp = None\<rparr>"

definition report :: "TelemetryRecord \<Rightarrow> (egress_act, unit) act" where
  "report r = act_do (Report r) (Inr ())"

text \<open>An action whose failure is reported before it ends the handler.\<close>

definition or_report ::
  "egress_act \<Rightarrow> io_error option \<Rightarrow> (io_error \<Rightarrow> TelemetryRecord) \<Rightarrow> (egress_act, unit) act" where
  "or_report a r rec =
     (case r of
        None \<Rightarrow> act_do a (Inr ())
      | Some e \<Rightarrow> act_then (act_do a (Inr ())) (act_then (report (rec e)) (act_fail (Msg e))))"

section \<open>The handler\<close>

text \<open>From the reading of the response: lines 170 to 223.\<close>

definition egress_respond ::
  "'cfg egress_env \<Rightarrow> string \<Rightarrow> string \<Rightarrow> (egress_act, unit) act" where
  "egress_respond env cluster_id destination =
     (let rec = egress_record cluster_id destination (eg_elapsed env) in
      act_then (act_do ReadUp (Inr ()))
       (case read_buf (eg_read_up env) of
          Inl e \<Rightarrow>
            act_then (report (rec ''error'' True None (Some (''read_response_failed: '' @ err_display e))))
              (act_fail e)
        | Inr [] \<Rightarrow>
            act_then (report (rec ''error'' True None (Some ''upstream_closed_before_response'')))
              (act_fail (Msg ''upstream closed before sending a response''))
        | Inr (b # bs) \<Rightarrow>
            act_then (act_do (WriteClient (b # bs)) (io_ok (eg_write_client env (b # bs))))
             (act_then (report (rec ''allow'' True (extract_status_code (b # bs)) None))
               (act_do CopyBidirectional (io_ok (eg_copy env))))))"

text \<open>The mutual TLS connection to the peer: lines 108 to 168.\<close>

definition egress_forward ::
  "('c, 'k, 'r, 'v, 'cfg, 'sc) tls_lib \<Rightarrow> 'cfg egress_env \<Rightarrow> string \<Rightarrow> string \<Rightarrow> CertStore \<Rightarrow> string list \<Rightarrow>
   string \<Rightarrow> bytes \<Rightarrow> (egress_act, unit) act" where
  "egress_forward L env peer_addr cluster_id store ks destination header_bytes =
     (let rec = egress_record cluster_id destination (eg_elapsed env) in
      act_bind (act_of (ok_or (Msg ''no cert in store'') (cs_first_cert store ks))) (\<lambda>entry.
      act_bind (act_of (client_config L (leaf_cert_pem entry) (private_key_pem entry) (root_ca_pem entry))) (\<lambda>cfg.
      act_then (act_of (case eg_server_name env ''localhost'' of
                          None \<Rightarrow> Inr () | Some e \<Rightarrow> Inl (Msg (''invalid SNI name '' @ [CHR 0x27] @ ''localhost'' @ [CHR 0x27] @ '': '' @ e))))
      (act_then (or_report (ConnectPeer peer_addr) (eg_connect env peer_addr)
         (\<lambda>e. rec ''error'' False None (Some (''connect_failed: '' @ e))))
      (act_then (or_report (Handshake ''localhost'') (eg_handshake env cfg)
         (\<lambda>e. rec ''tls_reject'' False None (Some (''mtls_handshake_failed: '' @ e))))
      (act_then (act_do (WriteUp header_bytes) (io_ok (eg_write_up env header_bytes)))
        (egress_respond env cluster_id destination)))))))"

definition egress_handle ::
  "('c, 'k, 'r, 'v, 'cfg, 'sc) tls_lib \<Rightarrow> 'cfg egress_env \<Rightarrow> string \<Rightarrow> string \<Rightarrow> CertStore \<Rightarrow> string list \<Rightarrow>
   PolicyCache \<Rightarrow> (egress_act, unit) act" where
  "egress_handle L env peer_addr cluster_id store ks policy_cache =
     act_bind (act_do ReadClient (read_buf (eg_read env))) (\<lambda>header_bytes.
       if header_bytes = [] then act_ret ()
       else
         (case extract_host header_bytes of
            None \<Rightarrow> act_do (WriteClient resp_400) (io_ok (eg_write_client env resp_400))
          | Some destination \<Rightarrow>
              (if \<not> is_allowed_destination policy_cache destination
               then act_then (report (egress_record cluster_id destination (eg_elapsed env) ''deny'' False
                                       (Some 403) (Some ''policy_denied'')))
                      (act_do (WriteClient resp_403) (io_ok (eg_write_client env resp_403)))
               else egress_forward L env peer_addr cluster_id store ks destination header_bytes)))"

text \<open>
  The accept loop: every accepted connection is handled on its own, with the store and the
  policy of that moment; an error of a handler is only logged, an error of \<open>accept\<close> ends it.
\<close>

fun egress_accept ::
  "('c, 'k, 'r, 'v, 'cfg, 'sc) tls_lib \<Rightarrow> string \<Rightarrow> string \<Rightarrow>
   (io_error + 'cfg egress_env \<times> CertStore \<times> string list \<times> PolicyCache) list \<Rightarrow>
   (egress_act, unit) act list \<times> anyhow option" where
  "egress_accept L peer_addr cluster_id [] = ([], None)"
| "egress_accept L peer_addr cluster_id (Inl e # rest) = ([], Some (Msg e))"
| "egress_accept L peer_addr cluster_id (Inr (env, store, ks, policy) # rest) =
     (let (done, err) = egress_accept L peer_addr cluster_id rest
      in (egress_handle L env peer_addr cluster_id store ks policy # done, err))"

definition egress_run ::
  "('c, 'k, 'r, 'v, 'cfg, 'sc) tls_lib \<Rightarrow> io_error option \<Rightarrow> string \<Rightarrow> string \<Rightarrow>
   (io_error + 'cfg egress_env \<times> CertStore \<times> string list \<times> PolicyCache) list \<Rightarrow>
   (egress_act, unit) act list \<times> anyhow option" where
  "egress_run L bound peer_addr cluster_id accepts =
     (case bound of Some e \<Rightarrow> ([], Some (Msg e)) | None \<Rightarrow> egress_accept L peer_addr cluster_id accepts)"

section \<open>Traces of the handler\<close>

fun reports :: "egress_act list \<Rightarrow> TelemetryRecord list" where
  "reports [] = []"
| "reports (Report r # t) = r # reports t"
| "reports (ReadClient # t) = reports t"
| "reports (WriteClient b # t) = reports t"
| "reports (ConnectPeer a # t) = reports t"
| "reports (Handshake n # t) = reports t"
| "reports (WriteUp b # t) = reports t"
| "reports (ReadUp # t) = reports t"
| "reports (CopyBidirectional # t) = reports t"

lemma reports_append [simp]: "reports (s @ t) = reports s @ reports t"
  by (induction s rule: reports.induct) simp_all

lemmas egress_defs = act_defs report_def or_report_def egress_respond_def Let_def

text \<open>The five ways in which a response is handled.\<close>

lemma egress_respond_trace:
  "fst (egress_respond env cid d) =
     ReadUp #
     (case read_buf (eg_read_up env) of
        Inl e \<Rightarrow> [Report (egress_record cid d (eg_elapsed env) ''error'' True None
                    (Some (''read_response_failed: '' @ err_display e)))]
      | Inr b \<Rightarrow>
          if b = [] then [Report (egress_record cid d (eg_elapsed env) ''error'' True None
                            (Some ''upstream_closed_before_response''))]
          else WriteClient b #
            (if eg_write_client env b = None
             then [Report (egress_record cid d (eg_elapsed env) ''allow'' True (extract_status_code b) None),
                   CopyBidirectional]
             else []))"
  by (cases "eg_write_client env (case read_buf (eg_read_up env) of Inl e \<Rightarrow> [] | Inr b \<Rightarrow> b)")
    (auto simp: egress_defs fst_act_bind split: sum.split list.split)

text \<open>The stages of the connection to the peer, up to the first failure.\<close>

definition tls_ready ::
  "('c, 'k, 'r, 'v, 'cfg, 'sc) tls_lib \<Rightarrow> 'cfg egress_env \<Rightarrow> CertStore \<Rightarrow> string list \<Rightarrow> 'cfg option" where
  "tls_ready L env store ks =
     (case cs_first_cert store ks of None \<Rightarrow> None | Some c \<Rightarrow>
      (case client_config L (leaf_cert_pem c) (private_key_pem c) (root_ca_pem c) of
         Inl e \<Rightarrow> None
       | Inr cfg \<Rightarrow> (if eg_server_name env ''localhost'' = None then Some cfg else None)))"

lemma egress_forward_trace:
  "fst (egress_forward L env peer cid store ks d hdr) =
     (case tls_ready L env store ks of
        None \<Rightarrow> []
      | Some cfg \<Rightarrow> ConnectPeer peer #
          (case eg_connect env peer of
             Some e \<Rightarrow> [Report (egress_record cid d (eg_elapsed env) ''error'' False None
                          (Some (''connect_failed: '' @ e)))]
           | None \<Rightarrow> Handshake ''localhost'' #
               (case eg_handshake env cfg of
                  Some e \<Rightarrow> [Report (egress_record cid d (eg_elapsed env) ''tls_reject'' False None
                               (Some (''mtls_handshake_failed: '' @ e)))]
                | None \<Rightarrow> WriteUp hdr #
                    (if eg_write_up env hdr = None then fst (egress_respond env cid d) else []))))"
proof (cases "cs_first_cert store ks")
  case None
  then show ?thesis by (simp add: egress_forward_def tls_ready_def act_defs)
next
  case (Some c)
  show ?thesis
  proof (cases "client_config L (leaf_cert_pem c) (private_key_pem c) (root_ca_pem c)")
    case (Inl e)
    then show ?thesis using Some by (simp add: egress_forward_def tls_ready_def act_defs)
  next
    case (Inr cfg)
    then show ?thesis using Some
      by (cases "eg_server_name env ''localhost''"; cases "eg_connect env peer";
          cases "eg_handshake env cfg"; cases "eg_write_up env hdr")
        (simp_all add: egress_forward_def tls_ready_def act_defs or_report_def report_def Let_def)
  qed
qed

lemma egress_handle_trace:
  "fst (egress_handle L env peer cid store ks policy) =
     ReadClient #
     (case read_buf (eg_read env) of
        Inl e \<Rightarrow> []
      | Inr hdr \<Rightarrow>
          if hdr = [] then []
          else (case extract_host hdr of
                  None \<Rightarrow> [WriteClient resp_400]
                | Some d \<Rightarrow>
                    if is_allowed_destination policy d then fst (egress_forward L env peer cid store ks d hdr)
                    else [Report (egress_record cid d (eg_elapsed env) ''deny'' False (Some 403)
                            (Some ''policy_denied'')), WriteClient resp_403]))"
  by (simp add: egress_handle_def fst_act_bind act_defs report_def split: sum.split option.split)

lemma egress_record_sel [simp]:
  "source_service (egress_record cid d n v tls code reason) = ''cluster/'' @ cid"
  "destination_service (egress_record cid d n v tls code reason) = d"
  "tel_verdict (egress_record cid d n v tls code reason) = v"
  "tls_verified (egress_record cid d n v tls code reason) = tls"
  "status_code (egress_record cid d n v tls code reason) = code"
  by (simp_all add: egress_record_def)

text \<open>The destination that a connection asks for.\<close>

definition wanted :: "'cfg egress_env \<Rightarrow> string option" where
  "wanted env = (case read_buf (eg_read env) of Inl e \<Rightarrow> None | Inr hdr \<Rightarrow> extract_host hdr)"

lemma wanted_Some:
  "wanted env = Some d \<Longrightarrow> \<exists>hdr. read_buf (eg_read env) = Inr hdr \<and> hdr \<noteq> [] \<and> extract_host hdr = Some d"
  by (auto simp: wanted_def extract_host_def split: sum.splits)

lemma egress_handle_wanted:
  "fst (egress_handle L env peer cid store ks policy) =
     ReadClient #
     (case wanted env of
        None \<Rightarrow> (case read_buf (eg_read env) of Inl e \<Rightarrow> [] | Inr hdr \<Rightarrow> if hdr = [] then [] else [WriteClient resp_400])
      | Some d \<Rightarrow>
          if is_allowed_destination policy d
          then fst (egress_forward L env peer cid store ks d (case read_buf (eg_read env) of Inl e \<Rightarrow> [] | Inr hdr \<Rightarrow> hdr))
          else [Report (egress_record cid d (eg_elapsed env) ''deny'' False (Some 403)
                  (Some ''policy_denied'')), WriteClient resp_403])"
  using wanted_Some [of env]
  by (cases "wanted env") (auto simp: egress_handle_trace wanted_def split: sum.split)

lemma forward_acts:
  "a \<in> set (fst (egress_forward L env peer cid store ks d hdr)) \<Longrightarrow>
     (case a of ReadClient \<Rightarrow> False
      | ConnectPeer p \<Rightarrow> p = peer
      | WriteUp b \<Rightarrow> b = hdr \<and> (\<exists>cfg. tls_ready L env store ks = Some cfg \<and> eg_connect env peer = None
                         \<and> eg_handshake env cfg = None)
      | _ \<Rightarrow> True)"
  by (cases "tls_ready L env store ks"; cases a)
    (auto simp: egress_forward_trace egress_respond_trace split: option.splits if_splits sum.splits)

text \<open>When the peer is contacted, and what goes to it.\<close>

lemma egress_connects:
  assumes "ConnectPeer p \<in> set (fst (egress_handle L env peer cid store ks policy))"
  shows "p = peer \<and> (\<exists>d. wanted env = Some d \<and> is_allowed_destination policy d)"
  using assms
  by (auto simp: egress_handle_wanted dest!: forward_acts split: option.splits sum.splits if_splits)

lemma egress_writes:
  assumes "WriteUp b \<in> set (fst (egress_handle L env peer cid store ks policy))"
  shows "read_buf (eg_read env) = Inr b \<and> eg_connect env peer = None \<and>
    (\<exists>c cfg. cs_first_cert store ks = Some c
       \<and> client_config L (leaf_cert_pem c) (private_key_pem c) (root_ca_pem c) = Inr cfg
       \<and> eg_handshake env cfg = None)"
proof -
  obtain d hdr where hdr: "wanted env = Some d" "read_buf (eg_read env) = Inr hdr"
    and fwd: "WriteUp b \<in> set (fst (egress_forward L env peer cid store ks d hdr))"
    using assms wanted_Some [of env]
    by (auto simp: egress_handle_wanted split: option.splits sum.splits if_splits)
  from forward_acts [OF fwd] obtain cfg where "b = hdr" "eg_connect env peer = None" "eg_handshake env cfg = None"
    and ready: "tls_ready L env store ks = Some cfg" by auto
  moreover from ready obtain c where "cs_first_cert store ks = Some c"
    "client_config L (leaf_cert_pem c) (private_key_pem c) (root_ca_pem c) = Inr cfg"
    by (auto simp: tls_ready_def split: option.splits sum.splits if_splits)
  ultimately show ?thesis using hdr(2) by blast
qed

section \<open>A concrete connection\<close>

definition ex_request :: bytes where
  "ex_request = ''GET / HTTP/1.1'' @ CRLF @ ''Host: beta'' @ CRLF @ CRLF"

definition ex_env :: "bytes list egress_env" where
  "ex_env = \<lparr>eg_read = Inr ex_request, eg_write_client = (\<lambda>b. None), eg_server_name = (\<lambda>n. None),
             eg_connect = (\<lambda>a. None), eg_handshake = (\<lambda>cfg. None), eg_write_up = (\<lambda>b. None),
             eg_read_up = Inr (''HTTP/1.1 200 OK'' @ CRLF @ CRLF), eg_copy = None, eg_elapsed = 0\<rparr>"

definition ex_store :: CertStore where
  "ex_store = cs_update cs_new ''dev'' ''leaf'' ''root'' ''key''"

lemma ex_request_host: "extract_host ex_request = Some ''beta''"
proof -
  have "str_lines ex_request = [''GET / HTTP/1.1'', ''Host: beta'', []]"
    using str_lines_CRLF [of "''GET / HTTP/1.1''" "''Host: beta'' @ CRLF @ CRLF"]
      str_lines_CRLF [of "''Host: beta''" CRLF] str_lines_CRLF [of "[]" "[]"] by (simp add: ex_request_def)
  moreover have "host_in_lines ((''Host:'' @ '' '' @ (''beta'' @ []) @ []) # [[]]) = Some ''beta''"
    by (rule host_line)
      (simp_all add: to_ascii_lowercase_def lower_char_def byte_def char_of_def bit_0 is_ws1_def graphic_def)
  moreover have "from_utf8 ex_request = Some ex_request"
    by (rule from_utf8_ascii) (simp add: ex_request_def byte_def)
  ultimately show ?thesis
    by (simp add: extract_host_def starts_with_def to_ascii_lowercase_def lower_char_def byte_def
        char_of_def bit_0)
qed

lemma ex_env_read: "read_buf (eg_read ex_env) = Inr ex_request"
  by (simp add: read_buf_def ex_env_def READ_LIMIT_def ex_request_def)

lemma ex_env_sel:
  "eg_connect ex_env a = None" "eg_handshake ex_env cfg = None" "eg_write_up ex_env b = None"
  "eg_write_client ex_env b = None" "eg_elapsed ex_env = 0"
  "read_buf (eg_read_up ex_env) = Inr (''HTTP/1.1 200 OK'' @ CRLF @ CRLF)"
  by (simp_all add: ex_env_def read_buf_def READ_LIMIT_def)

lemma ex_wanted: "wanted ex_env = Some ''beta''"
  by (simp add: wanted_def ex_env_read ex_request_host)

lemma ex_ready: "tls_ready ex_lib ex_env ex_store [''dev''] = Some [''key'', ''leaf'', ''root'']"
  by (simp add: tls_ready_def ex_store_def cs_defs first_value_def client_config_def load_certs_def
      load_key_def root_store_def ex_lib_def ex_env_def)

lemma ex_trace:
  "is_allowed_destination policy ''beta'' \<Longrightarrow>
   fst (egress_handle ex_lib ex_env peer cid ex_store [''dev''] policy) =
     [ReadClient, ConnectPeer peer, Handshake ''localhost'', WriteUp ex_request, ReadUp,
      WriteClient (''HTTP/1.1 200 OK'' @ CRLF @ CRLF),
      Report (egress_record cid ''beta'' 0 ''allow'' True
        (extract_status_code (''HTTP/1.1 200 OK'' @ CRLF @ CRLF)) None),
      CopyBidirectional]"
  by (simp add: egress_handle_wanted ex_wanted egress_forward_trace ex_ready ex_env_read egress_respond_trace
      ex_env_sel)

section \<open>Properties\<close>

text \<open>
  C33. Policy enforcement of the gateway: the peer is contacted, and request bytes leave the
  cluster, only for a connection whose Host names a destination that the policy permits; a
  connection for any other destination is answered with 403, reported as denied, and nothing else
  is done for it.
\<close>

theorem egress_contacts_only_permitted:
  "(case wanted env of
      Some d \<Rightarrow> is_allowed_destination policy d \<or>
        fst (egress_handle L env peer cid store ks policy) =
          [ReadClient, Report (egress_record cid d (eg_elapsed env) ''deny'' False (Some 403) (Some ''policy_denied'')),
           WriteClient resp_403]
    | None \<Rightarrow> set (fst (egress_handle L env peer cid store ks policy)) \<subseteq> {ReadClient, WriteClient resp_400}) \<and>
   (ConnectPeer p \<in> set (fst (egress_handle L env peer cid store ks policy)) \<longrightarrow>
      p = peer \<and> (\<exists>d. wanted env = Some d \<and> is_allowed_destination policy d))"
proof
  show "case wanted env of
      Some d \<Rightarrow> is_allowed_destination policy d \<or>
        fst (egress_handle L env peer cid store ks policy) =
          [ReadClient, Report (egress_record cid d (eg_elapsed env) ''deny'' False (Some 403) (Some ''policy_denied'')),
           WriteClient resp_403]
    | None \<Rightarrow> set (fst (egress_handle L env peer cid store ks policy)) \<subseteq> {ReadClient, WriteClient resp_400}"
    by (auto simp: egress_handle_wanted split: option.split sum.splits if_splits)
  show "ConnectPeer p \<in> set (fst (egress_handle L env peer cid store ks policy)) \<longrightarrow>
      p = peer \<and> (\<exists>d. wanted env = Some d \<and> is_allowed_destination policy d)"
    using egress_connects by blast
qed

text \<open>
  Confidentiality of the tunnel: request bytes are written upstream only after the TCP
  connection to the peer and the TLS handshake, with the configuration built from a certificate
  of the store, have succeeded, and they are exactly the bytes that were read and checked.
\<close>

theorem egress_sends_only_over_tls:
  assumes "WriteUp b \<in> set (fst (egress_handle L env peer cid store ks policy))"
  shows "read_buf (eg_read env) = Inr b \<and> eg_connect env peer = None \<and>
    (\<exists>c cfg. c \<in> ran (certs store)
       \<and> client_config L (leaf_cert_pem c) (private_key_pem c) (root_ca_pem c) = Inr cfg
       \<and> eg_handshake env cfg = None)"
  using egress_writes [OF assms] cs.first_entry [of store ks] by blast

theorem egress_contacts_only_permitted_witness:
  "\<exists>d. wanted ex_env = Some d \<and>
     is_allowed_destination \<lparr>rules = [\<lparr>from_service = ''alpha'', to_services = [''beta'']\<rparr>], default_allow = False,
       mtls_mode = ''enforce''\<rparr> d"
proof -
  let ?policy = "\<lparr>rules = [\<lparr>from_service = ''alpha'', to_services = [''beta'']\<rparr>], default_allow = False,
       mtls_mode = ''enforce''\<rparr>"
  have "is_allowed_destination ?policy ''beta''" by (simp add: is_allowed_destination_def)
  then have "ConnectPeer ''peer:443'' \<in> set (fst (egress_handle ex_lib ex_env ''peer:443'' ''dev'' ex_store [''dev''] ?policy))"
    by (simp add: ex_trace)
  with egress_contacts_only_permitted [where env = ex_env and policy = ?policy and L = ex_lib and peer = "''peer:443''"
      and cid = "''dev''" and store = ex_store and ks = "[''dev'']" and p = "''peer:443''"]
  show ?thesis by blast
qed

theorem egress_sends_only_over_tls_witness:
  "read_buf (eg_read ex_env) = Inr ex_request \<and> eg_connect ex_env ''peer:443'' = None"
proof -
  have "WriteUp ex_request \<in> set (fst (egress_handle ex_lib ex_env ''peer:443'' ''dev'' ex_store [''dev''] pc_new))"
    by (simp add: ex_trace is_allowed_destination_def pc_new_def)
  from egress_sends_only_over_tls [OF this] show ?thesis by blast
qed

text \<open>
  C35. Telemetry of the gateway tells the truth: a connection is reported at most once, for the
  destination it asked for; the verdict is \<open>deny\<close> exactly when the policy refuses the
  destination and \<open>allow\<close> exactly when a response was relayed and the tunnel opened, and
  \<open>tls_verified\<close> is set exactly when the handshake succeeded and the request went out.
\<close>

theorem egress_telemetry_truthful:
  "length (reports (fst (egress_handle L env peer cid store ks policy))) \<le> 1 \<and>
   (\<forall>r \<in> set (reports (fst (egress_handle L env peer cid store ks policy))).
      source_service r = ''cluster/'' @ cid \<and> wanted env = Some (destination_service r)
      \<and> (tel_verdict r = ''deny'' \<longleftrightarrow> \<not> is_allowed_destination policy (destination_service r))
      \<and> (tel_verdict r = ''allow'' \<longleftrightarrow> CopyBidirectional \<in> set (fst (egress_handle L env peer cid store ks policy)))
      \<and> (tls_verified r \<longleftrightarrow> (\<exists>b. WriteUp b \<in> set (fst (egress_handle L env peer cid store ks policy)))))"
proof (cases "wanted env")
  case None
  then show ?thesis by (auto simp: egress_handle_wanted split: sum.split)
next
  case (Some d)
  show ?thesis
  proof (cases "is_allowed_destination policy d")
    case False
    then show ?thesis using Some by (simp add: egress_handle_wanted)
  next
    case True
    then show ?thesis using Some
      by (auto simp: egress_handle_wanted egress_forward_trace egress_respond_trace
          split: option.split sum.split)
  qed
qed

theorem egress_telemetry_truthful_witness:
  "tls_verified (hd (reports (fst (egress_handle ex_lib ex_env ''peer:443'' ''dev'' ex_store [''dev''] pc_new))))"
proof -
  let ?acts = "fst (egress_handle ex_lib ex_env ''peer:443'' ''dev'' ex_store [''dev''] pc_new)"
  have "hd (reports ?acts) \<in> set (reports ?acts)" and "WriteUp ex_request \<in> set ?acts"
    by (simp_all add: ex_trace is_allowed_destination_def pc_new_def)
  then show ?thesis
    using egress_telemetry_truthful [where env = ex_env and policy = pc_new and L = ex_lib and peer = "''peer:443''"
        and cid = "''dev''" and store = ex_store and ks = "[''dev'']"] by blast
qed

end
