(* ===== verification/Ingress.thy ===== *)
theory Ingress
  imports Http_Header Telemetry Tls_Config Cert_Store
begin

text \<open>
  \<open>conduit/src/ingress.rs\<close>: the inbound gateway. \<open>ingress_handle\<close> completes the mutual TLS
  handshake, reads the request head, connects to the backend named by the Host header and
  tunnels; \<open>ingress_connection\<close> adds the telemetry record of a failure; \<open>ingress_run\<close> builds the
  TLS configuration and accepts. The outcomes of the calls are the parameter \<open>ingress_env\<close>.
\<close>

section \<open>Environment and actions\<close>

record 'cfg ingress_env =
  ig_accept :: "'cfg \<Rightarrow> io_error option"
  ig_read :: "io_error + bytes"
  ig_write_client :: "bytes \<Rightarrow> io_error option"
  ig_connect :: "string \<Rightarrow> io_error option"
  ig_write_back :: "bytes \<Rightarrow> io_error option"
  ig_copy :: "io_error option"

datatype ingress_act =
    AcceptTls
  | ReadTls
  | WriteTls bytes
  | ConnectBackend string
  | WriteBackend bytes
  | CopyBackend

definition INGRESS_READ_LIMIT :: nat where "INGRESS_READ_LIMIT = 8192"

definition ingress_read_buf :: "io_error + bytes \<Rightarrow> anyhow + bytes" where
  "ingress_read_buf r = (case r of Inl e \<Rightarrow> Inl (Msg e) | Inr b \<Rightarrow> Inr (take INGRESS_READ_LIMIT b))"

definition ingress_resp_400 :: bytes where
  "ingress_resp_400 = ''HTTP/1.1 400 Bad Request'' @ CRLF @ ''Content-Length: 0'' @ CRLF @ CRLF"

section \<open>The handler\<close>

text \<open>The copy of \<open>extract_host\<close> in \<open>ingress.rs\<close>.\<close>

fun ingress_host_in_lines :: "string list \<Rightarrow> string option" where
  "ingress_host_in_lines [] = None"
| "ingress_host_in_lines (line # rest) =
     (if starts_with (to_ascii_lowercase line) ''host:''
      then (let host = split_first (CHR '':'') (trim (drop (length ''host:'') line)) in
            if host \<noteq> [] then Some host else ingress_host_in_lines rest)
      else ingress_host_in_lines rest)"

definition ingress_extract_host :: "bytes \<Rightarrow> string option" where
  "ingress_extract_host raw =
     (case from_utf8 raw of None \<Rightarrow> None | Some text \<Rightarrow> ingress_host_in_lines (str_lines text))"

definition backend_addr :: "string \<Rightarrow> string \<Rightarrow> u16 \<Rightarrow> string" where
  "backend_addr host svc_domain_suffix svc_port =
     (if CHR ''.'' \<in> set host then host @ '':'' @ dec_string (unat svc_port)
      else host @ svc_domain_suffix @ '':'' @ dec_string (unat svc_port))"

definition ingress_handle :: "'cfg ingress_env \<Rightarrow> 'cfg \<Rightarrow> string \<Rightarrow> u16 \<Rightarrow> (ingress_act, unit) act" where
  "ingress_handle env acceptor svc_domain_suffix svc_port =
     act_then (act_do AcceptTls (io_ok (ig_accept env acceptor)))
     (act_bind (act_do ReadTls (ingress_read_buf (ig_read env))) (\<lambda>header_bytes.
       if header_bytes = [] then act_ret ()
       else
         (case ingress_extract_host header_bytes of
            None \<Rightarrow> act_do (WriteTls ingress_resp_400) (io_ok (ig_write_client env ingress_resp_400))
          | Some host \<Rightarrow>
              (let addr = backend_addr host svc_domain_suffix svc_port in
               act_then (act_do (ConnectBackend addr)
                          (case ig_connect env addr of
                             None \<Rightarrow> Inr ()
                           | Some e \<Rightarrow> Inl (Msg (''connect to backend '' @ addr @ '': '' @ e))))
               (act_then (act_do (WriteBackend header_bytes) (io_ok (ig_write_back env header_bytes)))
                 (act_do CopyBackend (io_ok (ig_copy env))))))))"

section \<open>Telemetry and the accept loop\<close>

definition ingress_verdict :: "string \<Rightarrow> string" where
  "ingress_verdict msg =
     (if str_contains msg ''certificate'' \<or> str_contains msg ''alert'' then ''tls_reject'' else ''error'')"

definition ingress_record :: "string \<Rightarrow> string \<Rightarrow> TelemetryRecord" where
  "ingress_record cluster_id msg =
     \<lparr>source_service = ''remote/'' @ cluster_id, destination_service = ''unknown'',
      tel_cluster_id = cluster_id, leg = ''cross_cluster'', tel_verdict = ingress_verdict msg,
      latency_ms = 0, tls_verified = False, status_code = None,
      error_reason = Some msg, timestamp = None\<rparr>"

definition ingress_connection ::
  "'cfg ingress_env \<Rightarrow> 'cfg \<Rightarrow> string \<Rightarrow> string \<Rightarrow> u16 \<Rightarrow> ingress_act list \<times> TelemetryRecord option" where
  "ingress_connection env acceptor cluster_id svc_domain_suffix svc_port =
     (case ingress_handle env acceptor svc_domain_suffix svc_port of
        (t, Inr ok) \<Rightarrow> (t, None)
      | (t, Inl e) \<Rightarrow> (t, Some (ingress_record cluster_id (err_display e))))"

fun ingress_accept ::
  "'cfg \<Rightarrow> string \<Rightarrow> string \<Rightarrow> u16 \<Rightarrow> (io_error + 'cfg ingress_env) list \<Rightarrow>
   (ingress_act list \<times> TelemetryRecord option) list \<times> anyhow option" where
  "ingress_accept acceptor cid sfx port [] = ([], None)"
| "ingress_accept acceptor cid sfx port (Inl e # rest) = ([], Some (Msg e))"
| "ingress_accept acceptor cid sfx port (Inr env # rest) =
     (let (done, err) = ingress_accept acceptor cid sfx port rest in (ingress_connection env acceptor cid sfx port # done, err))"

definition ingress_run ::
  "('c, 'k, 'r, 'v, 'cc, 'cfg) tls_lib \<Rightarrow> CertStore \<Rightarrow> string list \<Rightarrow> io_error option \<Rightarrow> string \<Rightarrow> string \<Rightarrow> u16 \<Rightarrow>
   (io_error + 'cfg ingress_env) list \<Rightarrow>
   (ingress_act list \<times> TelemetryRecord option) list \<times> anyhow option" where
  "ingress_run L store ks bound cluster_id svc_domain_suffix svc_port accepts =
     (case ok_or (Msg ''no cert in store for ingress TLS'') (cs_first_cert store ks) of
        Inl e \<Rightarrow> ([], Some e)
      | Inr entry \<Rightarrow>
          (case server_config L (leaf_cert_pem entry) (private_key_pem entry) (root_ca_pem entry) of
             Inl e \<Rightarrow> ([], Some e)
           | Inr cfg \<Rightarrow>
               (case bound of
                  Some e \<Rightarrow> ([], Some (Msg e))
                | None \<Rightarrow> ingress_accept cfg cluster_id svc_domain_suffix svc_port accepts)))"

section \<open>Traces of the handler\<close>

lemma ingress_host_in_lines_eq [simp]: "ingress_host_in_lines ls = host_in_lines ls"
  by (induction ls) (simp_all add: Let_def)

lemma ingress_extract_host_eq: "ingress_extract_host raw = extract_host raw"
  by (simp add: ingress_extract_host_def extract_host_def split: option.split)

lemma ingress_handle_cases:
  "ingress_handle env acceptor sfx port =
     (case ig_accept env acceptor of
        Some e \<Rightarrow> ([AcceptTls], Inl (Msg e))
      | None \<Rightarrow>
        (case ingress_read_buf (ig_read env) of
           Inl e \<Rightarrow> ([AcceptTls, ReadTls], Inl e)
         | Inr hdr \<Rightarrow>
             if hdr = [] then ([AcceptTls, ReadTls], Inr ())
             else (case extract_host hdr of
                     None \<Rightarrow> ([AcceptTls, ReadTls, WriteTls ingress_resp_400], io_ok (ig_write_client env ingress_resp_400))
                   | Some h \<Rightarrow>
                       (case ig_connect env (backend_addr h sfx port) of
                          Some e \<Rightarrow> ([AcceptTls, ReadTls, ConnectBackend (backend_addr h sfx port)],
                             Inl (Msg (''connect to backend '' @ backend_addr h sfx port @ '': '' @ e)))
                        | None \<Rightarrow>
                            (case ig_write_back env hdr of
                               Some e \<Rightarrow> ([AcceptTls, ReadTls, ConnectBackend (backend_addr h sfx port),
                                          WriteBackend hdr], Inl (Msg e))
                             | None \<Rightarrow> ([AcceptTls, ReadTls, ConnectBackend (backend_addr h sfx port),
                                        WriteBackend hdr, CopyBackend], io_ok (ig_copy env)))))))"
  by (simp add: ingress_handle_def act_defs ingress_extract_host_eq Let_def
      split: option.split sum.split)

section \<open>Properties\<close>

text \<open>
  Routing of the inbound gateway: a backend is contacted only after the mutual TLS handshake
  succeeded; it is the Host of the request with the configured port, and with the service domain
  appended exactly when the Host has no dot; and the bytes it gets are the bytes that were read.
  No other check is made: every host a peer names is contacted.
\<close>

theorem ingress_routes_host:
  "(ConnectBackend a \<in> set (fst (ingress_handle env acceptor sfx port)) \<longleftrightarrow>
      ig_accept env acceptor = None \<and> (\<exists>hdr h. ingress_read_buf (ig_read env) = Inr hdr \<and> ingress_extract_host hdr = Some h
        \<and> a = (if CHR ''.'' \<in> set h then h else h @ sfx) @ '':'' @ dec_string (unat port))) \<and>
   (WriteBackend b \<in> set (fst (ingress_handle env acceptor sfx port)) \<longrightarrow> ingress_read_buf (ig_read env) = Inr b)"
proof -
  have "extract_host [] = None" by (simp add: extract_host_def)
  then show ?thesis
    by (auto simp: ingress_handle_cases ingress_extract_host_eq backend_addr_def
        split: option.split sum.split if_splits)
qed

definition ex_in_env :: "unit ingress_env" where
  "ex_in_env = \<lparr>ig_accept = (\<lambda>cfg. None), ig_read = Inr (''Host: alertmanager'' @ CRLF), ig_write_client = (\<lambda>b. None),
                ig_connect = (\<lambda>a. Some ''Connection refused''), ig_write_back = (\<lambda>b. None), ig_copy = None\<rparr>"

lemma ex_in_host:
  "ingress_read_buf (ig_read ex_in_env) = Inr (''Host: alertmanager'' @ CRLF)"
  "extract_host (''Host: alertmanager'' @ CRLF) = Some ''alertmanager''"
proof -
  show "ingress_read_buf (ig_read ex_in_env) = Inr (''Host: alertmanager'' @ CRLF)"
    by (simp add: ingress_read_buf_def ex_in_env_def INGRESS_READ_LIMIT_def)
  have "str_lines (''Host: alertmanager'' @ CRLF) = [''Host: alertmanager'']"
    using str_lines_CRLF [of "''Host: alertmanager''" "[]"] by simp
  moreover have "host_in_lines [''Host:'' @ '' '' @ (''alertmanager'' @ []) @ []] = Some ''alertmanager''"
    by (rule host_line)
      (simp_all add: to_ascii_lowercase_def lower_char_def byte_def char_of_def bit_0 is_ws1_def graphic_def)
  moreover have "from_utf8 (''Host: alertmanager'' @ CRLF) = Some (''Host: alertmanager'' @ CRLF)"
    by (rule from_utf8_ascii) (simp add: byte_def)
  ultimately show "extract_host (''Host: alertmanager'' @ CRLF) = Some ''alertmanager''"
    by (simp add: extract_host_def)
qed

theorem ingress_routes_host_witness:
  "ConnectBackend ''alertmanager.ns.svc:8080'' \<in> set (fst (ingress_handle ex_in_env () ''.ns.svc'' 8080))"
proof -
  have "dec_string 8080 = ''8080''"
    by (simp add: dec_string.simps digit_char_def char_of_def bit_0)
  then show ?thesis
    using ex_in_host
    by (subst ingress_routes_host [THEN conjunct1]) (simp add: ex_in_env_def ingress_extract_host_eq)
qed

text \<open>
  Reporting of the inbound gateway: a connection is reported exactly when its handler fails,
  with the message of the failure, never as TLS-verified, and as \<open>tls_reject\<close> exactly when the
  message contains \<open>certificate\<close> or \<open>alert\<close>. The message of a failed connection to a backend
  contains the backend's name, so the failure of a service such as \<open>alertmanager\<close> is reported as
  a TLS rejection although the handshake succeeded.
\<close>

theorem ingress_reports_failures:
  "(case snd (ingress_handle env acceptor sfx port) of
      Inr u \<Rightarrow> snd (ingress_connection env acceptor cid sfx port) = None
    | Inl e \<Rightarrow> (\<exists>r. snd (ingress_connection env acceptor cid sfx port) = Some r
        \<and> error_reason r = Some (err_display e) \<and> \<not> tls_verified r
        \<and> tel_verdict r = (if str_contains (err_display e) ''certificate'' \<or> str_contains (err_display e) ''alert''
                           then ''tls_reject'' else ''error''))) \<and>
   (ig_accept env acceptor = None \<and> ingress_read_buf (ig_read env) = Inr hdr \<and> ingress_extract_host hdr = Some h
      \<and> sublist ''alert'' h \<and> ig_connect env (backend_addr h sfx port) = Some err \<longrightarrow>
      map_option tel_verdict (snd (ingress_connection env acceptor cid sfx port)) = Some ''tls_reject'')"
proof (intro conjI impI)
  show "case snd (ingress_handle env acceptor sfx port) of
      Inr u \<Rightarrow> snd (ingress_connection env acceptor cid sfx port) = None
    | Inl e \<Rightarrow> (\<exists>r. snd (ingress_connection env acceptor cid sfx port) = Some r
        \<and> error_reason r = Some (err_display e) \<and> \<not> tls_verified r
        \<and> tel_verdict r = (if str_contains (err_display e) ''certificate'' \<or> str_contains (err_display e) ''alert''
                           then ''tls_reject'' else ''error''))"
  proof (cases "ingress_handle env acceptor sfx port")
    case (Pair t res)
    then show ?thesis
      by (cases res) (simp_all add: ingress_connection_def ingress_record_def ingress_verdict_def)
  qed
  assume h: "ig_accept env acceptor = None \<and> ingress_read_buf (ig_read env) = Inr hdr \<and> ingress_extract_host hdr = Some h
      \<and> sublist ''alert'' h \<and> ig_connect env (backend_addr h sfx port) = Some err"
  then have "hdr \<noteq> []" by (auto simp: ingress_extract_host_def)
  have "sublist h (''connect to backend '' @ h @ z)" for z
    by (rule sublist_appendI)
  then have "sublist ''alert'' (''connect to backend '' @ h @ z)" for z
    using h sublist_order.order_trans by blast
  then have "str_contains (''connect to backend '' @ backend_addr h sfx port @ '': '' @ err) ''alert''"
    by (simp add: str_contains_iff backend_addr_def)
  with h \<open>hdr \<noteq> []\<close> show "map_option tel_verdict (snd (ingress_connection env acceptor cid sfx port)) = Some ''tls_reject''"
    by (simp add: ingress_connection_def ingress_handle_cases ingress_extract_host_eq ingress_record_def
        ingress_verdict_def del: append.simps)
qed

theorem ingress_reports_failures_witness:
  "map_option tel_verdict (snd (ingress_connection ex_in_env () ''dev'' ''.ns.svc'' 8080)) = Some ''tls_reject''"
proof -
  have env: "ig_accept ex_in_env () = None" "ig_connect ex_in_env a = Some ''Connection refused''" for a
    by (simp_all add: ex_in_env_def)
  have sub: "sublist ''alert'' ''alertmanager''" by (simp add: sublist_code)
  have host: "ingress_extract_host (''Host: alertmanager'' @ CRLF) = Some ''alertmanager''"
    by (simp only: ingress_extract_host_eq ex_in_host(2))
  show ?thesis
    by (rule ingress_reports_failures [THEN conjunct2, rule_format, where hdr = "''Host: alertmanager'' @ CRLF"
          and h = "''alertmanager''" and err = "''Connection refused''"])
      (intro conjI env ex_in_host(1) host sub)
qed

end
