(* ===== verification/Perf_Events.thy ===== *)
theory Perf_Events
  imports Pod_Watcher Ebpf_Egress Telemetry
begin

text \<open>
  The perf-event readers of \<open>kprobe/kprobe-userspace/src/main.rs\<close>: every record the kernel
  program emits becomes an \<open>[INTERCEPT]\<close> line and, when one of its addresses belongs to a known
  service, a telemetry record. A slot is the list of its bytes; the two look-ups of a record lock
  the pod snapshot separately, so each has its own view (the snapshot and the order in which its
  keys are visited).
\<close>

type_synonym pod_view = "PodSnapshot \<times> string list"

section \<open>Resolving an address\<close>

fun resolve_in :: "PodSnapshot \<Rightarrow> string list \<Rightarrow> Ipv4Addr \<Rightarrow> string" where
  "resolve_in snap [] ip = ''unknown''"
| "resolve_in snap (service # rest) ip =
     (case snap service of
        Some ips \<Rightarrow> (if list_ex (\<lambda>candidate. candidate = ip) ips then service else resolve_in snap rest ip)
      | None \<Rightarrow> resolve_in snap rest ip)"

definition resolve_service :: "pod_view \<Rightarrow> Ipv4Addr \<Rightarrow> string" where
  "resolve_service view ip = resolve_in (fst view) (snd view) ip"

section \<open>Reporting a record\<close>

definition intercept_line :: "Ipv4Addr \<Rightarrow> u16 \<Rightarrow> Ipv4Addr \<Rightarrow> u16 \<Rightarrow> string \<Rightarrow> string \<Rightarrow> string" where
  "intercept_line src sport dst dport proto verdict =
     ''[INTERCEPT] src='' @ ipv4_display src @ '':'' @ dec_string (unat sport)
     @ '' dst='' @ ipv4_display dst @ '':'' @ dec_string (unat dport)
     @ '' proto='' @ proto @ '' verdict='' @ verdict"

definition intercept_record :: "string \<Rightarrow> string \<Rightarrow> string \<Rightarrow> u8 \<Rightarrow> TelemetryRecord" where
  "intercept_record cluster source dest verdict =
     \<lparr>source_service = source, destination_service = dest, tel_cluster_id = cluster,
      leg = ''intra_cluster'', tel_verdict = (if verdict = 0 then ''allow'' else ''deny''),
      latency_ms = 0, tls_verified = (verdict = 0), status_code = (if verdict = 0 then Some 200 else None),
      error_reason = (if verdict = 0 then None else Some ''policy_denied''), timestamp = None\<rparr>"

definition proto_name :: "u8 \<Rightarrow> string option" where
  "proto_name p = (if p = 6 then Some ''TCP'' else if p = 17 then Some ''UDP'' else None)"

definition in_cluster_net :: "Ipv4Addr \<Rightarrow> bool" where
  "in_cluster_net ip = (octets ip ! 0 = 10 \<and> octets ip ! 1 = 244)"

text \<open>The lines printed and the telemetry emitted for one slot; undersized slots are skipped.\<close>

definition handle_slot ::
  "endian \<Rightarrow> string \<Rightarrow> pod_view \<Rightarrow> pod_view \<Rightarrow> u8 list \<Rightarrow> string list \<times> TelemetryRecord list" where
  "handle_slot e cluster src_view dst_view slot =
     (case log_of_bytes e slot of
        None \<Rightarrow> ([], [])
      | Some l \<Rightarrow>
          (let src = ipv4_from (from_be32 e (pl_src_ip l)); dst = ipv4_from (from_be32 e (pl_dst_ip l)) in
           case proto_name (pl_proto l) of
             None \<Rightarrow> ([], [])
           | Some proto \<Rightarrow>
               (let verdict = (if pl_verdict l = 0 then ''ALLOW'' else ''DENY'') in
                if in_cluster_net src \<or> in_cluster_net dst then
                  (let source = resolve_service src_view src; dest = resolve_service dst_view dst in
                   ([intercept_line src (pl_src_port l) dst (pl_dst_port l) proto verdict],
                    if source \<noteq> ''unknown'' \<or> dest \<noteq> ''unknown''
                    then [intercept_record cluster source dest (pl_verdict l)] else []))
                else ([], []))))"

text \<open>
  The loop of one reader: every successful read yields a number of events and the buffers; a
  failed read stops the reader.
\<close>

fun handle_slots ::
  "endian \<Rightarrow> string \<Rightarrow> (pod_view \<times> pod_view \<times> u8 list) list \<Rightarrow> string list \<times> TelemetryRecord list" where
  "handle_slots e cluster [] = ([], [])"
| "handle_slots e cluster ((v, w, slot) # rest) =
     (case handle_slot e cluster v w slot of (ls, ts) \<Rightarrow>
      (case handle_slots e cluster rest of (ls', ts') \<Rightarrow> (ls @ ls', ts @ ts')))"

fun perf_reader ::
  "endian \<Rightarrow> string \<Rightarrow> (io_error + nat \<times> (pod_view \<times> pod_view \<times> u8 list) list) list \<Rightarrow>
   string list \<times> TelemetryRecord list" where
  "perf_reader e cluster [] = ([], [])"
| "perf_reader e cluster (Inl err # reads) = ([], [])"
| "perf_reader e cluster (Inr (n, buffers) # reads) =
     (case handle_slots e cluster (take n buffers) of (ls, ts) \<Rightarrow>
      (case perf_reader e cluster reads of (ls', ts') \<Rightarrow> (ls @ ls', ts @ ts')))"

section \<open>Behaviour\<close>

lemma in_cluster_net_cidr [simp]: "in_cluster_net ip = in_pod_cidr ip"
  by (cases ip) (simp add: in_cluster_net_def in_pod_cidr_def)

lemma resolve_in_found:
  assumes "\<And>svc ips. snap svc = Some ips \<Longrightarrow> ip \<in> set ips \<Longrightarrow> svc = s" and "snap s = Some ips0" "ip \<in> set ips0"
    and "s \<in> set ks"
  shows "resolve_in snap ks ip = s"
  using assms(4)
proof (induction ks)
  case (Cons k ks)
  show ?case
  proof (cases "k = s")
    case True
    then show ?thesis using assms(2,3) by (simp add: list_ex_iff)
  next
    case False
    then show ?thesis using Cons assms(1) [of k] by (auto simp: list_ex_iff split: option.splits)
  qed
qed simp

lemma resolve_in_unknown:
  "(\<And>svc ips. snap svc = Some ips \<Longrightarrow> ip \<notin> set ips) \<Longrightarrow> resolve_in snap ks ip = ''unknown''"
  by (induction ks) (auto simp: list_ex_iff split: option.splits)

text \<open>The result is always a service that has the address, or unknown.\<close>

lemma resolve_in_cases:
  "resolve_in snap ks ip = ''unknown'' \<or> (\<exists>ips. snap (resolve_in snap ks ip) = Some ips \<and> ip \<in> set ips)"
  by (induction ks) (auto simp: list_ex_iff split: option.splits)

lemma handle_slot_log:
  "handle_slot e cluster v w (log_to_bytes e pad l @ extra) =
     (let src = ipv4_from (from_be32 e (pl_src_ip l)); dst = ipv4_from (from_be32 e (pl_dst_ip l)) in
      case proto_name (pl_proto l) of
        None \<Rightarrow> ([], [])
      | Some proto \<Rightarrow>
          (if in_cluster_net src \<or> in_cluster_net dst then
             ([intercept_line src (pl_src_port l) dst (pl_dst_port l) proto
                 (if pl_verdict l = 0 then ''ALLOW'' else ''DENY'')],
              if resolve_service v src \<noteq> ''unknown'' \<or> resolve_service w dst \<noteq> ''unknown''
              then [intercept_record cluster (resolve_service v src) (resolve_service w dst) (pl_verdict l)] else [])
           else ([], [])))"
  by (simp add: handle_slot_def log_of_to_bytes Let_def split: option.split)

section \<open>Properties\<close>

text \<open>
  Resolving an address does not depend on the order of the map: when no two services share
  an address, the result is the service of the address, and \<open>unknown\<close> for an address of no
  service; in any case a result other than \<open>unknown\<close> is a service that has the address.
\<close>

theorem resolve_service_correct:
  assumes "iter_order pods ks"
  shows "(resolve_service (pods, ks) ip = ''unknown''
      \<or> (\<exists>ips. pods (resolve_service (pods, ks) ip) = Some ips \<and> ip \<in> set ips)) \<and>
    ((\<forall>svc ips. pods svc = Some ips \<longrightarrow> ip \<notin> set ips) \<longrightarrow> resolve_service (pods, ks) ip = ''unknown'') \<and>
    (pods s = Some ips \<and> ip \<in> set ips \<and> (\<forall>t its. pods t = Some its \<and> ip \<in> set its \<longrightarrow> t = s) \<longrightarrow>
      resolve_service (pods, ks) ip = s)"
proof (intro conjI impI)
  show "resolve_service (pods, ks) ip = ''unknown''
      \<or> (\<exists>ips. pods (resolve_service (pods, ks) ip) = Some ips \<and> ip \<in> set ips)"
    unfolding resolve_service_def fst_conv snd_conv by (rule resolve_in_cases)
  show "resolve_service (pods, ks) ip = ''unknown''" if "\<forall>svc ips. pods svc = Some ips \<longrightarrow> ip \<notin> set ips"
    unfolding resolve_service_def fst_conv snd_conv using that by (intro resolve_in_unknown) blast
  assume *: "pods s = Some ips \<and> ip \<in> set ips \<and> (\<forall>t its. pods t = Some its \<and> ip \<in> set its \<longrightarrow> t = s)"
  then have "s \<in> set ks" using assms by (auto simp: iter_order_mem)
  then show "resolve_service (pods, ks) ip = s"
    unfolding resolve_service_def fst_conv snd_conv using * by (intro resolve_in_found [of pods ip s ips ks]) blast+
qed

theorem resolve_service_correct_witness:
  "resolve_service ([''beta'' \<mapsto> [Ipv4Addr 10 244 2 7]], [''beta'']) (Ipv4Addr 10 244 2 7) = ''beta''"
proof -
  let ?pods = "[''beta'' \<mapsto> [Ipv4Addr 10 244 2 7]]"
  have o: "iter_order ?pods [''beta'']" by (simp add: iter_order_def)
  have u: "\<forall>t its. ?pods t = Some its \<and> Ipv4Addr 10 244 2 7 \<in> set its \<longrightarrow> t = ''beta''"
    by (simp split: if_split)
  have "?pods ''beta'' = Some [Ipv4Addr 10 244 2 7] \<and> Ipv4Addr 10 244 2 7 \<in> set [Ipv4Addr 10 244 2 7] \<and>
      (\<forall>t its. ?pods t = Some its \<and> Ipv4Addr 10 244 2 7 \<in> set its \<longrightarrow> t = ''beta'')"
    by (intro conjI u) simp_all
  from resolve_service_correct [OF o, THEN conjunct2, THEN conjunct2, THEN mp, OF this]
  show ?thesis .
qed

text \<open>
  Which records are shown: the filter that is meant to keep only pod-to-pod traffic keeps
  every record with at least one address in the pod network, so traffic between a pod and an
  outside address is printed too.
\<close>

theorem intercept_filter_is_either:
  assumes "proto_name (pl_proto l) = Some pn"
  shows "fst (handle_slot e cluster v w (log_to_bytes e pad l @ extra)) \<noteq> [] \<longleftrightarrow>
    in_cluster_net (ipv4_from (from_be32 e (pl_src_ip l))) \<or> in_cluster_net (ipv4_from (from_be32 e (pl_dst_ip l)))"
  by (simp add: handle_slot_log assms Let_def)

theorem intercept_filter_is_either_witness:
  "fst (handle_slot Big ''dev'' (Map.empty, []) (Map.empty, []) (log_to_bytes Big (0, 0)
     \<lparr>pl_src_ip = u32_from (Ipv4Addr 10 244 1 5), pl_dst_ip = u32_from (Ipv4Addr 172 18 0 2), pl_src_port = 1,
      pl_dst_port = 2, pl_proto = 6, pl_verdict = 0\<rparr> @ [])) \<noteq> []"
  by (subst intercept_filter_is_either [where pn = "''TCP''"])
    (simp_all add: proto_name_def in_pod_cidr_def to_be32_def)

end
