(* ===== verification/Trace_Api.thy ===== *)
theory Trace_Api
  imports Trace_Store Egress Ingress Perf_Events
begin

text \<open>
  \<open>trace/backend/cmd/server/main.go\<close>: the handler of \<open>POST /api/v1/telemetry\<close>, with the metrics it
  counts, and what it makes of the reports of the agents. The JSON decoder is a parameter.
\<close>

section \<open>The handler\<close>

datatype Metric =
    RequestsTotal string string string string
  | RequestDuration string string string rat
  | DenialsTotal string string string
  | TlsFailuresTotal string string string

definition metrics_of :: "TraceRecord \<Rightarrow> Metric list" where
  "metrics_of r =
     (let src = tr_source_service r; dst = tr_destination_service r; lg = tr_leg r in
      [RequestsTotal src dst lg (tr_verdict r)]
      @ (if 0 < tr_latency_ms r then [RequestDuration src dst lg (fl64 (tr_latency_ms r / 1000))] else [])
      @ (if tr_verdict r = ''deny'' then [DenialsTotal src dst lg]
         else if tr_verdict r = ''tls_reject''
         then [TlsFailuresTotal src dst (if tr_error_reason r = [] then ''unknown'' else tr_error_reason r)]
         else []))"

datatype TraceReply = TraceAccepted nat | TraceBadRequest string

text \<open>The status line that \<open>net/http\<close> writes.\<close>

fun status_line :: "TraceReply \<Rightarrow> string" where
  "status_line (TraceAccepted n) = ''HTTP/1.1 202 Accepted''"
| "status_line (TraceBadRequest e) = ''HTTP/1.1 400 Bad Request''"

definition PAYLOAD_LIMIT :: nat where "PAYLOAD_LIMIT = 1048576"

definition readPayload :: "string + bytes \<Rightarrow> string + bytes" where
  "readPayload body = map_sum id (take PAYLOAD_LIMIT) body"

definition decode_payload ::
  "(bytes \<Rightarrow> string + TraceRecord list) \<Rightarrow> (bytes \<Rightarrow> string + TraceRecord) \<Rightarrow> bytes \<Rightarrow> string + TraceRecord list" where
  "decode_payload unm_list unm_one payload =
     (if starts_with (trim payload) ''['' then wrap_err ''invalid telemetry batch: '' (unm_list payload)
      else map_sum id (\<lambda>r. [r]) (wrap_err ''invalid telemetry record: '' (unm_one payload)))"

definition telemetry_handler ::
  "(bytes \<Rightarrow> string + TraceRecord list) \<Rightarrow> (bytes \<Rightarrow> string + TraceRecord) \<Rightarrow> (nat \<Rightarrow> int) \<Rightarrow> Store \<Rightarrow> string + bytes \<Rightarrow>
   Store \<times> Metric list \<times> TraceReply" where
  "telemetry_handler unm_list unm_one now s body =
     (case readPayload body of
        Inl e \<Rightarrow> (s, [], TraceBadRequest e)
      | Inr payload \<Rightarrow>
          (case decode_payload unm_list unm_one payload of
             Inl e \<Rightarrow> (s, [], TraceBadRequest e)
           | Inr records \<Rightarrow>
               (let (rs, s') = add_records s (zip (map now [0..<length records]) records) in
                (s', concat (map metrics_of rs), TraceAccepted (length records)))))"

text \<open>The handler runs once for every request.\<close>

fun telemetry_requests ::
  "(bytes \<Rightarrow> string + TraceRecord list) \<Rightarrow> (bytes \<Rightarrow> string + TraceRecord) \<Rightarrow> Store \<Rightarrow> ((nat \<Rightarrow> int) \<times> (string + bytes)) list \<Rightarrow>
   Store \<times> Metric list \<times> TraceReply list" where
  "telemetry_requests unm_list unm_one s [] = (s, [], [])"
| "telemetry_requests unm_list unm_one s ((now, body) # reqs) =
     (let (s1, ms, rep) = telemetry_handler unm_list unm_one now s body;
          (s2, ms', reps) = telemetry_requests unm_list unm_one s1 reqs in
      (s2, ms @ ms', rep # reps))"

text \<open>
  A record of \<open>telemetry.rs\<close> as Trace decodes it: the names of the JSON fields agree, fields that
  serde skips are absent and keep their zero values. The programs never set the timestamp.
\<close>

definition trace_of :: "TelemetryRecord \<Rightarrow> TraceRecord" where
  "trace_of r =
     \<lparr>tr_source_service = source_service r, tr_destination_service = destination_service r,
      tr_cluster_id = tel_cluster_id r, tr_leg = leg r, tr_verdict = tel_verdict r, tr_latency_ms = latency_ms r,
      tr_tls_verified = tls_verified r, tr_status_code = (case status_code r of None \<Rightarrow> 0 | Some c \<Rightarrow> uint c),
      tr_error_reason = (case error_reason r of None \<Rightarrow> [] | Some e \<Rightarrow> e), tr_timestamp = ZERO_TIME,
      tr_protocol = [], tr_request_id = [], tr_source_ip = [], tr_dest_ip = [], tr_bytes_in = 0, tr_bytes_out = 0\<rparr>"

section \<open>What the handler does\<close>

text \<open>The client takes the reply for a success exactly when the records were added.\<close>

lemma first_status_line: "first_line (status_line rep @ CRLF @ rest) = status_line rep"
proof -
  have "first_line (status_line rep @ [CR] @ LF # rest) = status_line rep"
    by (cases rep; rule first_line_text) (simp_all add: byte_def graphic_def is_ws1_def is_ascii_def)
  then show ?thesis by simp
qed

lemma accepts_status_line: "trace_accepts (status_line rep @ CRLF @ rest) \<longleftrightarrow> (\<exists>n. rep = TraceAccepted n)"
  unfolding trace_accepts_def first_status_line by (cases rep) (simp_all add: str_contains_def)

lemma handler_rejects:
  "telemetry_handler unm_list unm_one now s body = (s', ms, TraceBadRequest e) \<Longrightarrow> s' = s \<and> ms = []"
  by (auto simp: telemetry_handler_def Let_def split: sum.splits prod.splits)

text \<open>A report of an agent as Trace receives it: the body that serde made of the record, decoded again.\<close>

definition arrives ::
  "(TelemetryRecord \<Rightarrow> anyhow + bytes) \<Rightarrow> (bytes \<Rightarrow> string + TraceRecord) \<Rightarrow> TelemetryRecord \<Rightarrow> bytes \<Rightarrow> bool" where
  "arrives to_vec unm_one r body \<longleftrightarrow>
     to_vec r = Inr body \<and> unm_one body = Inr (trace_of r) \<and> \<not> starts_with (trim body) ''[''
     \<and> length body \<le> PAYLOAD_LIMIT \<and> timestamp r = None"

lemma handler_arrives:
  assumes "arrives to_vec unm_one r body" and "AddRecord (now 0) s (trace_of r) = (n, s')"
  shows "telemetry_handler unm_list unm_one now s (Inr body) = (s', metrics_of n, TraceAccepted 1)"
  using assms by (simp add: arrives_def telemetry_handler_def readPayload_def decode_payload_def)

lemma requests_arrive:
  assumes "list_all (\<lambda>(now, r, body). arrives to_vec unm_one r body) reps"
    and "add_records s (map (\<lambda>(now, r, body). (now 0, trace_of r)) reps) = (out, s')"
  shows "telemetry_requests unm_list unm_one s (map (\<lambda>(now, r, body). (now, Inr body)) reps) =
    (s', concat (map metrics_of out), replicate (length reps) (TraceAccepted 1))"
  using assms
proof (induction reps arbitrary: s out s')
  case (Cons rep reps)
  obtain now r body where rep: "rep = (now, r, body)" by (cases rep)
  obtain n s1 where add: "AddRecord (now 0) s (trace_of r) = (n, s1)" by (cases "AddRecord (now 0) s (trace_of r)")
  obtain ns s2 where rest: "add_records s1 (map (\<lambda>(now, r, body). (now 0, trace_of r)) reps) = (ns, s2)"
    by (cases "add_records s1 (map (\<lambda>(now, r, body). (now 0, trace_of r)) reps)")
  have "arrives to_vec unm_one r body" using Cons.prems(1) by (simp add: rep)
  from handler_arrives [where now = now, OF this add] Cons.IH [OF _ rest] Cons.prems add rest show ?case by (auto simp: rep)
qed simp

text \<open>The verdicts the programs use survive the normalisation.\<close>

definition agent_verdicts :: "string set" where
  "agent_verdicts = {''allow'', ''deny'', ''tls_reject'', ''error''}"

lemma normalised_verdict:
  assumes "tel_verdict r \<in> agent_verdicts"
  shows "tr_verdict (NormalizeRecord now (trace_of r)) = tel_verdict r"
proof -
  have "list_all graphic (tel_verdict r)" "tel_verdict r \<noteq> []"
    using assms by (auto simp: agent_verdicts_def graphic_def byte_def)
  then show ?thesis using trim_graphic by (simp add: NormalizeRecord_def trace_of_def)
qed

text \<open>These are the verdicts of the records the programs build, and they set no timestamp.\<close>

lemma intercept_record_arrives:
  "tel_verdict (intercept_record cluster source dest verdict) \<in> agent_verdicts
   \<and> timestamp (intercept_record cluster source dest verdict) = None"
  by (simp add: intercept_record_def agent_verdicts_def)

lemma ingress_record_arrives:
  "tel_verdict (ingress_record cluster_id msg) \<in> agent_verdicts \<and> timestamp (ingress_record cluster_id msg) = None"
  by (simp add: ingress_record_def ingress_verdict_def agent_verdicts_def)

lemma egress_record_arrives:
  "r \<in> set (reports (fst (egress_handle L env peer cid store ks policy))) \<Longrightarrow>
    tel_verdict r \<in> agent_verdicts \<and> timestamp r = None"
  by (auto simp: egress_handle_wanted egress_forward_trace egress_respond_trace egress_record_def agent_verdicts_def
      split: option.splits sum.splits if_splits)

fun is_denial :: "Metric \<Rightarrow> bool" where
  "is_denial (DenialsTotal src dst lg) = True"
| "is_denial _ = False"

definition denials :: "Metric list \<Rightarrow> nat" where
  "denials ms = length (filter is_denial ms)"

lemma denials_one: "length (filter is_denial (metrics_of r)) = (if verdict_is ''deny'' r then 1 else 0)"
  by (simp add: metrics_of_def verdict_is_def Let_def)

lemma denials_metrics: "denials (concat (map metrics_of rs)) = length (filter (verdict_is ''deny'') rs)"
  by (induction rs) (simp_all add: denials_def denials_one)

section \<open>Property\<close>


definition ex_body :: bytes where "ex_body = ''{...}''"


end
