(* ===== verification/Cluster_Client.thy ===== *)
theory Cluster_Client
  imports Cert_Store Policy_Cache Net_Io
begin

text \<open>
  \<open>conduit/src/cluster_client.rs\<close>: the REST client of Conduit. It enrolls the cluster (POST),
  stores the issued credentials, and polls the policy (GET); the HTTP client is a request over a
  plain socket and \<open>extract_body\<close>. The JSON parser (\<open>serde_json::from_slice\<close> on the declared
  structs) and the socket outcomes are parameters.
\<close>

section \<open>Messages\<close>

record EnrollResponse =
  er_cert_pem :: string
  er_key_pem :: string
  er_root_ca_pem :: string
  er_expires_at_unix :: int

record RemoteRule =
  rr_from :: string
  rr_to :: "string list"

record PolicyResponse =
  pr_mtls_mode :: string
  pr_default_allow :: bool
  pr_rules :: "RemoteRule list"

record PolicySnapshot =
  ps_mtls_mode :: string
  ps_default_allow :: bool
  ps_rules :: "AllowRule list"

section \<open>HTTP over a plain socket\<close>

text \<open>
  The position after the header terminator: a \<open>\r\n\r\n\<close> anywhere is preferred to a \<open>\n\n\<close>.
  The status test is that the first line contains \<open>200\<close>.
\<close>

definition body_start :: "bytes \<Rightarrow> nat option" where
  "body_start raw =
     (case find_sub (CRLF @ CRLF) raw of
        Some p \<Rightarrow> Some (p + 4)
      | None \<Rightarrow> map_option (\<lambda>p. p + 2) (find_sub [LF, LF] raw))"

definition extract_body :: "bytes \<Rightarrow> anyhow + bytes" where
  "extract_body raw =
     (case body_start raw of
        None \<Rightarrow> Inl (Msg ''HTTP response has no header terminator'')
      | Some sep \<Rightarrow>
          (if \<not> str_contains (first_line raw) ''200''
           then Inl (Msg (''HTTP error: '' @ first_line raw))
           else Inr (drop sep raw)))"

definition get_request :: "string \<Rightarrow> string \<Rightarrow> bytes" where
  "get_request path host =
     ''GET '' @ path @ '' HTTP/1.1'' @ CRLF @ ''Host: '' @ host @ CRLF @ ''Connection: close'' @ CRLF @ CRLF"

definition post_request :: "string \<Rightarrow> string \<Rightarrow> nat \<Rightarrow> bytes" where
  "post_request path host len =
     ''POST '' @ path @ '' HTTP/1.1'' @ CRLF @ ''Host: '' @ host @ CRLF
     @ ''Content-Type: application/json'' @ CRLF @ ''Content-Length: '' @ dec_string len @ CRLF
     @ ''Connection: close'' @ CRLF @ CRLF"

definition http_get :: "exchange_env \<Rightarrow> string \<Rightarrow> string \<Rightarrow> (net_act, bytes) act" where
  "http_get env addr path =
     act_bind (http_exchange env (Some (''connect to '' @ addr)) addr
       [get_request path (split_first (CHR '':'') addr)])
       (\<lambda>buf. act_of (extract_body buf))"

definition http_post :: "exchange_env \<Rightarrow> string \<Rightarrow> string \<Rightarrow> bytes \<Rightarrow> (net_act, bytes) act" where
  "http_post env addr path body =
     act_bind (http_exchange env (Some (''connect to '' @ addr)) addr
       [post_request path (split_first (CHR '':'') addr) (length body), body])
       (\<lambda>buf. act_of (extract_body buf))"

section \<open>Enrolment\<close>

definition enroll_body :: "string \<Rightarrow> bytes" where
  "enroll_body cluster_id = ''{\"cluster_id\":\"'' @ cluster_id @ ''\"}''"

definition enroll ::
  "(bytes \<Rightarrow> anyhow + EnrollResponse) \<Rightarrow> exchange_env \<Rightarrow> string \<Rightarrow> string \<Rightarrow> (net_act, EnrollResponse) act" where
  "enroll from_slice env sigil_http_addr cluster_id =
     act_bind (http_post env sigil_http_addr ''/api/v1/enroll-cluster'' (enroll_body cluster_id))
       (\<lambda>response_bytes. act_of (with_context ''parse enroll-cluster response'' (from_slice response_bytes)))"

definition apply_enroll :: "CertStore \<Rightarrow> EnrollResponse \<Rightarrow> string \<Rightarrow> CertStore" where
  "apply_enroll store resp cluster_id =
     cs_update store cluster_id (er_cert_pem resp) (er_root_ca_pem resp) (er_key_pem resp)"

section \<open>Policy polling\<close>

definition fetch_policy ::
  "(bytes \<Rightarrow> anyhow + PolicyResponse) \<Rightarrow> exchange_env \<Rightarrow> string \<Rightarrow> (net_act, PolicySnapshot) act" where
  "fetch_policy from_slice env sigil_http_addr =
     act_bind (http_get env sigil_http_addr ''/api/v1/policy'') (\<lambda>bytes.
     act_bind (act_of (with_context ''parse policy response'' (from_slice bytes))) (\<lambda>resp.
       act_ret \<lparr>ps_mtls_mode = pr_mtls_mode resp, ps_default_allow = pr_default_allow resp,
                ps_rules = map (\<lambda>r. \<lparr>from_service = rr_from r, to_services = rr_to r\<rparr>) (pr_rules resp)\<rparr>))"

text \<open>One tick of the poll; a failed poll is logged and keeps the policy. The task is the fold.\<close>

definition poll_tick ::
  "(bytes \<Rightarrow> anyhow + PolicyResponse) \<Rightarrow> string \<Rightarrow> PolicyCache \<Rightarrow> exchange_env \<Rightarrow> PolicyCache" where
  "poll_tick from_slice sigil_http_addr c env =
     (case snd (fetch_policy from_slice env sigil_http_addr) of
        Inr snap \<Rightarrow> pc_update c (ps_rules snap) (ps_default_allow snap) (ps_mtls_mode snap)
      | Inl e \<Rightarrow> c)"

definition policy_poll ::
  "(bytes \<Rightarrow> anyhow + PolicyResponse) \<Rightarrow> string \<Rightarrow> PolicyCache \<Rightarrow> exchange_env list \<Rightarrow> PolicyCache" where
  "policy_poll from_slice sigil_http_addr c ticks = foldl (poll_tick from_slice sigil_http_addr) c ticks"

section \<open>Behaviour\<close>

lemma http_get_Inr:
  "snd (http_get env addr path) = Inr b \<longleftrightarrow>
     (\<exists>buf. all_ok env addr [get_request path (split_first (CHR '':'') addr)]
        \<and> x_read_to_end env = Inr buf \<and> extract_body buf = Inr b)"
  by (simp add: http_get_def snd_act_bind_Inr http_exchange_Inr act_of_def)

lemma http_post_Inr:
  "snd (http_post env addr path body) = Inr b \<longleftrightarrow>
     (\<exists>buf. all_ok env addr [post_request path (split_first (CHR '':'') addr) (length body), body]
        \<and> x_read_to_end env = Inr buf \<and> extract_body buf = Inr b)"
  by (simp add: http_post_def snd_act_bind_Inr http_exchange_Inr act_of_def)

lemma fetch_policy_Inr:
  "snd (fetch_policy from_slice env addr) = Inr snap \<longleftrightarrow>
     (\<exists>b resp. snd (http_get env addr ''/api/v1/policy'') = Inr b \<and> from_slice b = Inr resp
        \<and> snap = \<lparr>ps_mtls_mode = pr_mtls_mode resp, ps_default_allow = pr_default_allow resp,
             ps_rules = map (\<lambda>r. \<lparr>from_service = rr_from r, to_services = rr_to r\<rparr>) (pr_rules resp)\<rparr>)"
  by (auto simp: fetch_policy_def snd_act_bind_Inr act_of_def act_ret_def)

lemma enroll_Inr:
  "snd (enroll from_slice env addr cid) = Inr resp \<longleftrightarrow>
     (\<exists>b. snd (http_post env addr ''/api/v1/enroll-cluster'' (enroll_body cid)) = Inr b \<and> from_slice b = Inr resp)"
  by (auto simp: enroll_def snd_act_bind_Inr act_of_def)

definition fetched :: "(bytes \<Rightarrow> anyhow + PolicyResponse) \<Rightarrow> string \<Rightarrow> exchange_env \<Rightarrow> PolicySnapshot option" where
  "fetched from_slice addr env = (case snd (fetch_policy from_slice env addr) of Inr s \<Rightarrow> Some s | Inl e \<Rightarrow> None)"

lemma poll_tick_fetched:
  "poll_tick from_slice addr c env =
     (case fetched from_slice addr env of
        None \<Rightarrow> c | Some s \<Rightarrow> pc_update c (ps_rules s) (ps_default_allow s) (ps_mtls_mode s))"
  by (simp add: poll_tick_def fetched_def split: sum.split)

lemma fetched_Some: "fetched from_slice addr env = Some s \<longleftrightarrow> snd (fetch_policy from_slice env addr) = Inr s"
  by (simp add: fetched_def split: sum.split)

text \<open>The policy of the last successful fetch.\<close>

definition last_fetched ::
  "(bytes \<Rightarrow> anyhow + PolicyResponse) \<Rightarrow> string \<Rightarrow> exchange_env list \<Rightarrow> PolicySnapshot option" where
  "last_fetched from_slice sigil xs =
     (case find (\<lambda>x. x \<noteq> None) (rev (map (fetched from_slice sigil) xs)) of None \<Rightarrow> None | Some s \<Rightarrow> s)"

lemma last_fetched_snoc:
  "last_fetched from_slice sigil (xs @ [x]) =
     (case fetched from_slice sigil x of None \<Rightarrow> last_fetched from_slice sigil xs | Some s \<Rightarrow> Some s)"
  by (simp add: last_fetched_def split: option.split)

lemma policy_poll_last_fetched:
  "policy_poll from_slice sigil pc_new xs =
     (case last_fetched from_slice sigil xs of
        None \<Rightarrow> pc_new
      | Some s \<Rightarrow> \<lparr>rules = ps_rules s, default_allow = ps_default_allow s, mtls_mode = ps_mtls_mode s\<rparr>)"
proof (induction xs rule: rev_induct)
  case Nil
  then show ?case by (simp add: policy_poll_def last_fetched_def)
next
  case (snoc x xs)
  have "policy_poll from_slice sigil pc_new (xs @ [x]) =
      poll_tick from_slice sigil (policy_poll from_slice sigil pc_new xs) x"
    by (simp add: policy_poll_def)
  then show ?case
    by (simp add: snoc.IH poll_tick_fetched pc_update_last last_fetched_snoc split: option.split)
qed

section \<open>Properties\<close>

text \<open>
  The body of a response is what follows the first empty line: for a response made of a head,
  the terminator and a body, with no terminator inside the head, the body is returned unchanged
  when the status line contains 200 and an error that names the status line is returned
  otherwise.
\<close>

theorem extract_body_splits_response:
  assumes "\<not> sublist (CRLF @ CRLF) (head @ CRLF @ [CR])"
  shows "extract_body (head @ CRLF @ CRLF @ body) =
    (if str_contains (first_line (head @ CRLF @ CRLF @ body)) ''200'' then Inr body
     else Inl (Msg (''HTTP error: '' @ first_line (head @ CRLF @ CRLF @ body))))"
proof -
  have "find_sub (CRLF @ CRLF) (head @ (CRLF @ CRLF) @ body) = Some (length head)"
    using assms by (intro find_sub_first) simp_all
  then show ?thesis by (simp add: extract_body_def body_start_def)
qed

theorem extract_body_splits_response_witness:
  "extract_body (''HTTP/1.1 200 OK'' @ CRLF @ CRLF @ ''{}'') = Inr ''{}''"
proof -
  have "first_line (''HTTP/1.1 200 OK'' @ [CR] @ LF # CRLF @ ''{}'') = ''HTTP/1.1 200 OK''"
    by (rule first_line_text) (simp_all add: byte_def graphic_def is_ws1_def)
  moreover have "str_contains ''HTTP/1.1 200 OK'' ''200''" by (simp add: str_contains_def)
  ultimately show ?thesis
    by (subst extract_body_splits_response) (simp_all add: sublist_code)
qed

text \<open>
  Two limits of \<open>extract_body\<close>. With the loose terminator (two line feeds) a body that
  itself contains an empty CRLF line is cut at that line; and any status line in which 200 occurs
  anywhere counts as success, so a 500 response may be taken for one.
\<close>

theorem extract_body_limits:
  "extract_body (''HTTP/1.1 200 OK'' @ [LF, LF] @ ''a'' @ CRLF @ CRLF @ b) = Inr b \<and>
   extract_body (''HTTP/1.1 500 after 200 ms'' @ CRLF @ CRLF @ b) = Inr b"
proof
  have "first_line (''HTTP/1.1 200 OK'' @ [] @ LF # LF # ''a'' @ CRLF @ CRLF @ b) = ''HTTP/1.1 200 OK''"
    by (rule first_line_text) (simp_all add: byte_def graphic_def)
  then show "extract_body (''HTTP/1.1 200 OK'' @ [LF, LF] @ ''a'' @ CRLF @ CRLF @ b) = Inr b"
    by (simp add: extract_body_def body_start_def str_contains_def)
  have "first_line (''HTTP/1.1 500 after 200 ms'' @ [CR] @ LF # CRLF @ b) = ''HTTP/1.1 500 after 200 ms''"
    by (rule first_line_text) (simp_all add: byte_def graphic_def is_ws1_def)
  then show "extract_body (''HTTP/1.1 500 after 200 ms'' @ CRLF @ CRLF @ b) = Inr b"
    by (simp add: extract_body_def body_start_def str_contains_def)
qed

text \<open>
  A successful fetch went out as one GET request to Sigil and its rules reach the cache one
  for one, in order, with the default and the mode of the response.
\<close>

theorem fetched_policy_is_response:
  assumes "fetched from_slice addr env = Some s"
  shows "\<exists>buf b resp. fst (http_get env addr ''/api/v1/policy'') =
        [Connect addr, Write (get_request ''/api/v1/policy'' (split_first (CHR '':'') addr)), ReadToEnd]
     \<and> x_read_to_end env = Inr buf \<and> extract_body buf = Inr b \<and> from_slice b = Inr resp
     \<and> map from_service (ps_rules s) = map rr_from (pr_rules resp)
     \<and> map to_services (ps_rules s) = map rr_to (pr_rules resp)
     \<and> ps_default_allow s = pr_default_allow resp \<and> ps_mtls_mode s = pr_mtls_mode resp"
proof -
  from assms have "snd (fetch_policy from_slice env addr) = Inr s"
    by (simp add: fetched_Some)
  then obtain b resp where b: "snd (http_get env addr ''/api/v1/policy'') = Inr b" "from_slice b = Inr resp"
    and s: "s = \<lparr>ps_mtls_mode = pr_mtls_mode resp, ps_default_allow = pr_default_allow resp,
             ps_rules = map (\<lambda>r. \<lparr>from_service = rr_from r, to_services = rr_to r\<rparr>) (pr_rules resp)\<rparr>"
    unfolding fetch_policy_Inr by blast
  from b(1) obtain buf where ok: "all_ok env addr [get_request ''/api/v1/policy'' (split_first (CHR '':'') addr)]"
    and buf: "x_read_to_end env = Inr buf" "extract_body buf = Inr b"
    unfolding http_get_Inr by blast
  have "fst (http_get env addr ''/api/v1/policy'') =
        [Connect addr, Write (get_request ''/api/v1/policy'' (split_first (CHR '':'') addr)), ReadToEnd]"
    using buf by (simp add: http_get_def http_exchange_ok [OF ok] act_of_def)
  with b buf show ?thesis by (auto simp: s)
qed

definition ok_env :: "bytes \<Rightarrow> exchange_env" where
  "ok_env resp = \<lparr>x_connect = (\<lambda>a. None), x_write = (\<lambda>b. None), x_read_to_end = Inr resp\<rparr>"

theorem fetched_policy_is_response_witness:
  "\<exists>s. fetched (\<lambda>b. Inr \<lparr>pr_mtls_mode = b, pr_default_allow = False, pr_rules = []\<rparr>) ''sigil:8080''
      (ok_env (''HTTP/1.1 500 after 200 ms'' @ CRLF @ CRLF @ ''off'')) = Some s \<and> ps_mtls_mode s = ''off''"
proof -
  let ?p = "\<lambda>b. Inr \<lparr>pr_mtls_mode = b, pr_default_allow = False, pr_rules = []\<rparr> :: anyhow + PolicyResponse"
  let ?raw = "''HTTP/1.1 500 after 200 ms'' @ CRLF @ CRLF @ ''off''"
  have "first_line (''HTTP/1.1 500 after 200 ms'' @ [CR] @ LF # CRLF @ ''off'') = ''HTTP/1.1 500 after 200 ms''"
    by (rule first_line_text) (simp_all add: byte_def graphic_def is_ws1_def)
  then have body: "extract_body ?raw = Inr ''off''"
    by (simp add: extract_body_def body_start_def str_contains_def)
  then have "snd (http_get (ok_env ?raw) ''sigil:8080'' ''/api/v1/policy'') = Inr ''off''"
    unfolding http_get_Inr by (simp add: ok_env_def all_ok_def)
  then obtain s where s: "fetched ?p ''sigil:8080'' (ok_env ?raw) = Some s"
    by (simp add: fetched_Some fetch_policy_Inr)
  from fetched_policy_is_response [OF s] have "ps_mtls_mode s = ''off''"
    using body by (auto simp: ok_env_def)
  with s show ?thesis by blast
qed

end
