(* ===== verification/Conduit_Main.thy ===== *)
theory Conduit_Main
  imports Cluster_Client Telemetry
begin

text \<open>
  \<open>conduit/src/main.rs\<close>: the start of the gateway. It enrolls with Sigil, stores the issued
  credentials, starts the policy poll with the initial policy and runs one of the two proxies.
  Command-line parsing (\<open>clap\<close>) is a library; its result is the record \<open>Cli\<close>.
\<close>

datatype Mode = EgressMode | IngressMode

record Cli =
  cli_mode :: Mode
  cli_cluster_id :: string
  cli_sigil_addr :: string
  cli_listen_addr :: string
  cli_peer_addr :: string
  cli_svc_domain_suffix :: string
  cli_svc_port :: u16
  cli_trace_url :: string

definition normalize_listen_addr :: "string \<Rightarrow> string" where
  "normalize_listen_addr addr = (if starts_with addr '':'' then ''0.0.0.0'' @ addr else addr)"

text \<open>What the process runs after its start: the arguments of \<open>egress::run\<close> or \<open>ingress::run\<close>.\<close>

datatype Proxy =
    RunEgress string string string CertStore PolicyCache TelemetryTask
  | RunIngress string string CertStore string u16 TelemetryTask

definition conduit_main ::
  "(bytes \<Rightarrow> anyhow + EnrollResponse) \<Rightarrow> exchange_env \<Rightarrow> Cli \<Rightarrow> (net_act, Proxy) act" where
  "conduit_main from_slice env cli =
     act_bind (case enroll from_slice env (cli_sigil_addr cli) (cli_cluster_id cli) of
                 (t, r) \<Rightarrow> (t, with_context ''enroll with Sigil'' r)) (\<lambda>enroll_resp.
       let store = apply_enroll cs_new enroll_resp (cli_cluster_id cli);
           policy_cache = pc_new;
           telemetry = tel_start (cli_trace_url cli);
           listen_addr = normalize_listen_addr (cli_listen_addr cli)
       in (case cli_mode cli of
             EgressMode \<Rightarrow>
               (if cli_peer_addr cli = [] then act_fail (Msg ''--peer-addr is required in egress mode'')
                else act_ret (RunEgress listen_addr (cli_peer_addr cli) (cli_cluster_id cli) store policy_cache telemetry))
           | IngressMode \<Rightarrow>
               act_ret (RunIngress listen_addr (cli_cluster_id cli) store (cli_svc_domain_suffix cli)
                          (cli_svc_port cli) telemetry)))"

fun proxy_store :: "Proxy \<Rightarrow> CertStore" where
  "proxy_store (RunEgress la pa cid store pol tel) = store"
| "proxy_store (RunIngress la cid store sfx port tel) = store"

fun proxy_listen :: "Proxy \<Rightarrow> string" where
  "proxy_listen (RunEgress la pa cid store pol tel) = la"
| "proxy_listen (RunIngress la cid store sfx port tel) = la"

lemma starts_with_normalize: "\<not> starts_with (normalize_listen_addr addr) '':''"
  by (auto simp: normalize_listen_addr_def starts_with_def)

lemma apply_enroll_first:
  assumes "iter_order (certs (apply_enroll cs_new resp cid)) ks"
  shows "cs_first_cert (apply_enroll cs_new resp cid) ks =
    Some \<lparr>leaf_cert_pem = er_cert_pem resp, root_ca_pem = er_root_ca_pem resp, private_key_pem = er_key_pem resp\<rparr>"
  using assms cs.first_single unfolding apply_enroll_def by blast

section \<open>Properties\<close>

text \<open>
  A started gateway holds the credentials Sigil issued to it: when the start succeeds, the
  proxy's certificate store offers exactly the certificate, key and root of the enrolment
  response, whatever the iteration order; it listens on an address with a host part, and an
  egress proxy has a peer address and begins with the allow-everything policy.
\<close>

theorem started_gateway_is_enrolled:
  assumes "snd (conduit_main from_slice env cli) = Inr proxy"
  shows "\<exists>resp. snd (enroll from_slice env (cli_sigil_addr cli) (cli_cluster_id cli)) = Inr resp
    \<and> (\<forall>ks. iter_order (certs (proxy_store proxy)) ks \<longrightarrow>
         cs_first_cert (proxy_store proxy) ks =
           Some \<lparr>leaf_cert_pem = er_cert_pem resp, root_ca_pem = er_root_ca_pem resp, private_key_pem = er_key_pem resp\<rparr>)
    \<and> \<not> starts_with (proxy_listen proxy) '':''
    \<and> (case proxy of
         RunEgress la pa cid store pol tel \<Rightarrow> pa \<noteq> [] \<and> cid = cli_cluster_id cli \<and> (\<forall>d. is_allowed_destination pol d)
       | RunIngress la cid store sfx port tel \<Rightarrow> cid = cli_cluster_id cli)"
proof -
  obtain t r where enroll: "enroll from_slice env (cli_sigil_addr cli) (cli_cluster_id cli) = (t, r)"
    by (cases "enroll from_slice env (cli_sigil_addr cli) (cli_cluster_id cli)")
  with assms obtain resp where r: "r = Inr resp"
    by (cases r) (auto simp: conduit_main_def)
  have store: "proxy_store proxy = apply_enroll cs_new resp (cli_cluster_id cli)"
    using assms enroll r
    by (auto simp: conduit_main_def Let_def act_fail_def act_ret_def split: Mode.splits if_splits)
  have "proxy_listen proxy = normalize_listen_addr (cli_listen_addr cli)"
    using assms enroll r
    by (auto simp: conduit_main_def Let_def act_fail_def act_ret_def split: Mode.splits if_splits)
  moreover have "case proxy of
         RunEgress la pa cid store pol tel \<Rightarrow> pa \<noteq> [] \<and> cid = cli_cluster_id cli \<and> (\<forall>d. is_allowed_destination pol d)
       | RunIngress la cid store sfx port tel \<Rightarrow> cid = cli_cluster_id cli"
    using assms enroll r
    by (auto simp: conduit_main_def Let_def act_fail_def act_ret_def is_allowed_destination_def pc_new_def
        split: Mode.splits if_splits)
  ultimately show ?thesis
    unfolding store using enroll r starts_with_normalize apply_enroll_first
    by (intro exI [of _ resp]) auto
qed

definition ex_cli :: Cli where
  "ex_cli = \<lparr>cli_mode = EgressMode, cli_cluster_id = ''dev'', cli_sigil_addr = ''sigil:8080'', cli_listen_addr = '':9090'',
             cli_peer_addr = ''peer:443'', cli_svc_domain_suffix = ''.svc'', cli_svc_port = 8080, cli_trace_url = ''http://t''\<rparr>"

definition ex_enroll :: "bytes \<Rightarrow> anyhow + EnrollResponse" where
  "ex_enroll b = Inr \<lparr>er_cert_pem = b, er_key_pem = ''k'', er_root_ca_pem = ''r'', er_expires_at_unix = 0\<rparr>"

lemma ex_enroll_ok:
  "snd (enroll ex_enroll (ok_env (''HTTP/1.1 200 OK'' @ CRLF @ CRLF @ ''pem'')) a c) =
     Inr \<lparr>er_cert_pem = ''pem'', er_key_pem = ''k'', er_root_ca_pem = ''r'', er_expires_at_unix = 0\<rparr>"
proof -
  have "first_line (''HTTP/1.1 200 OK'' @ [CR] @ LF # CRLF @ ''pem'') = ''HTTP/1.1 200 OK''"
    by (rule first_line_text) (simp_all add: byte_def graphic_def is_ws1_def)
  then have "extract_body (''HTTP/1.1 200 OK'' @ CRLF @ CRLF @ ''pem'') = Inr ''pem''"
    by (simp add: extract_body_def body_start_def str_contains_def)
  then show ?thesis
    unfolding enroll_Inr http_post_Inr by (simp add: ok_env_def all_ok_def ex_enroll_def)
qed

theorem started_gateway_is_enrolled_witness:
  "\<exists>proxy. snd (conduit_main ex_enroll (ok_env (''HTTP/1.1 200 OK'' @ CRLF @ CRLF @ ''pem'')) ex_cli) = Inr proxy
     \<and> \<not> starts_with (proxy_listen proxy) '':''"
proof -
  let ?env = "ok_env (''HTTP/1.1 200 OK'' @ CRLF @ CRLF @ ''pem'')"
  obtain t r where enroll: "enroll ex_enroll ?env (cli_sigil_addr ex_cli) (cli_cluster_id ex_cli) = (t, r)"
    by (cases "enroll ex_enroll ?env (cli_sigil_addr ex_cli) (cli_cluster_id ex_cli)")
  with ex_enroll_ok [of "cli_sigil_addr ex_cli" "cli_cluster_id ex_cli"]
  have "\<exists>resp. r = Inr resp" by auto
  then obtain proxy where proxy: "snd (conduit_main ex_enroll ?env ex_cli) = Inr proxy"
    using enroll by (auto simp: conduit_main_def ex_cli_def Let_def act_ret_def)
  from started_gateway_is_enrolled [OF proxy] proxy show ?thesis by blast
qed

text \<open>
  The enrolment request does not escape the cluster id: an id that contains a quote can add
  or override fields of the JSON document that is sent to Sigil.
\<close>

theorem enroll_body_injection:
  "enroll_body (a @ ''\",\"cluster_id\":\"'' @ b) =
     ''{\"cluster_id\":\"'' @ a @ ''\",\"cluster_id\":\"'' @ b @ ''\"}''"
  by (simp add: enroll_body_def)

text \<open>
  The listen address: a port alone is completed with the wildcard address, everything else
  is kept, and completing twice is completing once.
\<close>

theorem normalize_listen_addr_spec:
  "normalize_listen_addr (CHR '':'' # port) = ''0.0.0.0:'' @ port \<and>
   (normalize_listen_addr addr = addr \<longleftrightarrow> \<not> starts_with addr '':'') \<and>
   normalize_listen_addr (normalize_listen_addr addr) = normalize_listen_addr addr"
  by (auto simp: normalize_listen_addr_def starts_with_def)

end
