(* ===== verification/Gateway.thy ===== *)
theory Gateway
  imports Egress Ingress Conduit_Main
begin

text \<open>
  The egress gateway as one process: \<open>conduit/src/main.rs\<close> enrols and starts the policy poll, and
  \<open>egress::run\<close> accepts connections while the poll task replaces the policy. The two share the
  policy cache behind a mutex; a handler looks at it once, under the lock, so a run is the
  sequence of poll ticks and of those looks. The certificate store never changes after the start.
  The ingress gateway is the other mode of the same process; it does not look at the policy.
\<close>

section \<open>Runs of the gateway\<close>

datatype 'cfg gw_event =
    PollTick exchange_env
  | Serve "'cfg egress_env" "string list"
  | AcceptFails io_error

text \<open>What the accept loop sees: every connection meets the policy of its moment.\<close>

fun gw_accepts ::
  "(bytes \<Rightarrow> anyhow + PolicyResponse) \<Rightarrow> string \<Rightarrow> CertStore \<Rightarrow> PolicyCache \<Rightarrow> 'cfg gw_event list \<Rightarrow>
   (io_error + 'cfg egress_env \<times> CertStore \<times> string list \<times> PolicyCache) list" where
  "gw_accepts from_slice sigil store pol [] = []"
| "gw_accepts from_slice sigil store pol (PollTick x # evs) =
     gw_accepts from_slice sigil store (poll_tick from_slice sigil pol x) evs"
| "gw_accepts from_slice sigil store pol (Serve env ks # evs) =
     Inr (env, store, ks, pol) # gw_accepts from_slice sigil store pol evs"
| "gw_accepts from_slice sigil store pol (AcceptFails e # evs) =
     Inl e # gw_accepts from_slice sigil store pol evs"

definition egress_gateway ::
  "('c, 'k, 'r, 'v, 'cfg, 'sc) tls_lib \<Rightarrow> (bytes \<Rightarrow> anyhow + EnrollResponse) \<Rightarrow>
   (bytes \<Rightarrow> anyhow + PolicyResponse) \<Rightarrow> exchange_env \<Rightarrow> Cli \<Rightarrow> io_error option \<Rightarrow> 'cfg gw_event list \<Rightarrow>
   (egress_act, unit) act list \<times> anyhow option" where
  "egress_gateway L from_enroll from_policy env cli bound evs =
     (case snd (conduit_main from_enroll env cli) of
        Inl e \<Rightarrow> ([], Some e)
      | Inr (RunEgress listen peer cid store pol tel) \<Rightarrow>
          egress_run L bound peer cid (gw_accepts from_policy (cli_sigil_addr cli) store pol evs)
      | Inr (RunIngress listen cid store sfx port tel) \<Rightarrow> ([], None))"

definition ingress_gateway ::
  "('c, 'k, 'r, 'v, 'cc, 'cfg) tls_lib \<Rightarrow> (bytes \<Rightarrow> anyhow + EnrollResponse) \<Rightarrow> exchange_env \<Rightarrow> Cli \<Rightarrow>
   string list \<Rightarrow> io_error option \<Rightarrow> (io_error + 'cfg ingress_env) list \<Rightarrow>
   (ingress_act list \<times> TelemetryRecord option) list \<times> anyhow option" where
  "ingress_gateway L from_enroll env cli ks bound accepts =
     (case snd (conduit_main from_enroll env cli) of
        Inl e \<Rightarrow> ([], Some e)
      | Inr (RunIngress listen cid store sfx port tel) \<Rightarrow> ingress_run L store ks bound cid sfx port accepts
      | Inr (RunEgress listen peer cid store pol tel) \<Rightarrow> ([], None))"

section \<open>What a run consists of\<close>

fun polls :: "'cfg gw_event list \<Rightarrow> exchange_env list" where
  "polls [] = []"
| "polls (PollTick x # evs) = x # polls evs"
| "polls (Serve env ks # evs) = polls evs"
| "polls (AcceptFails e # evs) = polls evs"

fun serves :: "'cfg gw_event list \<Rightarrow> nat" where
  "serves [] = 0"
| "serves (PollTick x # evs) = serves evs"
| "serves (Serve env ks # evs) = Suc (serves evs)"
| "serves (AcceptFails e # evs) = 0"

fun accept_error :: "'cfg gw_event list \<Rightarrow> io_error option" where
  "accept_error [] = None"
| "accept_error (PollTick x # evs) = accept_error evs"
| "accept_error (Serve env ks # evs) = accept_error evs"
| "accept_error (AcceptFails e # evs) = Some e"

lemma gw_accepts_Inr:
  assumes "Inr (env, st, ks, p) \<in> set (gw_accepts from_slice sigil store pol evs)"
  shows "st = store \<and> (\<exists>pre post. evs = pre @ Serve env ks # post \<and> p = policy_poll from_slice sigil pol (polls pre))"
  using assms
proof (induction from_slice sigil store pol evs rule: gw_accepts.induct)
  case (1 from_slice sigil store pol)
  then show ?case by simp
next
  case (2 from_slice sigil store pol x evs)
  then obtain pre post where "evs = pre @ Serve env ks # post" "st = store"
    "p = policy_poll from_slice sigil (poll_tick from_slice sigil pol x) (polls pre)" by auto
  then show ?case
    by (intro conjI exI [of _ "PollTick x # pre"] exI [of _ post]) (simp_all add: policy_poll_def)
next
  case (3 from_slice sigil store pol env' ks' evs)
  then consider "env = env'" "st = store" "ks = ks'" "p = pol"
    | "Inr (env, st, ks, p) \<in> set (gw_accepts from_slice sigil store pol evs)" by auto
  then show ?case
  proof cases
    case 1
    then show ?thesis by (intro conjI exI [of _ "[]"] exI [of _ evs]) (simp_all add: policy_poll_def)
  next
    case 2
    then obtain pre post where "evs = pre @ Serve env ks # post" "st = store"
      "p = policy_poll from_slice sigil pol (polls pre)" using 3 by auto
    then show ?thesis by (intro conjI exI [of _ "Serve env' ks' # pre"] exI [of _ post]) simp_all
  qed
next
  case (4 from_slice sigil store pol e evs)
  then obtain pre post where "evs = pre @ Serve env ks # post" "st = store"
    "p = policy_poll from_slice sigil pol (polls pre)" by auto
  then show ?case by (intro conjI exI [of _ "AcceptFails e # pre"] exI [of _ post]) simp_all
qed

lemma egress_accept_member:
  "acts \<in> set (fst (egress_accept L peer cid xs)) \<Longrightarrow>
   \<exists>env st ks p. Inr (env, st, ks, p) \<in> set xs \<and> acts = egress_handle L env peer cid st ks p"
  by (induction L peer cid xs rule: egress_accept.induct) (auto simp: split_beta Let_def)

lemma egress_accept_count:
  "length (fst (egress_accept L peer cid (gw_accepts from_slice sigil store pol evs))) = serves evs \<and>
   snd (egress_accept L peer cid (gw_accepts from_slice sigil store pol evs)) = map_option Msg (accept_error evs)"
  by (induction from_slice sigil store pol evs rule: gw_accepts.induct) (simp_all add: split_beta Let_def)

lemma conduit_main_egress:
  assumes "snd (conduit_main from_slice env cli) = Inr (RunEgress listen peer cid store pol tel)"
  shows "peer = cli_peer_addr cli \<and> pol = pc_new \<and> cid = cli_cluster_id cli \<and>
    (\<exists>resp. snd (enroll from_slice env (cli_sigil_addr cli) (cli_cluster_id cli)) = Inr resp
       \<and> store = apply_enroll cs_new resp (cli_cluster_id cli))"
proof -
  obtain t r where enroll: "enroll from_slice env (cli_sigil_addr cli) (cli_cluster_id cli) = (t, r)"
    by (cases "enroll from_slice env (cli_sigil_addr cli) (cli_cluster_id cli)")
  with assms obtain resp where "r = Inr resp"
    by (cases r) (auto simp: conduit_main_def)
  with assms enroll show ?thesis
    by (auto simp: conduit_main_def Let_def act_fail_def act_ret_def split: Mode.splits if_splits)
qed

lemma apply_enroll_certs:
  "cs_first_cert (apply_enroll cs_new resp cid) ks = Some c \<Longrightarrow>
     c = \<lparr>leaf_cert_pem = er_cert_pem resp, root_ca_pem = er_root_ca_pem resp, private_key_pem = er_key_pem resp\<rparr>"
  by (auto simp: apply_enroll_def cs_defs first_value_def split: list.splits if_splits)

text \<open>Every handled connection of a run: its place, its policy and its store.\<close>

lemma egress_gateway_member:
  assumes "acts \<in> set (fst (egress_gateway L from_enroll from_policy env cli bound evs))"
  shows "\<exists>pre x ks post resp. evs = pre @ Serve x ks # post
    \<and> snd (enroll from_enroll env (cli_sigil_addr cli) (cli_cluster_id cli)) = Inr resp
    \<and> acts = egress_handle L x (cli_peer_addr cli) (cli_cluster_id cli)
        (apply_enroll cs_new resp (cli_cluster_id cli)) ks
        (policy_poll from_policy (cli_sigil_addr cli) pc_new (polls pre))"
proof -
  obtain listen peer cid store pol tel
    where main: "snd (conduit_main from_enroll env cli) = Inr (RunEgress listen peer cid store pol tel)"
      and acts: "acts \<in> set (fst (egress_accept L peer cid (gw_accepts from_policy (cli_sigil_addr cli) store pol evs)))"
    using assms by (auto simp: egress_gateway_def egress_run_def split: sum.splits Proxy.splits option.splits)
  from conduit_main_egress [OF main] obtain resp
    where "peer = cli_peer_addr cli" "cid = cli_cluster_id cli" "pol = pc_new"
      and "snd (enroll from_enroll env (cli_sigil_addr cli) (cli_cluster_id cli)) = Inr resp"
      and "store = apply_enroll cs_new resp (cli_cluster_id cli)" by blast
  with egress_accept_member [OF acts] gw_accepts_Inr show ?thesis by blast
qed

section \<open>Properties\<close>

text \<open>
  C7. The running egress gateway enforces the policy it fetched last. Whatever connections, polls
  and failures a run consists of, the peer is contacted for a connection only when its Host names
  a destination that the last policy fetched before the check lists or permits by default, or
  when no policy was fetched yet; the peer is the configured one; and request bytes leave only
  over a TLS handshake with the certificate, key and root that Sigil issued at the start.
\<close>

theorem egress_gateway_enforces_last_policy:
  assumes "acts \<in> set (fst (egress_gateway L from_enroll from_policy env cli bound evs))"
  shows "\<exists>pre x ks post resp. evs = pre @ Serve x ks # post
    \<and> snd (enroll from_enroll env (cli_sigil_addr cli) (cli_cluster_id cli)) = Inr resp
    \<and> (\<forall>p. ConnectPeer p \<in> set (fst acts) \<longrightarrow> p = cli_peer_addr cli
        \<and> (\<exists>d. wanted x = Some d
            \<and> (case last_fetched from_policy (cli_sigil_addr cli) (polls pre) of
                 None \<Rightarrow> True
               | Some s \<Rightarrow> ps_default_allow s \<or> (\<exists>r \<in> set (ps_rules s). d \<in> set (to_services r)))))
    \<and> (\<forall>b. WriteUp b \<in> set (fst acts) \<longrightarrow> read_buf (eg_read x) = Inr b
        \<and> (\<exists>cfg. client_config L (er_cert_pem resp) (er_key_pem resp) (er_root_ca_pem resp) = Inr cfg
            \<and> eg_handshake x cfg = None))"
proof -
  obtain pre x ks post resp where evs: "evs = pre @ Serve x ks # post"
    and enroll: "snd (enroll from_enroll env (cli_sigil_addr cli) (cli_cluster_id cli)) = Inr resp"
    and acts: "acts = egress_handle L x (cli_peer_addr cli) (cli_cluster_id cli)
        (apply_enroll cs_new resp (cli_cluster_id cli)) ks
        (policy_poll from_policy (cli_sigil_addr cli) pc_new (polls pre))"
    using egress_gateway_member [OF assms] by blast
  have "p = cli_peer_addr cli \<and> (\<exists>d. wanted x = Some d
            \<and> (case last_fetched from_policy (cli_sigil_addr cli) (polls pre) of
                 None \<Rightarrow> True
               | Some s \<Rightarrow> ps_default_allow s \<or> (\<exists>r \<in> set (ps_rules s). d \<in> set (to_services r))))"
    if "ConnectPeer p \<in> set (fst acts)" for p
    using egress_connects [OF that [unfolded acts]]
    by (auto simp: policy_poll_last_fetched is_allowed_destination_iff split: option.splits)
  moreover have "read_buf (eg_read x) = Inr b
        \<and> (\<exists>cfg. client_config L (er_cert_pem resp) (er_key_pem resp) (er_root_ca_pem resp) = Inr cfg
            \<and> eg_handshake x cfg = None)"
    if "WriteUp b \<in> set (fst acts)" for b
    using egress_writes [OF that [unfolded acts]] apply_enroll_certs by fastforce
  ultimately show ?thesis using evs enroll by blast
qed

lemma ex_gateway:
  "\<exists>acts. acts \<in> set (fst (egress_gateway ex_lib ex_enroll (\<lambda>b. Inl (Msg []))
        (ok_env (''HTTP/1.1 200 OK'' @ CRLF @ CRLF @ ''pem'')) ex_cli None [Serve ex_env [''dev'']]))
     \<and> WriteUp ex_request \<in> set (fst acts)"
proof -
  let ?env = "ok_env (''HTTP/1.1 200 OK'' @ CRLF @ CRLF @ ''pem'')"
  let ?resp = "\<lparr>er_cert_pem = ''pem'', er_key_pem = ''k'', er_root_ca_pem = ''r'', er_expires_at_unix = 0\<rparr>"
  let ?store = "apply_enroll cs_new ?resp ''dev''"
  let ?acts = "egress_handle ex_lib ex_env ''peer:443'' ''dev'' ?store [''dev''] pc_new"
  obtain t r where enroll: "enroll ex_enroll ?env ''sigil:8080'' ''dev'' = (t, r)"
    by (cases "enroll ex_enroll ?env ''sigil:8080'' ''dev''")
  with ex_enroll_ok [of "''sigil:8080''" "''dev''"] have "r = Inr ?resp" by simp
  with enroll have "snd (conduit_main ex_enroll ?env ex_cli) =
      Inr (RunEgress (normalize_listen_addr '':9090'') ''peer:443'' ''dev'' ?store pc_new (tel_start ''http://t''))"
    by (simp add: conduit_main_def ex_cli_def Let_def act_ret_def)
  then have "?acts \<in> set (fst (egress_gateway ex_lib ex_enroll (\<lambda>b. Inl (Msg [])) ?env ex_cli None [Serve ex_env [''dev'']]))"
    by (simp add: egress_gateway_def egress_run_def)
  moreover have "tls_ready ex_lib ex_env ?store [''dev''] = Some [''k'', ''pem'', ''r'']"
    by (simp add: tls_ready_def apply_enroll_def cs_defs first_value_def client_config_def load_certs_def
        load_key_def root_store_def ex_lib_def ex_env_def)
  then have "WriteUp ex_request \<in> set (fst ?acts)"
    by (simp add: egress_handle_wanted ex_wanted egress_forward_trace ex_env_read ex_env_sel
        is_allowed_destination_def pc_new_def)
  ultimately show ?thesis by blast
qed

theorem egress_gateway_enforces_last_policy_witness:
  "\<exists>resp cfg. snd (enroll ex_enroll (ok_env (''HTTP/1.1 200 OK'' @ CRLF @ CRLF @ ''pem''))
      (cli_sigil_addr ex_cli) (cli_cluster_id ex_cli)) = Inr resp
    \<and> client_config ex_lib (er_cert_pem resp) (er_key_pem resp) (er_root_ca_pem resp) = Inr cfg"
proof -
  obtain acts where member: "acts \<in> set (fst (egress_gateway ex_lib ex_enroll (\<lambda>b. Inl (Msg []))
        (ok_env (''HTTP/1.1 200 OK'' @ CRLF @ CRLF @ ''pem'')) ex_cli None [Serve ex_env [''dev'']]))"
    and writes: "WriteUp ex_request \<in> set (fst acts)"
    using ex_gateway by blast
  from egress_gateway_enforces_last_policy [OF member] writes show ?thesis by blast
qed

text \<open>
  The life of the egress gateway: when the start succeeds and the port is bound, every
  connection accepted before the first failed \<open>accept\<close> is handled, however the handlers of the
  others end and however many polls fail; the first failed \<open>accept\<close> ends the process with that
  error. Without a successful enrolment, or without the port, no connection is handled at all.
\<close>

theorem egress_gateway_lifetime:
  "case snd (conduit_main from_enroll env cli) of
     Inl e \<Rightarrow> egress_gateway L from_enroll from_policy env cli bound evs = ([], Some e)
   | Inr (RunEgress listen peer cid store pol tel) \<Rightarrow>
       (case bound of
          Some e \<Rightarrow> egress_gateway L from_enroll from_policy env cli bound evs = ([], Some (Msg e))
        | None \<Rightarrow> length (fst (egress_gateway L from_enroll from_policy env cli bound evs)) = serves evs
            \<and> snd (egress_gateway L from_enroll from_policy env cli bound evs) = map_option Msg (accept_error evs))
   | Inr (RunIngress listen cid store sfx port tel) \<Rightarrow> True"
  by (simp add: egress_gateway_def egress_run_def egress_accept_count split: sum.split Proxy.split option.split)

text \<open>The ingress side: what a started proxy holds, and what a handled connection is.\<close>

lemma conduit_main_ingress:
  assumes "snd (conduit_main from_slice env cli) = Inr (RunIngress listen cid store sfx port tel)"
  shows "sfx = cli_svc_domain_suffix cli \<and> port = cli_svc_port cli \<and>
    (\<exists>resp. snd (enroll from_slice env (cli_sigil_addr cli) (cli_cluster_id cli)) = Inr resp
       \<and> store = apply_enroll cs_new resp (cli_cluster_id cli))"
proof -
  obtain t r where enroll: "enroll from_slice env (cli_sigil_addr cli) (cli_cluster_id cli) = (t, r)"
    by (cases "enroll from_slice env (cli_sigil_addr cli) (cli_cluster_id cli)")
  with assms obtain resp where "r = Inr resp"
    by (cases r) (auto simp: conduit_main_def)
  with assms enroll show ?thesis
    by (auto simp: conduit_main_def Let_def act_fail_def act_ret_def split: Mode.splits if_splits)
qed

lemma ingress_accept_member:
  "c \<in> set (fst (ingress_accept acceptor cid sfx port xs)) \<Longrightarrow>
   \<exists>x. Inr x \<in> set xs \<and> c = ingress_connection x acceptor cid sfx port"
  by (induction acceptor cid sfx port xs rule: ingress_accept.induct) (auto simp: split_beta Let_def)

lemma ingress_run_member:
  assumes "c \<in> set (fst (ingress_run L store ks bound cid sfx port accepts))"
  shows "\<exists>entry cfg x. cs_first_cert store ks = Some entry
    \<and> server_config L (leaf_cert_pem entry) (private_key_pem entry) (root_ca_pem entry) = Inr cfg
    \<and> Inr x \<in> set accepts \<and> c = ingress_connection x cfg cid sfx port"
proof (cases "cs_first_cert store ks")
  case None
  then show ?thesis using assms by (simp add: ingress_run_def ok_or_def)
next
  case (Some entry)
  then show ?thesis using assms
    by (auto simp: ingress_run_def ok_or_def split: sum.splits option.splits dest: ingress_accept_member)
qed

lemma fst_ingress_connection: "fst (ingress_connection x cfg cid sfx port) = fst (ingress_handle x cfg sfx port)"
  by (simp add: ingress_connection_def split: prod.split sum.split)

lemma ingress_contacts:
  assumes "ConnectBackend a \<in> set (fst (ingress_handle x cfg sfx port))"
  shows "ig_accept x cfg = None \<and> (\<exists>hdr h. ingress_read_buf (ig_read x) = Inr hdr
    \<and> ingress_extract_host hdr = Some h \<and> a = backend_addr h sfx port)"
  using assms
  by (auto simp: ingress_handle_cases ingress_extract_host_eq split: option.splits sum.splits if_splits)

text \<open>
  C8. The running ingress gateway lets nothing through without mutual TLS on the material Sigil
  issued. A connection is handled at all only if a server configuration could be built that
  presents the issued chain with the issued key and demands a client certificate checked against
  exactly the issued roots; and a backend is contacted for it only after the handshake with that
  configuration succeeded, at the address that the Host of the request and the configured suffix
  and port give.
\<close>

theorem ingress_gateway_mutual_tls:
  assumes "c \<in> set (fst (ingress_gateway L from_enroll env cli ks bound accepts))"
  shows "\<exists>resp cs k r v cfg x. snd (enroll from_enroll env (cli_sigil_addr cli) (cli_cluster_id cli)) = Inr resp
    \<and> pem_certs L (er_cert_pem resp) = map Inr cs \<and> first_key L (er_key_pem resp) k
    \<and> anchors L (er_root_ca_pem resp) r \<and> build_verifier L r = Inr v \<and> build_server L v cs k = Inr cfg
    \<and> Inr x \<in> set accepts
    \<and> (\<forall>a. ConnectBackend a \<in> set (fst c) \<longrightarrow> ig_accept x cfg = None
        \<and> (\<exists>hdr h. ingress_read_buf (ig_read x) = Inr hdr \<and> ingress_extract_host hdr = Some h
            \<and> a = backend_addr h (cli_svc_domain_suffix cli) (cli_svc_port cli)))"
proof -
  obtain listen cid store sfx port tel
    where main: "snd (conduit_main from_enroll env cli) = Inr (RunIngress listen cid store sfx port tel)"
      and c: "c \<in> set (fst (ingress_run L store ks bound cid sfx port accepts))"
    using assms by (auto simp: ingress_gateway_def split: sum.splits Proxy.splits)
  from conduit_main_ingress [OF main] obtain resp
    where cli: "sfx = cli_svc_domain_suffix cli" "port = cli_svc_port cli"
      and enroll: "snd (enroll from_enroll env (cli_sigil_addr cli) (cli_cluster_id cli)) = Inr resp"
      and store: "store = apply_enroll cs_new resp (cli_cluster_id cli)" by blast
  from ingress_run_member [OF c] obtain entry cfg x
    where entry: "cs_first_cert store ks = Some entry"
      and cfg: "server_config L (leaf_cert_pem entry) (private_key_pem entry) (root_ca_pem entry) = Inr cfg"
      and x: "Inr x \<in> set accepts" "c = ingress_connection x cfg cid sfx port" by blast
  have "server_config L (er_cert_pem resp) (er_key_pem resp) (er_root_ca_pem resp) = Inr cfg"
    using cfg apply_enroll_certs [OF entry [unfolded store]] by simp
  then obtain cs k r v where "pem_certs L (er_cert_pem resp) = map Inr cs" "first_key L (er_key_pem resp) k"
    "anchors L (er_root_ca_pem resp) r" "build_verifier L r = Inr v" "build_server L v cs k = Inr cfg"
    unfolding server_config_Inr by blast
  moreover have "ig_accept x cfg = None \<and> (\<exists>hdr h. ingress_read_buf (ig_read x) = Inr hdr
      \<and> ingress_extract_host hdr = Some h \<and> a = backend_addr h (cli_svc_domain_suffix cli) (cli_svc_port cli))"
    if "ConnectBackend a \<in> set (fst c)" for a
    using ingress_contacts [of a x cfg sfx port] that unfolding x(2) fst_ingress_connection cli by blast
  ultimately show ?thesis using enroll x(1) by blast
qed

theorem ingress_gateway_mutual_tls_witness:
  "\<exists>resp r. snd (enroll ex_enroll (ok_env (''HTTP/1.1 200 OK'' @ CRLF @ CRLF @ ''pem''))
      (cli_sigil_addr ex_cli) (cli_cluster_id ex_cli)) = Inr resp
    \<and> anchors ex_lib (er_root_ca_pem resp) r"
proof -
  let ?env = "ok_env (''HTTP/1.1 200 OK'' @ CRLF @ CRLF @ ''pem'')"
  let ?cli = "ex_cli\<lparr>cli_mode := IngressMode\<rparr>"
  let ?resp = "\<lparr>er_cert_pem = ''pem'', er_key_pem = ''k'', er_root_ca_pem = ''r'', er_expires_at_unix = 0\<rparr>"
  obtain t r where enroll: "enroll ex_enroll ?env ''sigil:8080'' ''dev'' = (t, r)"
    by (cases "enroll ex_enroll ?env ''sigil:8080'' ''dev''")
  with ex_enroll_ok [of "''sigil:8080''" "''dev''"] have "r = Inr ?resp" by simp
  with enroll have "snd (conduit_main ex_enroll ?env ?cli) =
      Inr (RunIngress (normalize_listen_addr '':9090'') ''dev'' (apply_enroll cs_new ?resp ''dev'') ''.svc'' 8080
        (tel_start ''http://t''))"
    by (simp add: conduit_main_def ex_cli_def Let_def act_ret_def)
  then have "ingress_connection ex_in_env () ''dev'' ''.svc'' 8080
      \<in> set (fst (ingress_gateway ex_lib ex_enroll ?env ?cli [''dev''] None [Inr ex_in_env]))"
    by (simp add: ingress_gateway_def ingress_run_def ok_or_def apply_enroll_def cs_defs first_value_def
        server_config_def load_certs_def load_key_def root_store_def ex_lib_def)
  from ingress_gateway_mutual_tls [OF this] show ?thesis by (auto simp: ex_cli_def)
qed

end
