(* ===== verification/Spec2Isabelle.thy ===== *)
theory Spec2Isabelle
  imports Kprobe_Main Kprobe_Telemetry Unit_Tests Mesh_Live Trace_Api Gateway
begin

text \<open>
  MeshLite is a service mesh without sidecars. Its Rust parts are the node agent \<open>kprobe\<close> (a kernel
  program on the traffic-control egress hook and a user-space agent that fills its maps), the
  cross-cluster gateway \<open>conduit\<close> (an egress and an ingress proxy) and the shared crate
  \<open>meshlite-tls\<close>. The control plane Sigil (Go) owns the policy and the certificate authority, pushes
  both to the agents over gRPC streams and serves the policy to the gateways over REST; agents and
  gateways report to Trace (Go), which keeps counters, a topology and an event log.

  How the parts interact. Sigil's engine produces rules; a connecting agent, and every reload, make
  a goroutine of the server read them and push a bundle into the channel of the agent's stream; the
  Sigil client of the agent copies the bundle into the policy cache and notifies; the pod watcher
  maintains the addresses of every service and notifies; the VerdictSync task turns both into one
  verdict per ordered pair of addresses in the kernel's verdict map; the kernel program looks the
  pair of every packet up and drops or passes it, and writes a record; the perf readers print and
  report the records. The authority issues the certificates that the server pushes on connect, on
  pod events and on rotation, with which agents upgrade to TLS and gateways enrol. The gateway polls
  the policy, checks the Host of every outgoing connection and tunnels it over mutual TLS to the
  ingress of the other cluster, which contacts the backend.

  The theories and the code under \<open>src/\<close>:
  \<^item> \<open>Mesh_Prelude\<close>, \<open>Rust_Str\<close>, \<open>Net_Addr\<close>, \<open>Mpsc_Channel\<close>, \<open>Net_Io\<close>, \<open>Float64\<close>, \<open>Float64_Rat\<close>: the standard
    libraries as the code uses them (errors, byte strings and UTF-8, byte order and IPv4 addresses,
    bounded channels, sockets as traces of actions with outcomes given from outside, rounding).
  \<^item> \<open>Cert_Store\<close>, \<open>Policy_Cache\<close>: \<open>crates/meshlite-tls/src/cert_store.rs\<close> and \<open>policy_cache.rs\<close>.
  \<^item> \<open>Policy_Engine\<close>, \<open>Policy_Push\<close>: \<open>sigil/internal/policy/engine.go\<close>, the configuration and the
    decision procedure, and the bundle pushed to the agents.
  \<^item> \<open>Sigil_CA\<close>, \<open>Sigil_Distributor\<close>: \<open>sigil/internal/ca/ca.go\<close>, issuing, revoking, listing and the root
    on disk; \<open>sigil/internal/distributor/distributor.go\<close>, the streams as a machine of events.
  \<^item> \<open>Sigil_Server\<close>, \<open>Sigil_Flow\<close>: \<open>sigil/cmd/server/main.go\<close> and \<open>sigil/internal/registry/registry.go\<close>,
    every goroutine as a job that runs one access to shared state at a time, and what holds over all
    interleavings.
  \<^item> \<open>Bpf_Maps\<close>, \<open>Ebpf_Egress\<close>: \<open>kprobe/kprobe-ebpf/src/main.rs\<close>, the classifier on raw bytes, and
    its specification on decoded packets.
  \<^item> \<open>Pod_Watcher\<close>, \<open>Verdict_Sync\<close>, \<open>Verdict_Mock\<close>, \<open>Enforcement\<close>: \<open>pod_watcher.rs\<close> and
    \<open>verdict_sync.rs\<close> of \<open>kprobe/kprobe-userspace/src\<close>, the reference function of their tests, and
    the kernel program run on the maps a reconciliation leaves.
  \<^item> \<open>Sigil_Client\<close>, \<open>Agent\<close>, \<open>Kprobe_Main\<close>, \<open>Perf_Events\<close>: \<open>sigil_client.rs\<close> as a state machine,
    the concurrent tasks of \<open>main.rs\<close> as a step relation, its start, and the perf readers.
  \<^item> \<open>Mesh_System\<close>, \<open>Mesh_Live\<close>: the server and an agent together, joined by the gRPC stream.
  \<^item> \<open>Unit_Tests\<close>: the unit tests of the Rust files, transcribed and proved on the model.
  \<^item> \<open>Telemetry\<close>, \<open>Kprobe_Telemetry\<close>: \<open>telemetry.rs\<close> of the gateway and of the agent.
  \<^item> \<open>Trace_Store\<close>, \<open>Trace_Api\<close>: \<open>trace/backend/internal/store/store.go\<close> and the telemetry handler of
    \<open>trace/backend/cmd/server/main.go\<close>.
  \<^item> \<open>Tls_Config\<close>, \<open>Cluster_Client\<close>, \<open>Http_Header\<close>, \<open>Egress\<close>, \<open>Ingress\<close>, \<open>Conduit_Main\<close>, \<open>Gateway\<close>:
    the files of \<open>conduit/src\<close>, and the egress process as a whole.

  A record of \<open>Sigil_Server\<close> and one of \<open>Pod_Watcher\<close> are both called \<open>Pod\<close>: what the Go and the Rust
  code read of the same Kubernetes object.

  Interfaces. \<open>event_machine\<close> and \<open>refined_machine\<close> (a step with an invariant, and with an
  abstraction; interpreted by the Sigil client, the pod watcher and the distributor),
  \<open>cert_provider\<close> and \<open>policy_oracle\<close> (what the clients of the stores rely on), \<open>cert_table\<close> (what the
  SQL statements of the authority do; interpreted by a finite map), \<open>bpf_maps\<close> (the laws of the
  kernel's maps; interpreted by an association list with the capacity of the code), \<open>skb_reader\<close>
  (bounded loads from a frame) and \<open>bounded_queue\<close> (interpreted by the channel model).

  What the lemmas show. Each component theory proves the behaviour of its operations on every
  branch and the invariants they keep; \<open>Enforcement\<close>, \<open>Agent\<close>, \<open>Sigil_Flow\<close> and \<open>Mesh_System\<close> compose
  them. The properties that span components: that a packet is dropped as the engine in force at the
  control plane decides, that server and agent always can catch up, that the policy converges and
  under which condition (which the code does not ensure), that goroutines and tasks finish, what a
  reconciliation leaves and what can be observed while it runs, that the printed line tells what the
  kernel did, that the two gateways agree, and that Trace counts what was reported.

  Bounds. The channels of the agent hold 32 items, those of the server 64 pushes, telemetry 256 or
  512 records, the verdict map 4096 entries, one read 8192 bytes, a latency window 512 values; these
  are the code's numbers and no property needs others. No fuel is used: every loop of the code is a
  recursion over a list that is given (keys, rules, lines, watch items, messages, ticks, accepted
  connections), and the loops that run for ever are step relations or recursions over the list of
  what arrives; the termination of the steps of the agent and of the server is proved with measures.

  Parameters, for code that is not under \<open>src/\<close>: the kernel's maps and packet loads, the watch
  stream of kube, gRPC, rustls and PEM parsing (\<open>tls_lib\<close>), the cryptography, X.509 and SQL of the
  authority (\<open>ca_lib\<close>), YAML, JSON, sockets and DNS, the iteration order of hash maps (a list of the
  keys, each once), the machine's byte order, randomness and clocks.

  Not modelled: timing (back-off, intervals, timeouts; a tick is an event), the value of the latency
  the gateway measures as an f64 (a rational here, one value per connection), log lines, the panic of
  the crypto provider's installation, command lines, the set-up of listeners and of the Kubernetes
  client, the read-only GET handlers of Sigil, the torn reads that the unsynchronised copy of the
  engine allows within one field, the fake agents, meshctl, the demonstration, charts, frontends and
  scripts. A handler of the egress reads the policy once, under the lock, so an accepted connection
  is placed in a run at that moment. Fields that record history for the statements (\<open>ag_relist\<close>,
  \<open>ag_last\<close>, \<open>as_sent\<close>, \<open>as_offered\<close>) are never read by a step.
\<close>

section \<open>The whole mesh\<close>



section \<open>The running agent\<close>

text \<open>
  The mesh enforces the decisions of Sigil's engine, from the engine's rules down to the packet.
  Take any state an agent can reach in which nothing is on its way and the watch is complete, and
  let the policy it applied last be the bundle Sigil built from its engine, in whatever order Go
  visits the engine's maps. Then a TCP or UDP packet between pods of two different services is
  dropped exactly when the engine denies the pair, or overrides its own default for it (the source
  has rules, none lists the destination, and the default is to allow), and the packet is UDP or
  opens a TCP connection; provided that no two services share an address and the pairs fit.
\<close>

theorem mesh_enforces_engine:
  assumes "bpf_maps B cap" and "skb_reader load frame"
    and "agent_reach L endpoint c e B s" and "settled s" and "\<not> ag_relist s"
    and "unique_ips (ag_pods s)"
    and "\<And>ks. iter_order (ag_pods s) ks \<Longrightarrow> pair_count (ag_pods s) ks \<le> cap"
    and "decode_frame frame = Some p"
    and "ag_pods s f = Some fs" and "p_src p \<in> set fs" and "ag_pods s t = Some ts" and "p_dst p \<in> set ts" and "f \<noteq> t"
    and "in_pod_cidr (p_src p)" and "in_pod_cidr (p_dst p)"
    and "visits eng ks dord" and "sg_policy (ag_sigil s) = apply_policy_bundle (engine_bundle eng ks dord) old"
  shows "fst (kernel_egress e B (ag_maps s) load) = TC_ACT_SHOT \<longleftrightarrow>
    (Evaluate eng f t = Deny \<or> overridden eng f t) \<and> (p_proto p = 6 \<longrightarrow> opens_connection p)"
proof -
  have "is_allowed (sg_policy (ag_sigil s)) f t \<longleftrightarrow> Evaluate eng f t = Allow \<and> \<not> overridden eng f t"
    unfolding assms(17) by (rule pushed_is_allowed [OF assms(16)])
  then show ?thesis
    using settled_agent_drops [OF assms(1-15)] by (cases "Evaluate eng f t") simp_all
qed

theorem mesh_enforces_engine_witness:
  "\<exists>s. agent_reach ex_lib ex_endpoint ex_client Little kmaps s \<and>
     fst (kernel_egress Little kmaps (ag_maps s)
       (skb_load (tcp_frame (Ipv4Addr 10 244 2 7) (Ipv4Addr 10 244 1 5) 0x02))) = TC_ACT_SHOT"
proof -
  let ?eng = "newEngine (ex_config ''enforce'' False [\<lparr>from_service = ''alpha'', to_services = [''beta'']\<rparr>])"
  obtain s where s: "agent_reach ex_lib ex_endpoint ex_client Little kmaps s" "settled s" "\<not> ag_relist s"
    and sel: "ag_pods s = ex_pods" "sg_policy (ag_sigil s) = ex_policy"
    using ex_agent by blast
  have count: "iter_order (ag_pods s) ks \<Longrightarrow> pair_count (ag_pods s) ks \<le> VERDICT_MAP_ENTRIES" for ks
    unfolding sel by (rule ex_count_any)
  have v: "visits ?eng [''alpha''] (\<lambda>f. [''beta''])"
    by (auto simp: visits_def iter_order_def split: if_splits)
  have pushed: "sg_policy (ag_sigil s) = apply_policy_bundle (engine_bundle ?eng [''alpha''] (\<lambda>f. [''beta''])) pc_new"
    by (simp add: sel apply_engine_bundle pc_update_last Rules_def ex_policy_def)
  have "Evaluate ?eng ''beta'' ''alpha'' = Deny" by (simp add: Evaluate_def)
  then have "fst (kernel_egress Little kmaps (ag_maps s)
       (skb_load (tcp_frame (Ipv4Addr 10 244 2 7) (Ipv4Addr 10 244 1 5) 0x02))) = TC_ACT_SHOT"
    by (subst mesh_enforces_engine [where f = "''beta''" and t = "''alpha''" and fs = "[Ipv4Addr 10 244 2 7]"
          and ts = "[Ipv4Addr 10 244 1 5]",
          OF km.bpf_maps_axioms skb.skb_reader_axioms s _ count decode_tcp_frame _ _ _ _ _ _ _ v pushed])
      (simp_all add: sel ex_unique ex_pods_sel ex_cidr syn_opens)
  with s(1) show ?thesis by blast
qed

text \<open>
  C3. The agent enforces the policy Sigil pushed last. Take any state its tasks can reach, from
  any pod events, pushes and interleavings, in which nothing is on its way and the watch is
  complete. Then a TCP or UDP packet between pods of two different services is dropped exactly
  when the last policy pushed does not permit the pair and the packet is UDP or opens a TCP
  connection, provided that no two services share an address and the pairs fit into the map.
\<close>

theorem agent_enforces_pushed_policy:
  assumes "bpf_maps B cap" and "skb_reader load frame"
    and "agent_reach L endpoint c e B s" and "settled s" and "\<not> ag_relist s"
    and "unique_ips (ag_pods s)"
    and "\<And>ks. iter_order (ag_pods s) ks \<Longrightarrow> pair_count (ag_pods s) ks \<le> cap"
    and "decode_frame frame = Some p"
    and "ag_pods s f = Some fs" and "p_src p \<in> set fs" and "ag_pods s t = Some ts" and "p_dst p \<in> set ts" and "f \<noteq> t"
    and "in_pod_cidr (p_src p)" and "in_pod_cidr (p_dst p)"
  shows "fst (kernel_egress e B (ag_maps s) load) = TC_ACT_SHOT \<longleftrightarrow>
    \<not> is_allowed (sg_policy (ag_sigil s)) f t \<and> (p_proto p = 6 \<longrightarrow> opens_connection p)"
  by (rule settled_agent_drops [OF assms])

theorem agent_enforces_pushed_policy_witness:
  "\<exists>s. agent_reach ex_lib ex_endpoint ex_client Little kmaps s \<and>
     fst (kernel_egress Little kmaps (ag_maps s)
       (skb_load (tcp_frame (Ipv4Addr 10 244 2 7) (Ipv4Addr 10 244 1 5) 0x02))) = TC_ACT_SHOT"
proof -
  obtain s where s: "agent_reach ex_lib ex_endpoint ex_client Little kmaps s" "settled s" "\<not> ag_relist s"
    and sel: "ag_pods s = ex_pods" "sg_policy (ag_sigil s) = ex_policy"
    using ex_agent by blast
  have count: "iter_order (ag_pods s) ks \<Longrightarrow> pair_count (ag_pods s) ks \<le> VERDICT_MAP_ENTRIES" for ks
    unfolding sel by (rule ex_count_any)
  have "fst (kernel_egress Little kmaps (ag_maps s)
       (skb_load (tcp_frame (Ipv4Addr 10 244 2 7) (Ipv4Addr 10 244 1 5) 0x02))) = TC_ACT_SHOT"
    by (subst agent_enforces_pushed_policy [OF km.bpf_maps_axioms skb.skb_reader_axioms s _ count decode_tcp_frame,
          where f = "''beta''" and t = "''alpha''" and fs = "[Ipv4Addr 10 244 2 7]" and ts = "[Ipv4Addr 10 244 1 5]"])
      (simp_all add: sel ex_unique ex_pods_sel ex_cidr ex_allowed syn_opens)
  with s(1) show ?thesis by blast
qed

text \<open>
  C4. The agent never gets stuck and always settles: from every reachable state its own steps
  strictly decrease the work that is left, one of them is enabled until it is settled (the
  bounded channels cannot deadlock), and they lead to a settled state with the same pods and the
  same policy; the channels never hold more than 32 items.
\<close>

theorem agent_settles:
  assumes "bpf_maps B cap" and "agent_reach L endpoint c e B s"
  shows "(\<forall>s'. agent_task e B s s' \<longrightarrow> work s' < work s) \<and>
    (settled s \<or> (\<exists>s'. agent_task e B s s')) \<and>
    (\<exists>s'. (agent_task e B)\<^sup>*\<^sup>* s s' \<and> settled s' \<and> ag_pods s' = ag_pods s
       \<and> sg_policy (ag_sigil s') = sg_policy (ag_sigil s)) \<and>
    length (ch_queue (ag_pod_chan s)) \<le> 32 \<and> length (ch_queue (ag_sync_chan s)) \<le> 32"
proof -
  have inv: "chan_inv s" using bpf_maps.reach_inv [OF assms] by blast
  obtain s' where s': "(agent_task e B)\<^sup>*\<^sup>* s s'" "settled s'" using settles [OF inv] by blast
  then have "ag_pods s' = ag_pods s \<and> sg_policy (ag_sigil s') = sg_policy (ag_sigil s)"
    using tasks_data [OF s'(1)] by simp
  moreover have "settled s \<or> (\<exists>s'. agent_task e B s s')" using not_settled_step [OF inv] by blast
  moreover have "length (ch_queue (ag_pod_chan s)) \<le> 32 \<and> length (ch_queue (ag_sync_chan s)) \<le> 32"
    using inv by (simp add: chan_inv_def CHANNEL_CAP_def)
  ultimately show ?thesis using s' task_work by blast
qed

theorem agent_settles_witness:
  "\<exists>s. agent_reach ex_lib ex_endpoint ex_client Little kmaps s \<and> length (ch_queue (ag_sync_chan s)) \<le> 32"
proof -
  obtain s where "agent_reach ex_lib ex_endpoint ex_client Little kmaps s" using ex_agent by blast
  with agent_settles [OF km.bpf_maps_axioms this] show ?thesis by blast
qed

text \<open>
  Until its first reconciliation the agent drops nothing: whatever has arrived in the
  meantime, every frame passes, so the connections to Sigil and to the Kubernetes API that it
  needs to start are never cut.
\<close>

theorem agent_passes_all_before_first_sync:
  assumes "bpf_maps B cap" and "skb_reader load frame"
    and "agent_reach L endpoint c e B s" and "ag_last s = None"
  shows "fst (kernel_egress e B (ag_maps s) load) = TC_ACT_OK"
proof -
  have "maps_inv e B s" using bpf_maps.reach_inv [OF assms(1,3)] by blast
  then have maps: "hm_get B (verdict_map (ag_maps s)) = Map.empty" "ar_get B (policy_flags (ag_maps s)) 0 = Some 1"
    using assms(4) by (simp_all add: maps_inv_def)
  from fresh_maps_pass [OF assms(2) this] show ?thesis .
qed

theorem agent_passes_all_before_first_sync_witness:
  "\<exists>s. agent_start kmaps DAList.empty 0 = Inr s \<and> fst (kernel_egress Little kmaps (ag_maps s)
     (skb_load (tcp_frame (Ipv4Addr 10 244 2 7) (Ipv4Addr 10 244 1 5) 0x02))) = TC_ACT_OK"
proof -
  have empty: "hm_get kmaps DAList.empty = Map.empty" by (simp add: fun_eq_iff lookup_empty)
  obtain s :: "(kmap, u32) Agent" where s: "agent_start kmaps DAList.empty 0 = Inr s" "ag_last s = None"
    by (simp add: agent_start_def kmaps_def flags_set_def POLICY_FLAGS_ENTRIES_def)
  have "agent_reach ex_lib ex_endpoint ex_client Little kmaps s"
    by (rule agent_reach.start [OF empty s(1)])
  from agent_passes_all_before_first_sync [OF km.bpf_maps_axioms skb.skb_reader_axioms this s(2)] s(1)
  show ?thesis by blast
qed

section \<open>Enforcement of the policy by the kernel program\<close>



text \<open>
  C19. A pair of pod addresses about which the snapshot says nothing (an address that belongs to
  no service, or two addresses of one service) follows the default of the policy: its
  connections are dropped exactly when the default is to deny. For two pods of one service this
  holds even when a rule permits the service to reach itself.
\<close>

theorem unlisted_pairs_follow_default:
  assumes "bpf_maps B cap" and "skb_reader load frame"
    and "iter_order pods ks"
    and "sync e B policy pods ks st = Some (st', n)"
    and "decode_frame frame = Some p"
    and "\<And>f t fs ts. pods f = Some fs \<Longrightarrow> p_src p \<in> set fs \<Longrightarrow> pods t = Some ts \<Longrightarrow> p_dst p \<in> set ts \<Longrightarrow> f = t"
    and "in_pod_cidr (p_src p)" and "in_pod_cidr (p_dst p)"
  shows "fst (kernel_egress e B st' load) = TC_ACT_SHOT \<longleftrightarrow>
    \<not> default_allow policy \<and> (p_proto p = 6 \<longrightarrow> opens_connection p)"
proof -
  have "ip_key e (p_src p) (p_dst p) \<notin> fst ` set (entries e policy pods ks)"
    using assms(6) by (force simp: set_entries [OF assms(3)])
  from bpf_maps.sync_missing [OF assms(1,3,4) this]
  have "hm_get B (verdict_map st') (ip_key e (p_src p) (p_dst p)) = None" .
  from bpf_maps.synced_default [OF assms(1,3,4) this assms(7,8)]
  show ?thesis by (simp add: kernel_egress_shot [OF assms(2,5)])
qed

theorem unlisted_pairs_follow_default_witness:
  "\<exists>st' n. sync Little kmaps (pc_update ex_policy [\<lparr>from_service = ''alpha'', to_services = [''alpha'']\<rparr>] False ''enforce'')
       ex_pods [''alpha'', ''beta''] ex_state = Some (st', n)
    \<and> fst (kernel_egress Little kmaps st'
         (skb_load (tcp_frame (Ipv4Addr 10 244 1 5) (Ipv4Addr 10 244 1 5) 0x02))) = TC_ACT_SHOT"
proof -
  let ?policy = "pc_update ex_policy [\<lparr>from_service = ''alpha'', to_services = [''alpha'']\<rparr>] False ''enforce''"
  obtain st' n where st': "sync Little kmaps ?policy ex_pods [''alpha'', ''beta''] ex_state = Some (st', n)"
    by (auto simp: sync_fold [OF ex_order] Let_def)
  have "fst (kernel_egress Little kmaps st'
      (skb_load (tcp_frame (Ipv4Addr 10 244 1 5) (Ipv4Addr 10 244 1 5) 0x02))) = TC_ACT_SHOT"
    by (subst unlisted_pairs_follow_default [OF km.bpf_maps_axioms skb.skb_reader_axioms ex_order st'
          decode_tcp_frame])
      (auto simp: ex_cidr syn_opens ex_pods_def split: if_splits)
  with st' show ?thesis by blast
qed



text \<open>
  Reconciling is independent of the past and of the iteration order: from whatever states
  and in whatever orders of the service names, two reconciliations of the same policy and
  snapshot leave the same verdicts and the same flag. In particular repeating one changes nothing.
\<close>

theorem sync_deterministic:
  assumes "bpf_maps B cap" and "unique_ips pods"
    and "iter_order pods ks" and "pair_count pods ks \<le> cap" and "sync e B policy pods ks st = Some (st', n)"
    and "iter_order pods js" and "pair_count pods js \<le> cap" and "sync e B policy pods js s0 = Some (s', m)"
  shows "hm_get B (verdict_map st') = hm_get B (verdict_map s') \<and>
    ar_get B (policy_flags st') 0 = ar_get B (policy_flags s') 0"
proof
  show "hm_get B (verdict_map st') = hm_get B (verdict_map s')"
  proof (rule map_eqI_Some)
    fix k v
    show "hm_get B (verdict_map st') k = Some v \<longleftrightarrow> hm_get B (verdict_map s') k = Some v"
      by (simp only: bpf_maps.sync_exact [OF assms(1,3,5,4,2)] bpf_maps.sync_exact [OF assms(1,6,8,7,2)]
          set_entries [OF assms(3)] set_entries [OF assms(6)])
  qed
  show "ar_get B (policy_flags st') 0 = ar_get B (policy_flags s') 0"
    by (simp add: bpf_maps.sync_flag [OF assms(1,3,5)] bpf_maps.sync_flag [OF assms(1,6,8)])
qed

theorem sync_deterministic_witness:
  "map_option (\<lambda>(st, n). DAList.lookup (verdict_map st)) (sync Little kmaps ex_policy ex_pods [''alpha'', ''beta''] ex_state) =
   map_option (\<lambda>(st, n). DAList.lookup (verdict_map st)) (sync Little kmaps ex_policy ex_pods [''beta'', ''alpha'']
      (ex_state\<lparr>policy_flags := 0\<rparr>))"
proof -
  have o2: "iter_order ex_pods [''beta'', ''alpha'']"
    by (auto simp: iter_order_def ex_pods_def)
  have c2: "pair_count ex_pods [''beta'', ''alpha''] = 2"
    by (simp add: pair_count_def ex_pods_def)
  obtain st' n where st': "sync Little kmaps ex_policy ex_pods [''alpha'', ''beta''] ex_state = Some (st', n)"
    using ex_sync by blast
  obtain s' m where s': "sync Little kmaps ex_policy ex_pods [''beta'', ''alpha''] (ex_state\<lparr>policy_flags := 0\<rparr>) = Some (s', m)"
    by (auto simp: sync_fold [OF o2] Let_def)
  show ?thesis
    using sync_deterministic [OF km.bpf_maps_axioms ex_unique ex_order _ st' o2 _ s']
    by (simp add: st' s' ex_count c2 VERDICT_MAP_ENTRIES_def)
qed

text \<open>
  C18. The capacity of the verdict map: a reconciliation never exceeds it, 64 pod addresses
  always fit into the 4096 entries, and a snapshot with more pairs than entries leaves some pair
  without a verdict (the failed insert is only logged), so the default decides for it.
\<close>

theorem sync_capacity:
  assumes "bpf_maps B cap" and "iter_order pods ks" and "sync e B policy pods ks st = Some (st', n)"
  shows "card (dom (hm_get B (verdict_map st'))) \<le> cap
    \<and> (pod_count pods ks \<le> 64 \<longrightarrow> pair_count pods ks \<le> VERDICT_MAP_ENTRIES)
    \<and> (unique_ips pods \<and> distinct_ips pods \<and> cap < pair_count pods ks \<longrightarrow>
        (\<exists>f t fs ts s d. pods f = Some fs \<and> pods t = Some ts \<and> f \<noteq> t \<and> s \<in> set fs \<and> d \<in> set ts
           \<and> hm_get B (verdict_map st') (ip_key e s d) = None))"
proof (intro conjI impI)
  show "card (dom (hm_get B (verdict_map st'))) \<le> cap"
    by (rule bpf_maps.sync_bounded [OF assms])
  assume "pod_count pods ks \<le> 64"
  then have "pod_count pods ks * pod_count pods ks \<le> 64 * 64" by (rule mult_le_mono) fact
  then show "pair_count pods ks \<le> VERDICT_MAP_ENTRIES"
    using pair_count_square [of pods ks] by (simp add: VERDICT_MAP_ENTRIES_def)
next
  assume "unique_ips pods \<and> distinct_ips pods \<and> cap < pair_count pods ks"
  then obtain k v where kv: "(k, v) \<in> set (entries e policy pods ks)" "hm_get B (verdict_map st') k = None"
    using bpf_maps.sync_overflow [OF assms] by blast
  from kv(1) show "\<exists>f t fs ts s d. pods f = Some fs \<and> pods t = Some ts \<and> f \<noteq> t \<and> s \<in> set fs \<and> d \<in> set ts
      \<and> hm_get B (verdict_map st') (ip_key e s d) = None"
    unfolding set_entries [OF assms(2)] using kv(2) by blast
qed

theorem sync_capacity_witness:
  "\<exists>st' n. sync Little kmaps ex_policy big_pods [''alpha'', ''beta''] ex_state = Some (st', n) \<and>
     (\<exists>s d. DAList.lookup (verdict_map st') (ip_key Little s d) = None \<and>
        s \<in> \<Union> (set ` ran big_pods) \<and> d \<in> \<Union> (set ` ran big_pods))"
proof -
  obtain st' n where st': "sync Little kmaps ex_policy big_pods [''alpha'', ''beta''] ex_state = Some (st', n)"
    using big_sync by blast
  obtain f t fs ts s d where *: "big_pods f = Some fs" "big_pods t = Some ts" "s \<in> set fs" "d \<in> set ts"
    "hm_get kmaps (verdict_map st') (ip_key Little s d) = None"
    using sync_capacity [OF km.bpf_maps_axioms big_order st'] big_unique big_distinct
    by (auto simp: big_count VERDICT_MAP_ENTRIES_def)
  then have "s \<in> \<Union> (set ` ran big_pods)" "d \<in> \<Union> (set ` ran big_pods)"
    by (auto intro: ranI)
  with st' *(5) show ?thesis by auto
qed

section \<open>The kernel program during a reconciliation\<close>



text \<open>
  C16. What a reconciliation in progress never does, for two pods of different services. Under a
  default-deny policy it never opens a refused pair: a packet dropped before it and refused by
  the new policy is dropped in every state on the way. Under a default-allow policy it never
  interrupts a permitted pair: a packet that passed before it and is permitted by the new policy
  passes in every state on the way.
\<close>

theorem sync_keeps_common_verdict:
  assumes "bpf_maps B cap" and "skb_reader load frame"
    and "iter_order pods ks" and "unique_ips pods"
    and "decode_frame frame = Some p"
    and "pods f = Some fs" and "p_src p \<in> set fs" and "pods t = Some ts" and "p_dst p \<in> set ts" and "f \<noteq> t"
    and "is_allowed policy f t = default_allow policy"
    and "fst (kernel_egress e B st load) = (if default_allow policy then TC_ACT_OK else TC_ACT_SHOT)"
    and "st' \<in> set (sync_trace e B policy pods ks st)"
  shows "fst (kernel_egress e B st' load) = fst (kernel_egress e B st load)"
proof (cases "default_allow policy")
  case False
  then have "fst (kernel_egress e B st' load) = TC_ACT_SHOT"
    using bpf_maps.trace_keeps_denied [OF assms(1,13,3,4,6-10)] assms(11,12)
    by (auto simp: kernel_egress_shot [OF assms(2,5)])
  with False assms(12) show ?thesis by simp
next
  case True
  then have "fst (kernel_egress e B st' load) = TC_ACT_OK"
    using bpf_maps.trace_keeps_allowed [OF assms(1,13,3,4,6-10)] assms(11,12)
    by (auto simp: kernel_egress_shot [OF assms(2,5)] kernel_egress_ok [OF assms(2)])
  with True assms(12) show ?thesis by simp
qed

theorem sync_keeps_common_verdict_witness:
  "fst (kernel_egress Little kmaps
       (sync_trace Little kmaps ex_policy ex_pods [''alpha'', ''beta''] (ex_state\<lparr>policy_flags := 0\<rparr>) ! 1)
       (skb_load (tcp_frame (Ipv4Addr 10 244 2 7) (Ipv4Addr 10 244 1 5) 0x02))) = TC_ACT_SHOT"
proof -
  let ?trace = "sync_trace Little kmaps ex_policy ex_pods [''alpha'', ''beta''] (ex_state\<lparr>policy_flags := 0\<rparr>)"
  define st' where "st' = ?trace ! 1"
  have "states f s xs \<noteq> []" for f :: "kmap \<Rightarrow> PacketKey \<Rightarrow> kmap" and s xs by (cases xs) simp_all
  then have "1 < length ?trace" by (simp add: sync_trace_def)
  then have st': "st' \<in> set ?trace" unfolding st'_def by (rule nth_mem)
  have d: "default_allow ex_policy = False" by (simp add: ex_policy_def)
  have before: "fst (kernel_egress Little kmaps (ex_state\<lparr>policy_flags := 0\<rparr>)
      (skb_load (tcp_frame (Ipv4Addr 10 244 2 7) (Ipv4Addr 10 244 1 5) 0x02))) = TC_ACT_SHOT"
    by (simp add: kernel_egress_shot [OF skb.skb_reader_axioms decode_tcp_frame] syn_opens pair_verdict_def
        ex_cidr ex_state_def lookup_empty flags_get_def POLICY_FLAGS_ENTRIES_def)
  have "fst (kernel_egress Little kmaps st'
      (skb_load (tcp_frame (Ipv4Addr 10 244 2 7) (Ipv4Addr 10 244 1 5) 0x02))) =
    fst (kernel_egress Little kmaps (ex_state\<lparr>policy_flags := 0\<rparr>)
      (skb_load (tcp_frame (Ipv4Addr 10 244 2 7) (Ipv4Addr 10 244 1 5) 0x02)))"
    by (rule sync_keeps_common_verdict [OF km.bpf_maps_axioms skb.skb_reader_axioms ex_order ex_unique
          decode_tcp_frame ex_pods_sel(2) _ ex_pods_sel(1) _ _ _ _ st'])
      (simp_all add: d ex_allowed before)
  with before show ?thesis by (simp add: st'_def)
qed

section \<open>From the packet to the log line\<close>

text \<open>
  C37. What the agent prints is what the kernel did: for a TCP or UDP packet with an address in
  the pod network, the record the classifier emits, copied through the perf buffer with any
  padding, becomes one line with the packet's own addresses and ports, and it says DENY exactly
  when the packet was dropped; the verdicts in the map being 0 or 1, as every reconciliation
  leaves them.
\<close>

theorem intercept_line_matches_packet:
  assumes "skb_reader load frame" and "decode_frame frame = Some p"
    and "in_pod_cidr (p_src p) \<or> in_pod_cidr (p_dst p)"
    and "\<forall>k v. hm_get B (verdict_map st) k = Some v \<longrightarrow> v = 0 \<or> v = 1"
  shows "\<exists>l pn. snd (kernel_egress e B st load) = [l] \<and> proto_name (p_proto p) = Some pn \<and>
    fst (handle_slot e cl v w (log_to_bytes e pad l @ extra)) =
      [intercept_line (p_src p) (p_sport p) (p_dst p) (p_dport p) pn
        (if fst (kernel_egress e B st load) = TC_ACT_SHOT then ''DENY'' else ''ALLOW'')]"
proof -
  let ?l = "packet_log e (hm_get B (verdict_map st)) (ar_get B (policy_flags st)) p"
  let ?v = "packet_verdict e (hm_get B (verdict_map st)) (ar_get B (policy_flags st)) p"
  have out: "kernel_egress e B st load = (if ?v = 1 then TC_ACT_SHOT else TC_ACT_OK, [?l])"
    by (simp add: kernel_egress_def skb_reader.kprobe_egress_meets_spec [OF assms(1)] egress_spec_def assms(2))
  have "pair_verdict e (hm_get B (verdict_map st)) (ar_get B (policy_flags st)) s d \<in> {0, 1}" for s d
    using assms(4) by (auto simp: pair_verdict_def split: option.split)
  then have "?v \<in> {0, 1}" by (auto simp: packet_verdict_def Let_def)
  moreover obtain pn where pn: "proto_name (p_proto p) = Some pn"
    using decode_frame_proto [OF assms(2)] by (auto simp: proto_name_def)
  ultimately show ?thesis
    using assms(3) by (auto simp: out handle_slot_log packet_log_def in_cluster_net_cidr Let_def)
qed

theorem intercept_line_matches_packet_witness:
  "\<exists>l. fst (handle_slot Little ''dev'' (ex_pods, [''alpha'', ''beta'']) (ex_pods, [''alpha'', ''beta''])
      (log_to_bytes Little (0, 0) l @ [])) =
      [intercept_line (Ipv4Addr 10 244 1 5) 0xC000 (Ipv4Addr 10 244 2 7) 0x1F90 ''TCP'' ''ALLOW'']"
proof -
  have v: "\<forall>k v. hm_get kmaps (verdict_map ex_state) k = Some v \<longrightarrow> v = 0 \<or> v = 1"
    by (simp add: ex_state_def lookup_empty)
  have cidr: "in_pod_cidr (p_src (tcp_packet (Ipv4Addr 10 244 1 5) (Ipv4Addr 10 244 2 7) 0x02)) \<or>
      in_pod_cidr (p_dst (tcp_packet (Ipv4Addr 10 244 1 5) (Ipv4Addr 10 244 2 7) 0x02))"
    by (simp add: ex_cidr)
  have "fst (kernel_egress Little kmaps ex_state (skb_load (tcp_frame (Ipv4Addr 10 244 1 5) (Ipv4Addr 10 244 2 7) 0x02)))
      \<noteq> TC_ACT_SHOT"
    by (simp add: kernel_egress_shot [OF skb.skb_reader_axioms decode_tcp_frame] pair_verdict_def ex_state_def
        lookup_empty flags_get_def)
  note passed = this
  have fields: "p_src (tcp_packet a b f) = a" "p_dst (tcp_packet a b f) = b" "p_sport (tcp_packet a b f) = 0xC000"
    "p_dport (tcp_packet a b f) = 0x1F90" "proto_name (p_proto (tcp_packet a b f)) = Some ''TCP''" for a b f
    by (simp_all add: tcp_packet_def proto_name_def)
  obtain l pn where l: "proto_name (p_proto (tcp_packet (Ipv4Addr 10 244 1 5) (Ipv4Addr 10 244 2 7) 0x02)) = Some pn"
    "fst (handle_slot Little ''dev'' (ex_pods, [''alpha'', ''beta'']) (ex_pods, [''alpha'', ''beta''])
      (log_to_bytes Little (0, 0) l @ [])) =
      [intercept_line (Ipv4Addr 10 244 1 5) 0xC000 (Ipv4Addr 10 244 2 7) 0x1F90 pn ''ALLOW'']"
    using intercept_line_matches_packet [where B = kmaps and st = ex_state and e = Little and cl = "''dev''"
      and v = "(ex_pods, [''alpha'', ''beta''])" and w = "(ex_pods, [''alpha'', ''beta''])" and pad = "(0, 0)"
      and extra = "[]", OF skb.skb_reader_axioms decode_tcp_frame cidr v]
    unfolding if_not_P [OF passed] fields by blast
  from l(1) have "pn = ''TCP''" by (simp only: fields option.inject)
  with l(2) show ?thesis by blast
qed

section \<open>The gateways\<close>

text \<open>
  C36. The gateway's policy is Sigil's policy for the unknown source: with the rules of an engine,
  in whatever order its maps are visited, a destination passes the egress check exactly when the
  engine permits it from some source.
\<close>

theorem egress_check_agrees_with_engine:
  assumes "visits eng ks dord"
  shows "is_allowed_destination (pc_update c (Rules eng ks dord) (defaultAllow eng) m) t \<longleftrightarrow>
    (\<exists>f. Evaluate eng f t = Allow)"
proof -
  have dom: "f \<in> set ks \<longleftrightarrow> (\<exists>ds. allow eng f = Some ds)"
    and dord: "allow eng f = Some ds \<Longrightarrow> set (dord f) = ds" for f ds
    using assms by (auto simp: visits_def iter_order_def)
  have "is_allowed_destination (pc_update c (Rules eng ks dord) (defaultAllow eng) m) t \<longleftrightarrow>
      defaultAllow eng \<or> (\<exists>f \<in> set ks. t \<in> set (dord f))"
    by (simp add: is_allowed_destination_iff Rules_def)
  also have "(\<exists>f \<in> set ks. t \<in> set (dord f)) \<longleftrightarrow> (\<exists>f ds. allow eng f = Some ds \<and> t \<in> ds)"
    using dom dord by blast
  finally show ?thesis by (simp add: Evaluate_Allow)
qed

theorem egress_check_agrees_with_engine_witness:
  "\<not> is_allowed_destination (pc_update pc_new (Rules (newEngine (ex_config ''enforce'' False
       [\<lparr>from_service = ''alpha'', to_services = [''beta'']\<rparr>])) [''alpha''] (\<lambda>f. [''beta''])) False ''enforce'')
     ''gamma''"
proof -
  let ?eng = "newEngine (ex_config ''enforce'' False [\<lparr>from_service = ''alpha'', to_services = [''beta'']\<rparr>])"
  have "visits ?eng [''alpha''] (\<lambda>f. [''beta''])"
    by (auto simp: visits_def iter_order_def split: if_splits)
  from egress_check_agrees_with_engine [OF this, of pc_new "''enforce''" "''gamma''"]
  show ?thesis by (simp add: Evaluate_Allow)
qed

text \<open>
  C34. The two gateways agree on the destination: when the ingress reads the request head that the
  egress sent, the backend it contacts is the destination the egress checked against the policy,
  whatever the head contains (several Host headers included). This needs the whole head to arrive
  in one read.
\<close>

theorem gateways_agree_on_destination:
  assumes "WriteUp hdr \<in> set (fst (egress_handle L env peer cid store ks policy))"
    and "ig_read ienv = Inr hdr"
    and "ConnectBackend a \<in> set (fst (ingress_handle ienv acceptor sfx port))"
  shows "\<exists>d. wanted env = Some d \<and> is_allowed_destination policy d \<and> a = backend_addr d sfx port"
proof -
  obtain d where d: "wanted env = Some d" "is_allowed_destination policy d" "read_buf (eg_read env) = Inr hdr"
    using assms(1) wanted_Some [of env]
    by (auto simp: egress_handle_wanted dest: forward_acts split: option.splits sum.splits if_splits)
  from d(3) have "ingress_read_buf (Inr hdr) = Inr hdr"
    by (auto simp: read_buf_def ingress_read_buf_def READ_LIMIT_def INGRESS_READ_LIMIT_def split: sum.splits)
  moreover have "extract_host hdr = Some d" using d by (simp add: wanted_def)
  ultimately have "a = backend_addr d sfx port"
    using assms(2,3) by (auto simp: ingress_handle_cases split: option.splits if_splits)
  with d show ?thesis by blast
qed

theorem gateways_agree_on_destination_witness:
  "\<exists>d. wanted ex_env = Some d \<and> backend_addr ''beta'' ''.svc'' 8080 = backend_addr d ''.svc'' 8080"
proof -
  let ?ienv = "ex_in_env\<lparr>ig_read := Inr ex_request\<rparr>"
  have up: "WriteUp ex_request \<in> set (fst (egress_handle ex_lib ex_env ''peer:443'' ''dev'' ex_store [''dev''] pc_new))"
    by (simp add: ex_trace is_allowed_destination_def pc_new_def)
  have "ingress_read_buf (Inr ex_request) = Inr ex_request"
    by (simp add: ingress_read_buf_def INGRESS_READ_LIMIT_def ex_request_def)
  moreover have "ex_request \<noteq> []" by (simp add: ex_request_def)
  ultimately have "ConnectBackend (backend_addr ''beta'' ''.svc'' 8080) \<in> set (fst (ingress_handle ?ienv () ''.svc'' 8080))"
    by (simp add: ingress_handle_cases ex_request_host ex_in_env_def)
  from gateways_agree_on_destination [OF up _ this] show ?thesis by auto
qed

end
